(* ===== verification/Dhcp_Prelude.thy ===== *)
theory Dhcp_Prelude
  imports Main "HOL-Library.Word" "HOL-Library.State_Monad"
begin

text \<open>
  Shared vocabulary of the development: machine words, error codes, byte buffers
  with positional reads and writes, and the running of state-monad programs.

  \<^item> C's fixed-width integers are words; \<open>size_t\<close> values are \<open>nat\<close> (they measure
    objects in memory, so the sums the code forms from them do not wrap).
  \<^item> A C function that returns 0 or a negative errno returns \<open>errno + 'a\<close>, with
    \<open>Inl\<close> for the error. \<open>Eother\<close> stands for a code that a platform call returned.
  \<^item> A buffer is the list of its bytes; \<open>put\<close> writes a block at an offset (memcpy,
    memset and single stores), \<open>sub\<close> reads one.
\<close>

unbundle bit_operations_syntax

type_synonym u8 = "8 word"
type_synonym u16 = "16 word"
type_synonym u32 = "32 word"

datatype errno =
    EINVAL | ENOSPC | EPROTO | ENOENT | ENOMEM | EEXIST | EADDRINUSE | ENODEV | EALREADY
  | Eother int

named_theorems run_simps "equations that run the primitives of the lease monad"
named_theorems codec_simps "lengths and positional reads of encoded fields"
named_theorems dhcp_defs "unfoldings of the handlers"

section \<open>Byte buffers\<close>

definition put :: "nat \<Rightarrow> 'a list \<Rightarrow> 'a list \<Rightarrow> 'a list" where
  "put p bs buf = take p buf @ bs @ drop (p + length bs) buf"

definition sub :: "nat \<Rightarrow> nat \<Rightarrow> 'a list \<Rightarrow> 'a list" where
  "sub p n buf = take n (drop p buf)"

lemma length_put [codec_simps]: "p + length bs \<le> length buf \<Longrightarrow> length (put p bs buf) = length buf"
  by (simp add: put_def)

lemma length_sub [codec_simps]: "p + n \<le> length buf \<Longrightarrow> length (sub p n buf) = n"
  by (simp add: sub_def)

text \<open>A block written over a block of the same length that starts at that offset.\<close>

lemma put_block:
  assumes "p = length xs" and "length ys = length bs"
  shows "put p bs (xs @ ys @ zs) = xs @ bs @ zs"
  using assms by (simp add: put_def)

lemma sub_block:
  assumes "p = length xs" and "length ys = n"
  shows "sub p n (xs @ ys @ zs) = ys"
  using assms by (simp add: sub_def)

lemma put_prefix:
  assumes "length xs = length bs"
  shows "put 0 bs (xs @ zs) = bs @ zs"
  using assms by (simp add: put_def)

text \<open>
  A fixed layout is a list of blocks followed by the rest of the buffer. Overwriting the
  \<open>i\<close>-th block updates the list of blocks, and reading at its offset starts with the block.
\<close>

definition layout :: "'a list list \<Rightarrow> 'a list \<Rightarrow> 'a list" where
  "layout fs rest = concat fs @ rest"

definition offset_of :: "nat \<Rightarrow> 'a list list \<Rightarrow> nat" where
  "offset_of i fs = sum_list (map length (take i fs))"

lemma concat_split_nth:
  assumes "i < length fs"
  shows "concat fs = concat (take i fs) @ fs ! i @ concat (drop (Suc i) fs)"
proof -
  from assms have "fs = take i fs @ fs ! i # drop (Suc i) fs"
    by (simp add: id_take_nth_drop)
  then show ?thesis by (metis concat.simps(2) concat_append)
qed

lemma length_concat_take: "length (concat (take i fs)) = offset_of i fs"
  by (simp add: offset_of_def length_concat)

lemma put_layout:
  assumes "i < length fs" and "p = offset_of i fs" and "length bs = length (fs ! i)"
  shows "put p bs (layout fs rest) = layout (fs[i := bs]) rest"
  using assms
  by (simp add: layout_def put_def upd_conv_take_nth_drop
      concat_split_nth [OF assms(1)] length_concat_take)

lemma drop_layout:
  assumes "i < length fs" and "p = offset_of i fs"
  shows "drop p (layout fs rest) = fs ! i @ concat (drop (Suc i) fs) @ rest"
  using assms
  by (simp add: layout_def concat_split_nth [OF assms(1)] length_concat_take)

lemma length_layout: "length (layout fs rest) = sum_list (map length fs) + length rest"
  by (simp add: layout_def length_concat)

text \<open>Consecutive slices of a buffer, and the part of the buffer they cover.\<close>

fun slices :: "nat \<Rightarrow> nat list \<Rightarrow> 'a list \<Rightarrow> 'a list list" where
  "slices p [] buf = []"
| "slices p (n # ns) buf = sub p n buf # slices (p + n) ns buf"

lemma concat_slices: "concat (slices p ns buf) = take (sum_list ns) (drop p buf)"
  by (induction ns arbitrary: p) (simp_all add: sub_def take_add add.commute)

lemma sub_1: "p < length buf \<Longrightarrow> sub p 1 buf = [buf ! p]"
  by (simp add: sub_def take_Suc hd_drop_conv_nth)

lemma put_append:
  assumes "length xs + length ys \<le> length buf"
  shows "put (length xs) ys (xs @ drop (length xs) buf) = (xs @ ys) @ drop (length (xs @ ys)) buf"
  using assms by (simp add: put_def add.commute)

section \<open>Running a state-monad program\<close>

text \<open>The final state of a program, its result forgotten.\<close>

definition exec :: "('s, 'a) state \<Rightarrow> 's \<Rightarrow> 's" where
  "exec m s = snd (run_state m s)"

lemma exec_bind [run_simps]:
  "exec (State_Monad.bind m f) s = exec (f (fst (run_state m s))) (exec m s)"
  by (simp add: exec_def split: prod.splits)

lemma exec_return [run_simps]: "exec (State_Monad.return x) s = s"
  by (simp add: exec_def)

lemma exec_if [run_simps]: "exec (if b then m else n) s = (if b then exec m s else exec n s)"
  by simp

lemma run_bind [run_simps]:
  "run_state (State_Monad.bind m f) s = run_state (f (fst (run_state m s))) (exec m s)"
  by (simp add: exec_def split: prod.splits)

declare State_Monad.run_state_bind [simp del]

end
