(* ===== verification/Dhcp_Defs.thy ===== *)
theory Dhcp_Defs
  imports Dhcp_Prelude
begin

text \<open>
  The data of the public header \<open>include/dmdhcp.h\<close> and of \<open>src/dmdhcp_internal.h\<close>:
  protocol constants, the enumerations, and the structs that do not refer to the
  platform. Fields that several structs share carry a prefix (\<open>msg_\<close>, \<open>opt_\<close>, \<open>info_\<close>).

  \<^item> An IPv4 address is its four bytes in wire order. \<open>dmroute_addr_t\<close> pairs them with the
    address family; an initializer that names the family only leaves the bytes zero
    (\<open>addr_none\<close>).
  \<^item> A pointer that may be NULL is an option; \<open>opt_data\<close> is the bytes from the pointer to
    the end of the object it points into, so it may be longer than \<open>opt_length\<close>.
\<close>

section \<open>Protocol constants\<close>

definition DMDHCP_SERVER_PORT :: u16 where "DMDHCP_SERVER_PORT = 67"
definition DMDHCP_CLIENT_PORT :: u16 where "DMDHCP_CLIENT_PORT = 68"
definition DMDHCP_MAGIC_COOKIE :: u32 where "DMDHCP_MAGIC_COOKIE = 0x63825363"
definition DMDHCP_FIXED_HEADER_LEN :: nat where "DMDHCP_FIXED_HEADER_LEN = 236"
definition DMDHCP_CHADDR_LEN :: nat where "DMDHCP_CHADDR_LEN = 16"
definition DMDHCP_FLAG_BROADCAST :: u16 where "DMDHCP_FLAG_BROADCAST = 0x8000"

definition DMDHCP_OPT_PAD :: u8 where "DMDHCP_OPT_PAD = 0"
definition DMDHCP_OPT_SUBNET_MASK :: u8 where "DMDHCP_OPT_SUBNET_MASK = 1"
definition DMDHCP_OPT_ROUTER :: u8 where "DMDHCP_OPT_ROUTER = 3"
definition DMDHCP_OPT_DNS_SERVER :: u8 where "DMDHCP_OPT_DNS_SERVER = 6"
definition DMDHCP_OPT_HOSTNAME :: u8 where "DMDHCP_OPT_HOSTNAME = 12"
definition DMDHCP_OPT_REQUESTED_IP :: u8 where "DMDHCP_OPT_REQUESTED_IP = 50"
definition DMDHCP_OPT_LEASE_TIME :: u8 where "DMDHCP_OPT_LEASE_TIME = 51"
definition DMDHCP_OPT_MSG_TYPE :: u8 where "DMDHCP_OPT_MSG_TYPE = 53"
definition DMDHCP_OPT_SERVER_ID :: u8 where "DMDHCP_OPT_SERVER_ID = 54"
definition DMDHCP_OPT_RENEWAL_T1 :: u8 where "DMDHCP_OPT_RENEWAL_T1 = 58"
definition DMDHCP_OPT_REBINDING_T2 :: u8 where "DMDHCP_OPT_REBINDING_T2 = 59"
definition DMDHCP_OPT_NTP_SERVER :: u8 where "DMDHCP_OPT_NTP_SERVER = 42"
definition DMDHCP_OPT_END :: u8 where "DMDHCP_OPT_END = 255"

definition DMDHCP_LEASE_MAGIC :: u32 where "DMDHCP_LEASE_MAGIC = 0x44484350"
definition DMDHCP_RETRANSMIT_INITIAL_MS :: u32 where "DMDHCP_RETRANSMIT_INITIAL_MS = 4000"
definition DMDHCP_RETRANSMIT_MAX_MS :: u32 where "DMDHCP_RETRANSMIT_MAX_MS = 64000"
definition DMDHCP_MAX_REQUEST_RETRANSMITS :: u32 where "DMDHCP_MAX_REQUEST_RETRANSMITS = 4"
definition DMDHCP_ARP_PROBE_TIMEOUT_MS :: u32 where "DMDHCP_ARP_PROBE_TIMEOUT_MS = 1000"
definition DMDHCP_PROBE_HANDOFF_MS :: u32 where "DMDHCP_PROBE_HANDOFF_MS = 1"
definition DMDHCP_MAX_DECLINE_RETRIES :: u32 where "DMDHCP_MAX_DECLINE_RETRIES = 3"
definition DMDHCP_DECLINE_PAUSE_MS :: u32 where "DMDHCP_DECLINE_PAUSE_MS = 10000"
definition DMDHCP_DEFAULT_ARP_TIMEOUT_MS :: u32 where "DMDHCP_DEFAULT_ARP_TIMEOUT_MS = 1000"
definition DMDHCP_MAX_MESSAGE_LEN :: nat where "DMDHCP_MAX_MESSAGE_LEN = 576"

text \<open>The widths of an IPv4 and of a MAC address, from the platform's headers.\<close>

definition DMROUTE_IPV4_ADDR_LEN :: nat where "DMROUTE_IPV4_ADDR_LEN = 4"
definition DMNETIF_MAC_ADDR_LEN :: nat where "DMNETIF_MAC_ADDR_LEN = 6"

lemmas wire_consts =
  DMDHCP_FIXED_HEADER_LEN_def DMDHCP_CHADDR_LEN_def DMDHCP_MAX_MESSAGE_LEN_def
  DMROUTE_IPV4_ADDR_LEN_def DMNETIF_MAC_ADDR_LEN_def

lemmas opt_consts =
  DMDHCP_OPT_PAD_def DMDHCP_OPT_SUBNET_MASK_def DMDHCP_OPT_ROUTER_def
  DMDHCP_OPT_DNS_SERVER_def DMDHCP_OPT_HOSTNAME_def DMDHCP_OPT_REQUESTED_IP_def
  DMDHCP_OPT_LEASE_TIME_def DMDHCP_OPT_MSG_TYPE_def DMDHCP_OPT_SERVER_ID_def
  DMDHCP_OPT_RENEWAL_T1_def DMDHCP_OPT_REBINDING_T2_def DMDHCP_OPT_NTP_SERVER_def
  DMDHCP_OPT_END_def

lemmas time_consts =
  DMDHCP_RETRANSMIT_INITIAL_MS_def DMDHCP_RETRANSMIT_MAX_MS_def
  DMDHCP_MAX_REQUEST_RETRANSMITS_def DMDHCP_ARP_PROBE_TIMEOUT_MS_def
  DMDHCP_PROBE_HANDOFF_MS_def DMDHCP_MAX_DECLINE_RETRIES_def DMDHCP_DECLINE_PAUSE_MS_def
  DMDHCP_DEFAULT_ARP_TIMEOUT_MS_def

section \<open>Addresses\<close>

datatype dmroute_family = dmroute_family_none | dmroute_family_v4 | dmroute_family_v6

type_synonym ipv4 = "u8 \<times> u8 \<times> u8 \<times> u8"

record dmroute_addr_t =
  family :: dmroute_family
  v4 :: ipv4

definition addr_none :: dmroute_addr_t where
  "addr_none = \<lparr>family = dmroute_family_none, v4 = (0, 0, 0, 0)\<rparr>"

definition addr_v4 :: "ipv4 \<Rightarrow> dmroute_addr_t" where
  "addr_v4 ip = \<lparr>family = dmroute_family_v4, v4 = ip\<rparr>"

fun ipv4_bytes :: "ipv4 \<Rightarrow> u8 list" where
  "ipv4_bytes (a, b, c, d) = [a, b, c, d]"

definition ipv4_of_bytes :: "u8 list \<Rightarrow> ipv4" where
  "ipv4_of_bytes bs = (bs ! 0, bs ! 1, bs ! 2, bs ! 3)"

datatype dmnetif_mac_addr_t = Mac u8 u8 u8 u8 u8 u8

fun mac_bytes :: "dmnetif_mac_addr_t \<Rightarrow> u8 list" where
  "mac_bytes (Mac a b c d e f) = [a, b, c, d, e, f]"

lemma length_ipv4_bytes [simp]: "length (ipv4_bytes ip) = 4"
  by (cases ip) simp

lemma length_mac_bytes [simp]: "length (mac_bytes m) = 6"
  by (cases m) simp

lemma ipv4_of_bytes_bytes [simp]: "ipv4_of_bytes (ipv4_bytes ip) = ip"
  by (cases ip) (simp add: ipv4_of_bytes_def)

lemma ipv4_bytes_of_bytes: "length bs = 4 \<Longrightarrow> ipv4_bytes (ipv4_of_bytes bs) = bs"
  by (auto simp: ipv4_of_bytes_def length_Suc_conv numeral_eq_Suc)

lemma family_addr [simp]:
  "family (addr_v4 ip) = dmroute_family_v4" "family addr_none = dmroute_family_none"
  "v4 (addr_v4 ip) = ip" "v4 addr_none = (0, 0, 0, 0)"
  by (simp_all add: addr_v4_def addr_none_def)

section \<open>Messages and options\<close>

datatype dmdhcp_op_t = dmdhcp_op_bootrequest | dmdhcp_op_bootreply

fun op_byte :: "dmdhcp_op_t \<Rightarrow> u8" where
  "op_byte dmdhcp_op_bootrequest = 1"
| "op_byte dmdhcp_op_bootreply = 2"

record dmdhcp_message_t =
  msg_op :: dmdhcp_op_t
  msg_htype :: u8
  msg_hlen :: u8
  msg_hops :: u8
  msg_xid :: u32
  msg_secs :: u16
  msg_flags :: u16
  msg_ciaddr :: dmroute_addr_t
  msg_yiaddr :: dmroute_addr_t
  msg_siaddr :: dmroute_addr_t
  msg_giaddr :: dmroute_addr_t
  msg_chaddr :: "u8 list"

record dmdhcp_option_t =
  opt_code :: u8
  opt_length :: u8
  opt_data :: "u8 list option"

datatype dmdhcp_msg_type_t =
    dmdhcp_msg_discover | dmdhcp_msg_offer | dmdhcp_msg_request | dmdhcp_msg_decline
  | dmdhcp_msg_ack | dmdhcp_msg_nak | dmdhcp_msg_release | dmdhcp_msg_inform

fun msg_type_code :: "dmdhcp_msg_type_t \<Rightarrow> u8" where
  "msg_type_code dmdhcp_msg_discover = 1"
| "msg_type_code dmdhcp_msg_offer = 2"
| "msg_type_code dmdhcp_msg_request = 3"
| "msg_type_code dmdhcp_msg_decline = 4"
| "msg_type_code dmdhcp_msg_ack = 5"
| "msg_type_code dmdhcp_msg_nak = 6"
| "msg_type_code dmdhcp_msg_release = 7"
| "msg_type_code dmdhcp_msg_inform = 8"

lemma msg_type_code_inj [simp]: "msg_type_code a = msg_type_code b \<longleftrightarrow> a = b"
  by (cases a; cases b) simp_all

lemma op_byte_inj [simp]: "op_byte a = op_byte b \<longleftrightarrow> a = b"
  by (cases a; cases b) simp_all

section \<open>Lease state, callbacks, start options, lease snapshot\<close>

datatype dmdhcp_state_t =
    dmdhcp_state_init | dmdhcp_state_selecting | dmdhcp_state_checking_offer
  | dmdhcp_state_requesting | dmdhcp_state_checking_ack | dmdhcp_state_bound
  | dmdhcp_state_renewing | dmdhcp_state_rebinding | dmdhcp_state_init_reboot
  | dmdhcp_state_rebooting | dmdhcp_state_declining | dmdhcp_state_failed

text \<open>Function pointers and opaque user pointers are addresses.\<close>

type_synonym fn_ptr = nat
type_synonym void_ptr = "nat option"

record dmdhcp_callbacks_t =
  on_bound :: "fn_ptr option"
  on_expired_or_lost :: "fn_ptr option"
  on_error :: "fn_ptr option"

definition no_callbacks :: dmdhcp_callbacks_t where
  "no_callbacks = \<lparr>on_bound = None, on_expired_or_lost = None, on_error = None\<rparr>"

record dmdhcp_options_t =
  start_hostname :: "u8 list option"
  start_requested_ip :: dmroute_addr_t

record dmdhcp_lease_info_t =
  info_ip_address :: dmroute_addr_t
  info_netmask :: dmroute_addr_t
  info_gateway :: dmroute_addr_t
  info_server_id :: dmroute_addr_t
  info_lease_time_sec :: u32
  info_renewal_time_sec :: u32
  info_rebinding_time_sec :: u32

datatype dmdhcp_teardown_context_t =
    dmdhcp_teardown_context_normal
  | dmdhcp_teardown_context_retransmit_timer
  | dmdhcp_teardown_context_lease_timer

end
