(* ===== verification/Dhcp_Wire.thy ===== *)
theory Dhcp_Wire
  imports Dhcp_Defs
begin

text \<open>
  The fixed BOOTP header codec, \<open>src/dmdhcp_wire.c\<close>. A buffer is the list of its bytes and
  its capacity the list's length; \<open>None\<close> is the NULL pointer. Out-parameters that the code
  compares with NULL are flags (\<open>True\<close>: the pointer is not NULL). Building returns the buffer
  in every case, because a failing build has already overwritten part of it.
\<close>

section \<open>Definitions\<close>

definition u16_be :: "u16 \<Rightarrow> u8 list" where
  "u16_be v = [ucast (drop_bit 8 v), ucast (v AND 0xFF)]"

definition u32_be :: "u32 \<Rightarrow> u8 list" where
  "u32_be v = [ucast (drop_bit 24 v), ucast (drop_bit 16 v), ucast (drop_bit 8 v), ucast (v AND 0xFF)]"

definition write_u16_be :: "nat \<Rightarrow> u16 \<Rightarrow> u8 list \<Rightarrow> u8 list" where
  "write_u16_be p v buf = put p (u16_be v) buf"

definition write_u32_be :: "nat \<Rightarrow> u32 \<Rightarrow> u8 list \<Rightarrow> u8 list" where
  "write_u32_be p v buf = put p (u32_be v) buf"

definition read_u16_be :: "u8 list \<Rightarrow> u16" where
  "read_u16_be p = push_bit 8 (ucast (p ! 0)) OR ucast (p ! 1)"

definition read_u32_be :: "u8 list \<Rightarrow> u32" where
  "read_u32_be p = push_bit 24 (ucast (p ! 0)) OR push_bit 16 (ucast (p ! 1))
     OR push_bit 8 (ucast (p ! 2)) OR ucast (p ! 3)"

definition write_addr :: "nat \<Rightarrow> dmroute_addr_t \<Rightarrow> u8 list \<Rightarrow> (errno + unit) \<times> u8 list" where
  "write_addr p addr buf =
     (case family addr of
        dmroute_family_v4 \<Rightarrow> (Inr (), put p (ipv4_bytes (v4 addr)) buf)
      | dmroute_family_none \<Rightarrow> (Inr (), put p (replicate DMROUTE_IPV4_ADDR_LEN 0) buf)
      | dmroute_family_v6 \<Rightarrow> (Inl EINVAL, buf))"

definition read_addr :: "u8 list \<Rightarrow> dmroute_addr_t" where
  "read_addr p = addr_v4 (ipv4_of_bytes p)"

text \<open>\<open>if (result == 0) result = write_addr(...)\<close>: a write that an earlier failure skips.\<close>

definition then_write_addr ::
  "nat \<Rightarrow> dmroute_addr_t \<Rightarrow> (errno + unit) \<times> u8 list \<Rightarrow> (errno + unit) \<times> u8 list" where
  "then_write_addr p addr rb =
     (case rb of (Inl e, buf) \<Rightarrow> (Inl e, buf) | (Inr _, buf) \<Rightarrow> write_addr p addr buf)"

definition dmdhcp_build_message ::
  "u8 list option \<Rightarrow> dmdhcp_message_t option \<Rightarrow> (errno + unit) \<times> u8 list option" where
  "dmdhcp_build_message buffer message =
     (case (buffer, message) of
        (Some buf, Some m) \<Rightarrow>
          if length buf < DMDHCP_FIXED_HEADER_LEN + 4 then (Inl EINVAL, Some buf)
          else
            (let buf = put 0 (replicate (DMDHCP_FIXED_HEADER_LEN + 4) 0) buf;
                 buf = put 0 [op_byte (msg_op m)] buf;
                 buf = put 1 [msg_htype m] buf;
                 buf = put 2 [msg_hlen m] buf;
                 buf = put 3 [msg_hops m] buf;
                 buf = write_u32_be 4 (msg_xid m) buf;
                 buf = write_u16_be 8 (msg_secs m) buf;
                 buf = write_u16_be 10 (msg_flags m) buf;
                 rb = write_addr 12 (msg_ciaddr m) buf;
                 rb = then_write_addr 16 (msg_yiaddr m) rb;
                 rb = then_write_addr 20 (msg_siaddr m) rb;
                 rb = then_write_addr 24 (msg_giaddr m) rb
             in case rb of
                  (Inl e, buf) \<Rightarrow> (Inl e, Some buf)
                | (Inr _, buf) \<Rightarrow>
                    (let buf = put 28 (take DMDHCP_CHADDR_LEN (msg_chaddr m)) buf;
                         buf = write_u32_be DMDHCP_FIXED_HEADER_LEN DMDHCP_MAGIC_COOKIE buf
                     in (Inr (), Some buf)))
      | _ \<Rightarrow> (Inl EINVAL, buffer))"

definition dmdhcp_parse_message ::
  "u8 list option \<Rightarrow> bool \<Rightarrow> bool \<Rightarrow> errno + dmdhcp_message_t \<times> nat" where
  "dmdhcp_parse_message buffer message options_offset =
     (case buffer of
        None \<Rightarrow> Inl EINVAL
      | Some buf \<Rightarrow>
          if \<not> message \<or> \<not> options_offset \<or> length buf < DMDHCP_FIXED_HEADER_LEN + 4 then Inl EINVAL
          else if read_u32_be (drop DMDHCP_FIXED_HEADER_LEN buf) \<noteq> DMDHCP_MAGIC_COOKIE then Inl EPROTO
          else if buf ! 0 \<noteq> op_byte dmdhcp_op_bootrequest \<and> buf ! 0 \<noteq> op_byte dmdhcp_op_bootreply
          then Inl EPROTO
          else Inr
            (\<lparr>msg_op = (if buf ! 0 = op_byte dmdhcp_op_bootrequest then dmdhcp_op_bootrequest
                        else dmdhcp_op_bootreply),
              msg_htype = buf ! 1, msg_hlen = buf ! 2, msg_hops = buf ! 3,
              msg_xid = read_u32_be (drop 4 buf),
              msg_secs = read_u16_be (drop 8 buf),
              msg_flags = read_u16_be (drop 10 buf),
              msg_ciaddr = read_addr (drop 12 buf),
              msg_yiaddr = read_addr (drop 16 buf),
              msg_siaddr = read_addr (drop 20 buf),
              msg_giaddr = read_addr (drop 24 buf),
              msg_chaddr = sub 28 DMDHCP_CHADDR_LEN buf\<rparr>,
             DMDHCP_FIXED_HEADER_LEN + 4))"

section \<open>Big-endian fields\<close>

lemma length_be [codec_simps]: "length (u16_be v) = 2" "length (u32_be w) = 4"
  by (simp_all add: u16_be_def u32_be_def)

lemma low_byte_mask: "(0xFF :: 'a::len word) = mask 8"
  by (simp add: mask_eq_exp_minus_1)

lemma bit_u8_ge: "8 \<le> n \<Longrightarrow> \<not> bit (b :: u8) n"
  by (auto dest: bit_imp_le_length)

lemma read_u32_be_append [simp]: "read_u32_be (u32_be v @ r) = v"
proof (rule bit_word_eqI)
  fix n :: nat
  assume "n < LENGTH(32)"
  then consider "n < 8" | "8 \<le> n" "n < 16" | "16 \<le> n" "n < 24" | "24 \<le> n" "n < 32"
    by fastforce
  then show "bit (read_u32_be (u32_be v @ r)) n = bit v n"
    unfolding read_u32_be_def u32_be_def low_byte_mask
    by cases (auto simp: bit_simps)
qed

lemma read_u16_be_append [simp]: "read_u16_be (u16_be v @ r) = v"
proof (rule bit_word_eqI)
  fix n :: nat
  assume "n < LENGTH(16)"
  then consider "n < 8" | "8 \<le> n" "n < 16"
    by fastforce
  then show "bit (read_u16_be (u16_be v @ r)) n = bit v n"
    unfolding read_u16_be_def u16_be_def low_byte_mask
    by cases (auto simp: bit_simps)
qed

lemma u32_be_read: "u32_be (read_u32_be (a # b # c # d # r)) = [a, b, c, d]"
  unfolding read_u32_be_def u32_be_def low_byte_mask
  by (auto intro!: bit_word_eqI simp: bit_simps bit_u8_ge)

lemma u16_be_read: "u16_be (read_u16_be (a # b # r)) = [a, b]"
  unfolding read_u16_be_def u16_be_def low_byte_mask
  by (auto intro!: bit_word_eqI simp: bit_simps bit_u8_ge)


section \<open>The header as a layout of fields\<close>

definition addr_field :: "dmroute_addr_t \<Rightarrow> u8 list" where
  "addr_field a = (if family a = dmroute_family_v4 then ipv4_bytes (v4 a) else [0, 0, 0, 0])"

definition header_fields :: "dmdhcp_message_t \<Rightarrow> u8 list list" where
  "header_fields m =
     [[op_byte (msg_op m)], [msg_htype m], [msg_hlen m], [msg_hops m],
      u32_be (msg_xid m), u16_be (msg_secs m), u16_be (msg_flags m),
      addr_field (msg_ciaddr m), addr_field (msg_yiaddr m),
      addr_field (msg_siaddr m), addr_field (msg_giaddr m),
      msg_chaddr m, replicate 192 0, u32_be DMDHCP_MAGIC_COOKIE]"

definition ipv4_message :: "dmdhcp_message_t \<Rightarrow> bool" where
  "ipv4_message m \<longleftrightarrow> family (msg_ciaddr m) \<noteq> dmroute_family_v6
     \<and> family (msg_yiaddr m) \<noteq> dmroute_family_v6
     \<and> family (msg_siaddr m) \<noteq> dmroute_family_v6
     \<and> family (msg_giaddr m) \<noteq> dmroute_family_v6"

lemma length_addr_field [codec_simps]: "length (addr_field a) = 4"
  by (simp add: addr_field_def)

lemma write_addr_ok:
  "family a \<noteq> dmroute_family_v6 \<Longrightarrow> write_addr p a buf = (Inr (), put p (addr_field a) buf)"
  by (cases "family a") (simp_all add: write_addr_def addr_field_def wire_consts numeral_eq_Suc)

lemma then_write_addr_ok:
  "family a \<noteq> dmroute_family_v6 \<Longrightarrow>
     then_write_addr p a (Inr (), buf) = (Inr (), put p (addr_field a) buf)"
  by (simp add: then_write_addr_def write_addr_ok)

lemma zero_header_layout:
  "put 0 (replicate 240 0) buf =
     layout [[0], [0], [0], [0], replicate 4 0, replicate 2 0, replicate 2 0, replicate 4 0,
       replicate 4 0, replicate 4 0, replicate 4 0, replicate 16 0, replicate 192 0, replicate 4 0]
       (drop 240 (buf :: u8 list))"
  by (simp add: put_def layout_def numeral_eq_Suc)

lemma build_message_layout:
  assumes "240 \<le> length buf" and "ipv4_message m" and "length (msg_chaddr m) = 16"
  shows "dmdhcp_build_message (Some buf) (Some m)
    = (Inr (), Some (layout (header_fields m) (drop 240 buf)))"
  using assms
  by (simp add: dmdhcp_build_message_def wire_consts zero_header_layout Let_def
      write_u32_be_def write_u16_be_def ipv4_message_def write_addr_ok then_write_addr_ok
      put_layout [of 0] put_layout [of 1] put_layout [of 2] put_layout [of 3] put_layout [of 4]
      put_layout [of 5] put_layout [of 6] put_layout [of 7] put_layout [of 8] put_layout [of 9]
      put_layout [of 10] put_layout [of 11] put_layout [of 13] offset_of_def codec_simps
      header_fields_def)

section \<open>Properties\<close>

text \<open>What the receiver sees of an address field: always IPv4, with zero bytes for none.\<close>

definition as_v4 :: "dmroute_addr_t \<Rightarrow> dmroute_addr_t" where
  "as_v4 a = addr_v4 (if family a = dmroute_family_v4 then v4 a else (0, 0, 0, 0))"

definition wire_view :: "dmdhcp_message_t \<Rightarrow> dmdhcp_message_t" where
  "wire_view m = m\<lparr>msg_ciaddr := as_v4 (msg_ciaddr m), msg_yiaddr := as_v4 (msg_yiaddr m),
     msg_siaddr := as_v4 (msg_siaddr m), msg_giaddr := as_v4 (msg_giaddr m)\<rparr>"

lemma ipv4_of_bytes_append: "ipv4_of_bytes (ipv4_bytes ip @ r) = ip"
  by (cases ip) (simp add: ipv4_of_bytes_def)

lemma read_addr_field: "read_addr (addr_field a @ r) = as_v4 a"
  by (simp add: read_addr_def addr_field_def as_v4_def ipv4_of_bytes_append)
    (simp add: ipv4_of_bytes_def)

lemma parse_header_layout:
  assumes "length (msg_chaddr m) = 16"
  shows "dmdhcp_parse_message (Some (layout (header_fields m) rest)) True True
    = Inr (wire_view m, 240)"
proof -
  let ?b = "layout (header_fields m) rest"
  note dl = drop_layout [of _ "header_fields m" _ rest]
  have len: "length ?b = 240 + length rest"
    using assms by (simp add: length_layout header_fields_def codec_simps)
  have nth: "?b ! 0 = op_byte (msg_op m)" "?b ! 1 = msg_htype m" "?b ! 2 = msg_hlen m"
      "?b ! 3 = msg_hops m"
    by (simp_all add: layout_def header_fields_def)
  have rd: "read_u32_be (drop 236 ?b) = DMDHCP_MAGIC_COOKIE"
      "read_u32_be (drop 4 ?b) = msg_xid m" "read_u16_be (drop 8 ?b) = msg_secs m"
      "read_u16_be (drop 10 ?b) = msg_flags m" "read_addr (drop 12 ?b) = as_v4 (msg_ciaddr m)"
      "read_addr (drop 16 ?b) = as_v4 (msg_yiaddr m)"
      "read_addr (drop 20 ?b) = as_v4 (msg_siaddr m)"
      "read_addr (drop 24 ?b) = as_v4 (msg_giaddr m)"
    using assms dl [of 13 236] dl [of 4 4] dl [of 5 8] dl [of 6 10] dl [of 7 12] dl [of 8 16]
      dl [of 9 20] dl [of 10 24]
    by (simp_all add: header_fields_def offset_of_def codec_simps read_addr_field)
  have ch: "sub 28 16 ?b = msg_chaddr m"
    using assms dl [of 11 28] by (simp add: sub_def header_fields_def offset_of_def codec_simps)
  show ?thesis
    using len nth rd ch
    by (cases "msg_op m") (simp_all add: dmdhcp_parse_message_def wire_consts wire_view_def)
qed

text \<open>
  C19. A header built into a buffer of at least 240 bytes parses back to the same
  message, with every address field seen as IPv4 and the options area at offset 240;
  the bytes behind the header and the capacity are untouched.
\<close>

theorem build_parse_roundtrip:
  assumes "240 \<le> length buf" and "ipv4_message m" and "length (msg_chaddr m) = 16"
  shows "\<exists>b. dmdhcp_build_message (Some buf) (Some m) = (Inr (), Some b)
     \<and> dmdhcp_parse_message (Some b) True True = Inr (wire_view m, 240)
     \<and> length b = length buf \<and> drop 240 b = drop 240 buf"
  using build_message_layout [OF assms] parse_header_layout [OF assms(3)] assms(1,3)
  by (simp add: length_layout header_fields_def codec_simps layout_def)

definition sample_message :: dmdhcp_message_t where
  "sample_message = \<lparr>msg_op = dmdhcp_op_bootreply, msg_htype = 1, msg_hlen = 6, msg_hops = 0,
     msg_xid = 0xAABBCCDD, msg_secs = 12, msg_flags = DMDHCP_FLAG_BROADCAST,
     msg_ciaddr = addr_none, msg_yiaddr = addr_v4 (192, 168, 1, 42),
     msg_siaddr = addr_none, msg_giaddr = addr_none,
     msg_chaddr = [2, 0, 0, 0, 0, 1] @ replicate 10 0\<rparr>"

lemma sample_message_ok:
  "ipv4_message sample_message" "length (msg_chaddr sample_message) = 16"
  by (simp_all add: sample_message_def ipv4_message_def)

theorem build_parse_roundtrip_witness:
  "\<exists>b. dmdhcp_build_message (Some (replicate 300 7)) (Some sample_message) = (Inr (), Some b)
     \<and> dmdhcp_parse_message (Some b) True True = Inr (wire_view sample_message, 240)
     \<and> length b = 300 \<and> drop 240 b = replicate 60 7"
  using build_parse_roundtrip [of "replicate 300 7" sample_message] sample_message_ok
  by simp

lemma sub_drop: "sub 0 n (drop p b) = sub p n b"
  by (simp add: sub_def)

lemma u32_be_read_take: "4 \<le> length p \<Longrightarrow> u32_be (read_u32_be p) = sub 0 4 p"
  by (auto simp: numeral_eq_Suc Suc_le_length_iff u32_be_read sub_def)

lemma u16_be_read_take: "2 \<le> length p \<Longrightarrow> u16_be (read_u16_be p) = sub 0 2 p"
  by (auto simp: numeral_eq_Suc Suc_le_length_iff u16_be_read sub_def)

lemma addr_field_read_take: "4 \<le> length p \<Longrightarrow> addr_field (read_addr p) = sub 0 4 p"
  by (auto simp: numeral_eq_Suc Suc_le_length_iff addr_field_def read_addr_def ipv4_of_bytes_def
      sub_def)

lemma parse_fields:
  assumes "dmdhcp_parse_message (Some b) True True = Inr (m, off)"
  shows "240 \<le> length b" "off = 240" "ipv4_message m" "length (msg_chaddr m) = 16"
    "header_fields m = slices 0 [1, 1, 1, 1, 4, 2, 2, 4, 4, 4, 4, 16] b
       @ [replicate 192 0, sub 236 4 b]"
proof -
  show len: "240 \<le> length b" and "off = 240"
    using assms by (auto simp: dmdhcp_parse_message_def wire_consts split: if_splits)
  show "ipv4_message m" and "length (msg_chaddr m) = 16"
    using assms len
    by (auto simp: dmdhcp_parse_message_def wire_consts ipv4_message_def read_addr_def sub_def
        split: if_splits)
  have "u32_be DMDHCP_MAGIC_COOKIE = sub 236 4 b"
    using assms len u32_be_read_take [of "drop 236 b"]
    by (auto simp: dmdhcp_parse_message_def wire_consts sub_def split: if_splits)
  moreover have "b \<noteq> []"
    using len by auto
  ultimately show "header_fields m = slices 0 [1, 1, 1, 1, 4, 2, 2, 4, 4, 4, 4, 16] b
       @ [replicate 192 0, sub 236 4 b]"
    using assms len
    by (auto simp: dmdhcp_parse_message_def wire_consts header_fields_def sub_1
        u32_be_read_take u16_be_read_take addr_field_read_take sub_drop
        simp del: One_nat_def split: if_splits)
qed

text \<open>
  C20. Building a message that was parsed from a buffer reproduces the buffer, except that
  the 192 bytes of the sname and file fields become zero: the codec loses nothing else.
\<close>

theorem parse_build_roundtrip:
  assumes "dmdhcp_parse_message (Some b) True True = Inr (m, off)"
  shows "dmdhcp_build_message (Some b) (Some m)
    = (Inr (), Some (take 44 b @ replicate 192 0 @ drop 236 b))"
proof -
  note f = parse_fields [OF assms]
  have "drop 4 (drop 236 b) = drop 240 b"
    by simp
  then have "drop 236 b = sub 236 4 b @ drop 240 b"
    unfolding sub_def by (metis append_take_drop_id)
  then have "layout (header_fields m) (drop 240 b) = take 44 b @ replicate 192 0 @ drop 236 b"
    by (simp add: layout_def f(5) concat_slices del: slices.simps)
  with build_message_layout [OF f(1,3,4)] show ?thesis by simp
qed


theorem parse_build_roundtrip_witness:
  "\<exists>b. dmdhcp_parse_message (Some b) True True = Inr (wire_view sample_message, 240)
     \<and> dmdhcp_build_message (Some b) (Some (wire_view sample_message))
        = (Inr (), Some (take 44 b @ replicate 192 0 @ drop 236 b))"
  using parse_build_roundtrip [OF parse_header_layout [OF sample_message_ok(2), of "[7]"]]
    parse_header_layout [OF sample_message_ok(2), of "[7]"]
  by blast

lemma fst_write_addr [simp]:
  "fst (write_addr p a buf) = (if family a = dmroute_family_v6 then Inl EINVAL else Inr ())"
  by (cases "family a") (simp_all add: write_addr_def)

lemma fst_then_write_addr [simp]:
  "fst (then_write_addr p a rb)
     = (if isl (fst rb) then fst rb else if family a = dmroute_family_v6 then Inl EINVAL else Inr ())"
  by (auto simp: then_write_addr_def split: prod.splits sum.splits)

text \<open>
  C31. \<open>dmdhcp_build_message()\<close> succeeds exactly on a non-NULL buffer of at least 240 bytes and
  a non-NULL message whose four address fields are none or IPv4; every other call returns
  -EINVAL.
\<close>

theorem build_message_status:
  "fst (dmdhcp_build_message buffer message) =
     (case (buffer, message) of
        (Some buf, Some m) \<Rightarrow>
          if 240 \<le> length buf \<and> ipv4_message m then Inr () else Inl EINVAL
      | _ \<Rightarrow> Inl EINVAL)"
proof -
  have *: "fst (case rb of (Inl e, buf) \<Rightarrow> (Inl e, f buf) | (Inr u, buf) \<Rightarrow> (Inr (), g buf))
      = fst rb" for rb :: "(errno + unit) \<times> u8 list" and f g :: "u8 list \<Rightarrow> u8 list option"
    by (auto split: prod.splits sum.splits)
  show ?thesis
    unfolding dmdhcp_build_message_def Let_def
    by (auto simp: * wire_consts ipv4_message_def split: option.splits)
qed

text \<open>
  C32. \<open>dmdhcp_parse_message()\<close> accepts a buffer exactly when it holds at least 240 bytes, the
  bytes 63 82 53 63 (hex) at offset 236, and 1 or 2 in its first byte.
\<close>

theorem parse_message_accepts:
  "(\<exists>m off. dmdhcp_parse_message (Some b) True True = Inr (m, off)) \<longleftrightarrow>
     240 \<le> length b \<and> sub 236 4 b = [0x63, 0x82, 0x53, 0x63] \<and> b ! 0 \<in> {1, 2}"
proof -
  have cookie: "u32_be DMDHCP_MAGIC_COOKIE = [0x63, 0x82, 0x53, 0x63]"
    by (simp add: u32_be_def DMDHCP_MAGIC_COOKIE_def)
  have "read_u32_be (drop 236 b) = DMDHCP_MAGIC_COOKIE \<longleftrightarrow> sub 236 4 b = u32_be DMDHCP_MAGIC_COOKIE"
    if "240 \<le> length b"
  proof
    assume "read_u32_be (drop 236 b) = DMDHCP_MAGIC_COOKIE"
    with that u32_be_read_take [of "drop 236 b"]
    show "sub 236 4 b = u32_be DMDHCP_MAGIC_COOKIE" by (simp add: sub_drop)
  next
    assume *: "sub 236 4 b = u32_be DMDHCP_MAGIC_COOKIE"
    have "drop 236 b = sub 236 4 b @ drop 4 (drop 236 b)"
      unfolding sub_def by (metis append_take_drop_id)
    with * show "read_u32_be (drop 236 b) = DMDHCP_MAGIC_COOKIE"
      by (metis read_u32_be_append)
  qed
  then show ?thesis
    by (auto simp: dmdhcp_parse_message_def wire_consts cookie)
qed

end
