(* ===== verification/Dhcp_Options.thy ===== *)
theory Dhcp_Options
  imports Dhcp_Wire
begin

text \<open>
  The RFC 2132 options codec, \<open>src/dmdhcp_options.c\<close>. The loops are recursive functions on
  the position, as in the source. The abstract view is \<open>tlv_decode\<close>: the list of
  (code, data) entries of an options area and whether the area ends in the middle of an
  entry; \<open>dmdhcp_options_find()\<close> is a lookup in that list.
\<close>

section \<open>Definitions\<close>

fun options_write_loop ::
  "dmdhcp_option_t list \<Rightarrow> nat \<Rightarrow> u8 list \<Rightarrow> (errno + nat) \<times> u8 list" where
  "options_write_loop [] pos buffer = (Inr pos, buffer)"
| "options_write_loop (opt # opts) pos buffer =
     (if opt_data opt = None \<and> opt_length opt > 0 then (Inl EINVAL, buffer)
      else if pos + 2 + unat (opt_length opt) > length buffer then (Inl ENOSPC, buffer)
      else
        (let buffer = put pos [opt_code opt] buffer;
             buffer = put (pos + 1) [opt_length opt] buffer
         in if opt_length opt > 0
            then options_write_loop opts (pos + 2 + unat (opt_length opt))
                   (put (pos + 2) (take (unat (opt_length opt)) (the (opt_data opt))) buffer)
            else options_write_loop opts (pos + 2) buffer))"

definition dmdhcp_options_write ::
  "u8 list option \<Rightarrow> dmdhcp_option_t list option \<Rightarrow> nat \<Rightarrow> bool \<Rightarrow> (errno + nat) \<times> u8 list option" where
  "dmdhcp_options_write buffer options option_count out_len =
     (case buffer of
        None \<Rightarrow> (Inl EINVAL, None)
      | Some buf \<Rightarrow>
          if \<not> out_len \<or> (options = None \<and> option_count > 0) then (Inl EINVAL, Some buf)
          else
            (case options_write_loop
                    (case options of None \<Rightarrow> [] | Some os \<Rightarrow> take option_count os) 0 buf of
               (Inl e, buf) \<Rightarrow> (Inl e, Some buf)
             | (Inr pos, buf) \<Rightarrow>
                 if pos + 1 > length buf then (Inl ENOSPC, Some buf)
                 else (Inr (pos + 1), Some (put pos [DMDHCP_OPT_END] buf))))"

function options_find_loop :: "u8 list \<Rightarrow> u8 \<Rightarrow> nat \<Rightarrow> errno + dmdhcp_option_t" where
  "options_find_loop options code pos =
     (if pos < length options then
        (let entry_code = options ! pos in
         if entry_code = DMDHCP_OPT_PAD then options_find_loop options code (pos + 1)
         else if entry_code = DMDHCP_OPT_END then Inl ENOENT
         else if pos + 1 \<ge> length options then Inl EPROTO
         else
           (let entry_len = options ! (pos + 1) in
            if pos + 2 + unat entry_len > length options then Inl EPROTO
            else if entry_code = code
            then Inr \<lparr>opt_code = entry_code, opt_length = entry_len,
                      opt_data = Some (drop (pos + 2) options)\<rparr>
            else options_find_loop options code (pos + 2 + unat entry_len)))
      else Inl ENOENT)"
  by pat_completeness auto
termination
  by (relation "measure (\<lambda>(options, code, pos). length options - pos)") auto

declare options_find_loop.simps [simp del]

definition dmdhcp_options_find :: "u8 list option \<Rightarrow> u8 \<Rightarrow> bool \<Rightarrow> errno + dmdhcp_option_t" where
  "dmdhcp_options_find options code out =
     (case options of
        None \<Rightarrow> Inl EINVAL
      | Some area \<Rightarrow> if \<not> out then Inl EINVAL else options_find_loop area code 0)"

text \<open>The file has a reader of big-endian words of its own.\<close>

definition option_read_u32_be :: "u8 list \<Rightarrow> u32" where
  "option_read_u32_be p = push_bit 24 (ucast (p ! 0)) OR push_bit 16 (ucast (p ! 1))
     OR push_bit 8 (ucast (p ! 2)) OR ucast (p ! 3)"

definition dmdhcp_option_get_u32 :: "dmdhcp_option_t option \<Rightarrow> bool \<Rightarrow> errno + u32" where
  "dmdhcp_option_get_u32 opt out =
     (case opt of
        None \<Rightarrow> Inl EINVAL
      | Some opt \<Rightarrow> if \<not> out \<or> opt_length opt \<noteq> 4 then Inl EINVAL
                    else Inr (option_read_u32_be (the (opt_data opt))))"

definition dmdhcp_option_get_addr :: "dmdhcp_option_t option \<Rightarrow> bool \<Rightarrow> errno + dmroute_addr_t" where
  "dmdhcp_option_get_addr opt out =
     (case opt of
        None \<Rightarrow> Inl EINVAL
      | Some opt \<Rightarrow> if \<not> out \<or> opt_length opt \<noteq> 4 then Inl EINVAL
                    else Inr (addr_v4 (ipv4_of_bytes (the (opt_data opt)))))"

definition dmdhcp_option_addr_count :: "dmdhcp_option_t option \<Rightarrow> nat" where
  "dmdhcp_option_addr_count opt =
     (case opt of None \<Rightarrow> 0 | Some opt \<Rightarrow> unat (opt_length opt) div DMROUTE_IPV4_ADDR_LEN)"

definition dmdhcp_option_get_addr_at ::
  "dmdhcp_option_t option \<Rightarrow> nat \<Rightarrow> bool \<Rightarrow> errno + dmroute_addr_t" where
  "dmdhcp_option_get_addr_at opt index out =
     (case opt of
        None \<Rightarrow> Inl EINVAL
      | Some opt \<Rightarrow>
          if \<not> out \<or> index \<ge> unat (opt_length opt) div DMROUTE_IPV4_ADDR_LEN then Inl EINVAL
          else Inr (addr_v4 (ipv4_of_bytes (drop (index * DMROUTE_IPV4_ADDR_LEN) (the (opt_data opt))))))"

section \<open>The abstract view of an options area\<close>

definition opt_bytes :: "dmdhcp_option_t \<Rightarrow> u8 list" where
  "opt_bytes opt = (case opt_data opt of None \<Rightarrow> [] | Some d \<Rightarrow> take (unat (opt_length opt)) d)"

text \<open>The data pointer covers the declared length; PAD and END are not entries.\<close>

definition wf_option :: "dmdhcp_option_t \<Rightarrow> bool" where
  "wf_option opt \<longleftrightarrow> length (opt_bytes opt) = unat (opt_length opt)
     \<and> opt_code opt \<noteq> DMDHCP_OPT_PAD \<and> opt_code opt \<noteq> DMDHCP_OPT_END"

fun tlv_decode :: "u8 list \<Rightarrow> (u8 \<times> u8 list) list \<times> bool" where
  "tlv_decode [] = ([], False)"
| "tlv_decode (b # bs) =
     (if b = DMDHCP_OPT_PAD then tlv_decode bs
      else if b = DMDHCP_OPT_END then ([], False)
      else case bs of
             [] \<Rightarrow> ([], True)
           | n # ds \<Rightarrow>
               if unat n > length ds then ([], True)
               else map_prod (Cons (b, take (unat n) ds)) id (tlv_decode (drop (unat n) ds)))"

definition tlv_encode :: "dmdhcp_option_t list \<Rightarrow> u8 list" where
  "tlv_encode opts = concat (map (\<lambda>opt. opt_code opt # opt_length opt # opt_bytes opt) opts)"

lemma tlv_encode_simps [simp]:
  "tlv_encode [] = []"
  "tlv_encode (opt # opts) = opt_code opt # opt_length opt # opt_bytes opt @ tlv_encode opts"
  by (simp_all add: tlv_encode_def)

section \<open>Finding an option\<close>

text \<open>The option a successful search returns lies inside the area it was found in.\<close>

lemma options_find_loop_bounds:
  "options_find_loop options code pos = Inr opt \<Longrightarrow>
     \<exists>p \<ge> pos. p + 2 + unat (opt_length opt) \<le> length options \<and> options ! p = code
       \<and> opt_code opt = code \<and> options ! (p + 1) = opt_length opt
       \<and> opt_data opt = Some (drop (p + 2) options)"
proof (induction options code pos rule: options_find_loop.induct)
  case (1 options code pos)
  note found = "1.prems" [unfolded options_find_loop.simps [of options code pos] Let_def]
  from found have pos: "pos < length options"
    by (simp split: if_splits)
  show ?case
  proof (cases "options ! pos = DMDHCP_OPT_PAD")
    case True
    with found pos have "options_find_loop options code (pos + 1) = Inr opt" by simp
    with "1.IH"(1) [OF pos refl True] show ?thesis
      by (meson add_leD1)
  next
    case False
    show ?thesis
    proof (cases "options ! pos = code")
      case True
      with False found pos show ?thesis
        by (intro exI [of _ pos]) (auto split: if_splits)
    next
      case neq: False
      let ?next = "pos + 2 + unat (options ! (pos + 1))"
      from False neq found pos have next_found: "options_find_loop options code ?next = Inr opt"
        and guards: "options ! pos \<noteq> DMDHCP_OPT_END" "\<not> length options \<le> pos + 1"
          "\<not> length options < ?next"
        by (auto split: if_splits)
      from "1.IH"(2) [OF pos refl False guards(1,2) refl guards(3) neq next_found]
      obtain p where "?next \<le> p" and p: "p + 2 + unat (opt_length opt) \<le> length options
          \<and> options ! p = code \<and> opt_code opt = code \<and> options ! (p + 1) = opt_length opt
          \<and> opt_data opt = Some (drop (p + 2) options)" by blast
      then have "pos \<le> p" by simp
      with p show ?thesis by blast
    qed
  qed
qed

lemma options_find_loop_decode:
  "map_sum id opt_bytes (options_find_loop options code pos) =
     (case map_of (fst (tlv_decode (drop pos options))) code of
        Some d \<Rightarrow> Inr d
      | None \<Rightarrow> Inl (if snd (tlv_decode (drop pos options)) then EPROTO else ENOENT))"
proof (induction options code pos rule: options_find_loop.induct)
  case (1 options code pos)
  show ?case
  proof (cases "pos < length options")
    case False
    then show ?thesis by (simp add: options_find_loop.simps)
  next
    case True
    then have d: "drop pos options = options ! pos # drop (pos + 1) options"
      by (simp add: Cons_nth_drop_Suc)
    consider "options ! pos = DMDHCP_OPT_PAD" | "options ! pos = DMDHCP_OPT_END"
      | "options ! pos \<noteq> DMDHCP_OPT_PAD" "options ! pos \<noteq> DMDHCP_OPT_END" "pos + 1 \<ge> length options"
      | "options ! pos \<noteq> DMDHCP_OPT_PAD" "options ! pos \<noteq> DMDHCP_OPT_END" "pos + 1 < length options"
      by linarith
    then show ?thesis
    proof cases
      case 1
      with True "1.IH"(1) d show ?thesis by (simp add: options_find_loop.simps [of options code pos])
    next
      case 2
      with True d show ?thesis
        by (simp add: options_find_loop.simps [of options code pos] opt_consts)
    next
      case 3
      with True d show ?thesis by (simp add: options_find_loop.simps [of options code pos])
    next
      case 4
      then have d2: "drop (pos + 1) options = options ! (pos + 1) # drop (pos + 2) options"
        by (simp add: Cons_nth_drop_Suc numeral_2_eq_2)
      show ?thesis
      proof (cases "pos + 2 + unat (options ! (pos + 1)) > length options")
        case True
        with 4 \<open>pos < length options\<close> d d2 show ?thesis
          by (simp add: options_find_loop.simps [of options code pos])
      next
        case False
        then have fits: "\<not> length (drop (pos + 2) options) < unat (options ! (pos + 1))"
          by simp
        have rest: "drop (unat (options ! (pos + 1))) (drop (pos + 2) options)
            = drop (pos + 2 + unat (options ! (pos + 1))) options"
          by (simp add: add.commute)
        have dec: "tlv_decode (drop pos options)
            = map_prod (Cons (options ! pos, take (unat (options ! (pos + 1))) (drop (pos + 2) options)))
                id (tlv_decode (drop (pos + 2 + unat (options ! (pos + 1))) options))"
          using 4 fits rest d d2 by (simp del: drop_drop length_drop)
        show ?thesis
          using 4 \<open>pos < length options\<close> False "1.IH"(2)
          by (simp add: dec options_find_loop.simps [of options code pos] opt_bytes_def del: drop_drop)
      qed
    qed
  qed
qed

text \<open>
  C17. \<open>dmdhcp_options_find()\<close> implements the abstract view: on any bytes, well-formed or not,
  it returns the data of the first entry with the code before END, else -EPROTO when the
  area is truncated, else -ENOENT.
\<close>

theorem options_find_refines:
  "map_sum id opt_bytes (dmdhcp_options_find (Some area) code True) =
     (case map_of (fst (tlv_decode area)) code of
        Some d \<Rightarrow> Inr d
      | None \<Rightarrow> Inl (if snd (tlv_decode area) then EPROTO else ENOENT))"
  using options_find_loop_decode [of area code 0] by (simp add: dmdhcp_options_find_def)

lemma options_find_wf:
  assumes "dmdhcp_options_find (Some area) code True = Inr opt"
    and "code \<noteq> DMDHCP_OPT_PAD" and "code \<noteq> DMDHCP_OPT_END"
  shows "wf_option opt" and "opt_code opt = code" and "opt_data opt \<noteq> None"
  using options_find_loop_bounds [of area code 0 opt] assms
  by (auto simp: dmdhcp_options_find_def wf_option_def opt_bytes_def)

section \<open>Writing options\<close>

lemma options_write_loop_step:
  assumes wf: "wf_option opt" and room: "length pre + 2 + unat (opt_length opt) \<le> length buf"
  defines "pre' \<equiv> pre @ opt_code opt # opt_length opt # opt_bytes opt"
  shows "options_write_loop (opt # opts) (length pre) (pre @ drop (length pre) buf)
    = options_write_loop opts (length pre') (pre' @ drop (length pre') buf)"
proof -
  from wf have len: "length (opt_bytes opt) = unat (opt_length opt)"
    by (simp add: wf_option_def)
  have b1: "put (length pre) [opt_code opt] (pre @ drop (length pre) buf)
      = (pre @ [opt_code opt]) @ drop (length pre + 1) buf"
    using put_append [of pre "[opt_code opt]" buf] room by simp
  have b2: "put (length pre + 1) [opt_length opt] ((pre @ [opt_code opt]) @ drop (length pre + 1) buf)
      = (pre @ [opt_code opt, opt_length opt]) @ drop (length pre + 2) buf"
    using put_append [of "pre @ [opt_code opt]" "[opt_length opt]" buf] room by simp
  have b3: "put (length pre + 2) (opt_bytes opt)
        ((pre @ [opt_code opt, opt_length opt]) @ drop (length pre + 2) buf)
      = pre' @ drop (length pre') buf"
    using put_append [of "pre @ [opt_code opt, opt_length opt]" "opt_bytes opt" buf] room len
    by (simp add: pre'_def)
  show ?thesis
  proof (cases "opt_data opt")
    case None
    with len have "opt_length opt = 0"
      by (simp add: opt_bytes_def unat_eq_zero)
    with None room b1 b2 show ?thesis by (simp add: opt_bytes_def pre'_def)
  next
    case (Some d)
    then have bytes: "take (unat (opt_length opt)) d = opt_bytes opt" by (simp add: opt_bytes_def)
    show ?thesis
    proof (cases "opt_length opt = 0")
      case True
      with len have "opt_bytes opt = []" by simp
      with Some True room b1 b2 show ?thesis by (simp add: pre'_def)
    next
      case False
      with Some room b1 b2 b3 bytes len show ?thesis by (simp add: word_gt_0 pre'_def)
    qed
  qed
qed

lemma options_write_loop_result:
  assumes "list_all wf_option opts" and "length pre \<le> length buf"
  shows "if length pre + length (tlv_encode opts) \<le> length buf
    then options_write_loop opts (length pre) (pre @ drop (length pre) buf)
      = (Inr (length pre + length (tlv_encode opts)),
         (pre @ tlv_encode opts) @ drop (length pre + length (tlv_encode opts)) buf)
    else fst (options_write_loop opts (length pre) (pre @ drop (length pre) buf)) = Inl ENOSPC"
  using assms
proof (induction opts arbitrary: pre)
  case Nil
  then show ?case by simp
next
  case (Cons opt opts)
  let ?pre = "pre @ opt_code opt # opt_length opt # opt_bytes opt"
  from Cons.prems(1) have wf: "wf_option opt" and wfs: "list_all wf_option opts" by simp_all
  from wf have len: "length (opt_bytes opt) = unat (opt_length opt)"
    by (simp add: wf_option_def)
  show ?case
  proof (cases "length pre + 2 + unat (opt_length opt) \<le> length buf")
    case True
    with len have "length ?pre \<le> length buf" by simp
    from Cons.IH [OF wfs this] options_write_loop_step [OF wf True, of opts]
    show ?thesis by (auto simp: add.assoc simp del: options_write_loop.simps split: if_splits)
  next
    case False
    moreover from wf have "\<not> (opt_data opt = None \<and> opt_length opt > 0)"
      by (auto simp: wf_option_def opt_bytes_def unat_eq_zero dest: sym)
    ultimately show ?thesis using len Cons.prems(2) by (simp add: not_le)
  qed
qed

lemma options_write_eq:
  assumes "list_all wf_option opts"
  shows "if length (tlv_encode opts) + 1 \<le> length buf
    then dmdhcp_options_write (Some buf) (Some opts) (length opts) True
      = (Inr (length (tlv_encode opts) + 1),
         Some (tlv_encode opts @ DMDHCP_OPT_END # drop (length (tlv_encode opts) + 1) buf))
    else fst (dmdhcp_options_write (Some buf) (Some opts) (length opts) True) = Inl ENOSPC"
proof -
  have end_byte: "put (length (tlv_encode opts)) [DMDHCP_OPT_END]
        (tlv_encode opts @ drop (length (tlv_encode opts)) buf)
      = tlv_encode opts @ DMDHCP_OPT_END # drop (length (tlv_encode opts) + 1) buf"
    if "length (tlv_encode opts) + 1 \<le> length buf"
    using put_append [of "tlv_encode opts" "[DMDHCP_OPT_END]" buf] that by simp
  show ?thesis
    using options_write_loop_result [OF assms, of "[]" buf] end_byte
    by (auto simp: dmdhcp_options_write_def split: prod.splits sum.splits if_splits)
qed

text \<open>
  C29. \<open>dmdhcp_options_write()\<close> on well-formed options: when the encoding and the END byte fit,
  it succeeds, reports exactly their size and leaves the rest of the buffer untouched;
  otherwise it returns -ENOSPC.
\<close>

theorem options_write_result:
  assumes "list_all wf_option opts"
  shows "if length (tlv_encode opts) + 1 \<le> length buf
    then dmdhcp_options_write (Some buf) (Some opts) (length opts) True
      = (Inr (length (tlv_encode opts) + 1),
         Some (tlv_encode opts @ DMDHCP_OPT_END # drop (length (tlv_encode opts) + 1) buf))
    else fst (dmdhcp_options_write (Some buf) (Some opts) (length opts) True) = Inl ENOSPC"
  by (rule options_write_eq [OF assms])

lemma tlv_decode_encode:
  assumes "list_all wf_option opts"
  shows "tlv_decode (tlv_encode opts @ DMDHCP_OPT_END # rest)
    = (map (\<lambda>opt. (opt_code opt, opt_bytes opt)) opts, False)"
  using assms
proof (induction opts)
  case Nil
  then show ?case by (simp add: opt_consts)
next
  case (Cons opt opts)
  then have "length (opt_bytes opt) = unat (opt_length opt)"
    and "opt_code opt \<noteq> DMDHCP_OPT_PAD" and "opt_code opt \<noteq> DMDHCP_OPT_END"
    by (auto simp: wf_option_def)
  with Cons show ?case by simp
qed

section \<open>The codec as an interface\<close>

text \<open>
  What the senders and the receiver rely on: whatever follows the written bytes, a search for
  a code sees exactly the options that were written, the first one with the code.
\<close>

locale option_codec =
  fixes encode :: "'o list \<Rightarrow> 'b list option"
    and lookup :: "'b list \<Rightarrow> 'c \<Rightarrow> 'd option"
    and key :: "'o \<Rightarrow> 'c"
    and val :: "'o \<Rightarrow> 'd"
    and ok :: "'o \<Rightarrow> bool"
  assumes lookup_encode:
    "list_all ok os \<Longrightarrow> encode os = Some bs \<Longrightarrow>
       lookup (bs @ junk) c = map_of (map (\<lambda>opt. (key opt, val opt)) os) c"
begin

lemma lookup_first:
  assumes "list_all ok (opt # os)" and "encode (opt # os) = Some bs"
  shows "lookup (bs @ junk) (key opt) = Some (val opt)"
  using lookup_encode [OF assms] by simp

lemma lookup_absent:
  assumes "list_all ok os" and "encode os = Some bs" and "c \<notin> key ` set os"
  shows "lookup (bs @ junk) c = None"
  using lookup_encode [OF assms(1,2)] assms(3) by (force simp: map_of_eq_None_iff)

lemma lookup_unique:
  assumes "list_all ok os" and "encode os = Some bs" and "distinct (map key os)" and "opt \<in> set os"
  shows "lookup (bs @ junk) (key opt) = Some (val opt)"
proof -
  have "(key opt, val opt) \<in> set (map (\<lambda>opt. (key opt, val opt)) os)"
    using assms(4) by simp
  moreover have "distinct (map fst (map (\<lambda>opt. (key opt, val opt)) os))"
    using assms(3) by (simp add: comp_def)
  ultimately show ?thesis
    using lookup_encode [OF assms(1,2)] by (simp add: map_of_eq_Some_iff)
qed

end

definition encoded_options :: "u8 list \<Rightarrow> dmdhcp_option_t list \<Rightarrow> u8 list option" where
  "encoded_options buf opts =
     (case dmdhcp_options_write (Some buf) (Some opts) (length opts) True of
        (Inr n, Some b) \<Rightarrow> Some (take n b)
      | _ \<Rightarrow> None)"

definition found_bytes :: "u8 list \<Rightarrow> u8 \<Rightarrow> u8 list option" where
  "found_bytes area code =
     (case dmdhcp_options_find (Some area) code True of Inr opt \<Rightarrow> Some (opt_bytes opt) | Inl _ \<Rightarrow> None)"

lemma found_bytes_decode: "found_bytes area code = map_of (fst (tlv_decode area)) code"
proof -
  have "found_bytes area code =
      (case map_sum id opt_bytes (options_find_loop area code 0) of Inr d \<Rightarrow> Some d | Inl _ \<Rightarrow> None)"
    by (simp add: found_bytes_def dmdhcp_options_find_def split: sum.splits)
  then show ?thesis
    by (simp add: options_find_loop_decode split: option.splits)
qed

lemma encoded_options_eq:
  assumes "list_all wf_option opts"
  shows "encoded_options buf opts =
    (if length (tlv_encode opts) + 1 \<le> length buf
     then Some (tlv_encode opts @ [DMDHCP_OPT_END]) else None)"
  using options_write_loop_result [OF assms, of "[]" buf]
    put_append [of "tlv_encode opts" "[DMDHCP_OPT_END]" buf]
  by (auto simp: encoded_options_def dmdhcp_options_write_def split: prod.splits sum.splits if_splits)

interpretation tlv: option_codec "encoded_options buf" found_bytes opt_code opt_bytes wf_option
  for buf
proof
  fix os bs junk c
  assume "list_all wf_option os" and "encoded_options buf os = Some bs"
  then show "found_bytes (bs @ junk) c = map_of (map (\<lambda>opt. (opt_code opt, opt_bytes opt)) os) c"
    by (auto simp: encoded_options_eq found_bytes_decode tlv_decode_encode split: if_splits)
qed

text \<open>
  C18. Options round trip: in any area that starts with what \<open>dmdhcp_options_write()\<close> wrote,
  \<open>dmdhcp_options_find()\<close> returns, for every code, the data of the first written option with
  that code, and finds no other code.
\<close>

theorem options_roundtrip:
  assumes "list_all wf_option opts"
    and "dmdhcp_options_write (Some buf) (Some opts) (length opts) True = (Inr n, Some b)"
  shows "found_bytes (take n b @ junk) code = map_of (map (\<lambda>opt. (opt_code opt, opt_bytes opt)) opts) code"
  using tlv.lookup_encode [OF assms(1), of buf "take n b"] assms(2)
  by (simp add: encoded_options_def)

section \<open>Decoding the data of an option\<close>

lemma opt_bytes_prefix:
  assumes "wf_option opt"
  shows "unat (opt_length opt) > 0 \<Longrightarrow> \<exists>d. opt_data opt = Some d \<and> unat (opt_length opt) \<le> length d"
  using assms by (auto simp: wf_option_def opt_bytes_def split: option.splits)

lemma option_read_u32_be_eq: "option_read_u32_be p = read_u32_be p"
  by (simp add: option_read_u32_be_def read_u32_be_def)

lemma option_accessors_eqs:
  assumes "wf_option opt"
  shows get_u32_eq: "dmdhcp_option_get_u32 (Some opt) True =
      (if length (opt_bytes opt) = 4 then Inr (read_u32_be (opt_bytes opt)) else Inl EINVAL)"
    and get_addr_eq: "dmdhcp_option_get_addr (Some opt) True =
      (if length (opt_bytes opt) = 4 then Inr (addr_v4 (ipv4_of_bytes (opt_bytes opt))) else Inl EINVAL)"
    and addr_count_eq: "dmdhcp_option_addr_count (Some opt) = length (opt_bytes opt) div 4"
    and get_addr_at_eq: "dmdhcp_option_get_addr_at (Some opt) i True =
      (if i < length (opt_bytes opt) div 4
       then Inr (addr_v4 (ipv4_of_bytes (sub (4 * i) 4 (opt_bytes opt)))) else Inl EINVAL)"
proof -
  have len: "length (opt_bytes opt) = unat (opt_length opt)"
    using assms by (simp add: wf_option_def)
  have four: "opt_length opt = 4 \<longleftrightarrow> unat (opt_length opt) = 4"
    by (simp add: word_unat_eq_iff)
  have same: "unat (opt_length opt) = 4 \<Longrightarrow> read_u32_be (the (opt_data opt)) = read_u32_be (opt_bytes opt)"
      "unat (opt_length opt) = 4 \<Longrightarrow> ipv4_of_bytes (the (opt_data opt)) = ipv4_of_bytes (opt_bytes opt)"
    using opt_bytes_prefix [OF assms] by (auto simp: opt_bytes_def read_u32_be_def ipv4_of_bytes_def)
  show "dmdhcp_option_get_u32 (Some opt) True =
      (if length (opt_bytes opt) = 4 then Inr (read_u32_be (opt_bytes opt)) else Inl EINVAL)"
    by (simp add: dmdhcp_option_get_u32_def option_read_u32_be_eq len four same)
  show "dmdhcp_option_get_addr (Some opt) True =
      (if length (opt_bytes opt) = 4 then Inr (addr_v4 (ipv4_of_bytes (opt_bytes opt))) else Inl EINVAL)"
    by (simp add: dmdhcp_option_get_addr_def len four same)
  show "dmdhcp_option_addr_count (Some opt) = length (opt_bytes opt) div 4"
    by (simp add: dmdhcp_option_addr_count_def len wire_consts)
  have "ipv4_of_bytes (drop (i * 4) (the (opt_data opt))) = ipv4_of_bytes (sub (4 * i) 4 (opt_bytes opt))"
    if i: "i < unat (opt_length opt) div 4"
  proof -
    from i have "4 * i + 3 < unat (opt_length opt)" by simp
    moreover from this obtain d where "opt_data opt = Some d" and "unat (opt_length opt) \<le> length d"
      using opt_bytes_prefix [OF assms] by (metis gr_zeroI not_less_zero)
    ultimately show ?thesis
      by (simp add: ipv4_of_bytes_def sub_def mult.commute opt_bytes_def)
  qed
  then show "dmdhcp_option_get_addr_at (Some opt) i True =
      (if i < length (opt_bytes opt) div 4
       then Inr (addr_v4 (ipv4_of_bytes (sub (4 * i) 4 (opt_bytes opt)))) else Inl EINVAL)"
    by (simp add: dmdhcp_option_get_addr_at_def len wire_consts)
qed

text \<open>
  C30. The accessors of a well-formed option read only its own bytes: a 4-byte option decodes
  to the big-endian value of its data, and the i-th address is the i-th group of four data
  bytes exactly for \<open>i < length div 4\<close>; every other call is -EINVAL.
\<close>

theorem option_accessors:
  assumes "wf_option opt"
  shows "dmdhcp_option_get_u32 (Some opt) True =
      (if length (opt_bytes opt) = 4 then Inr (read_u32_be (opt_bytes opt)) else Inl EINVAL)
    \<and> dmdhcp_option_get_addr (Some opt) True =
      (if length (opt_bytes opt) = 4 then Inr (addr_v4 (ipv4_of_bytes (opt_bytes opt))) else Inl EINVAL)
    \<and> dmdhcp_option_addr_count (Some opt) = length (opt_bytes opt) div 4
    \<and> (\<forall>i. dmdhcp_option_get_addr_at (Some opt) i True =
        (if i < length (opt_bytes opt) div 4
         then Inr (addr_v4 (ipv4_of_bytes (sub (4 * i) 4 (opt_bytes opt)))) else Inl EINVAL))"
  using option_accessors_eqs [OF assms] by blast

section \<open>Witnesses\<close>

definition sample_options :: "dmdhcp_option_t list" where
  "sample_options =
     [\<lparr>opt_code = DMDHCP_OPT_MSG_TYPE, opt_length = 1, opt_data = Some [2]\<rparr>,
      \<lparr>opt_code = DMDHCP_OPT_DNS_SERVER, opt_length = 8, opt_data = Some [8, 8, 8, 8, 1, 1, 1, 1]\<rparr>]"

lemma sample_options_wf: "list_all wf_option sample_options"
  by (simp add: sample_options_def wf_option_def opt_bytes_def opt_consts)

lemma sample_encode:
  "tlv_encode sample_options = [53, 1, 2, 6, 8, 8, 8, 8, 8, 1, 1, 1, 1]" "length sample_options = 2"
  by (simp_all add: sample_options_def opt_bytes_def opt_consts)

theorem options_write_result_witness:
  "dmdhcp_options_write (Some (replicate 16 0)) (Some sample_options) 2 True
     = (Inr 14, Some ([53, 1, 2, 6, 8, 8, 8, 8, 8, 1, 1, 1, 1, 255] @ replicate 2 0))
   \<and> fst (dmdhcp_options_write (Some (replicate 13 0)) (Some sample_options) 2 True) = Inl ENOSPC"
  using options_write_result [OF sample_options_wf, of "replicate 16 0"]
    options_write_result [OF sample_options_wf, of "replicate 13 0"]
  by (simp add: sample_encode opt_consts)

theorem options_roundtrip_witness:
  "found_bytes ([53, 1, 2, 6, 8, 8, 8, 8, 8, 1, 1, 1, 1, 255] @ [9]) DMDHCP_OPT_DNS_SERVER
     = Some [8, 8, 8, 8, 1, 1, 1, 1]"
proof -
  have w: "dmdhcp_options_write (Some (replicate 14 0)) (Some sample_options) (length sample_options) True
      = (Inr 14, Some [53, 1, 2, 6, 8, 8, 8, 8, 8, 1, 1, 1, 1, 255])"
    using options_write_result [OF sample_options_wf, of "replicate 14 0"]
    by (simp add: sample_encode opt_consts)
  from options_roundtrip [OF sample_options_wf w, of "[9]" DMDHCP_OPT_DNS_SERVER] show ?thesis
    by (simp add: sample_options_def opt_bytes_def opt_consts)
qed

theorem option_accessors_witness:
  "dmdhcp_option_get_addr_at (Some (sample_options ! 1)) 1 True = Inr (addr_v4 (1, 1, 1, 1))
   \<and> dmdhcp_option_addr_count (Some (sample_options ! 1)) = 2"
proof -
  have "wf_option (sample_options ! 1)"
    using sample_options_wf by (simp add: sample_options_def)
  from option_accessors [OF this] show ?thesis
    by (simp add: sample_options_def opt_bytes_def sub_def ipv4_of_bytes_def)
qed

end
