(* ===== verification/Dhcp_Platform.thy ===== *)
theory Dhcp_Platform
  imports Dhcp_Options
begin

text \<open>
  The platform that dmdhcp runs on (dmosi, dmlist, dmnetif, dmroute, dmudp, dmarp, the Dmod
  allocator, the application's callbacks) is not part of the repository. It is a parameter
  of the model:
  \<^item> every call that leaves the module is an \<open>event\<close>, and a run appends the events it
    causes, with their results, to a log;
  \<^item> the results come from an environment record \<open>env\<close>, whose fields may depend on the
    whole log of earlier events: any behaviour of the platform is some environment;
  \<^item> containers of dmlist are values of abstract types (\<open>'l\<close> for lists of addresses, \<open>'t\<close> for
    the table of lease pointers) with the operations of a \<open>dmlist_api\<close>; \<open>elems\<close> is the
    sequence an observer reads with \<open>dmlist_size\<close>/\<open>dmlist_get\<close>.
  What the code relies on is stated as the named hypotheses \<open>dmlist_ok\<close> and \<open>env_ok\<close>.

  The second part is \<open>struct dmdhcp_lease\<close> and the monad in which the code that works on one
  lease is written: a state with the lease pointer, the lease's fields and the log.
\<close>

section \<open>Handles and events\<close>

text \<open>An interface handle is a pointer that may be NULL; a valid lease pointer is not.\<close>

type_synonym dmnetif_iface_t = "nat option"
type_synonym lease_ptr = nat
type_synonym dmroute_route_t = nat

datatype mutex_id = Table_mutex | Lease_lock lease_ptr
datatype timer_id = Retransmit_timer lease_ptr | Lease_timer lease_ptr
datatype mem_kind = Addr_entry | Msg_buffer | Hostname
datatype list_kind = Lease_list | Dns_list lease_ptr | Ntp_list lease_ptr

type_synonym result = "errno + unit"

datatype event =
    Mutex_create mutex_id bool
  | Mutex_lock "mutex_id option"
  | Mutex_unlock "mutex_id option"
  | Mutex_destroy "mutex_id option"
  | Timer_create timer_id u32 bool
  | Timer_set_period "timer_id option" u32
  | Timer_start "timer_id option"
  | Timer_stop timer_id
  | Timer_destroy timer_id
  | Timer_fired timer_id
  | Rand32 u32
  | Malloc_lease "lease_ptr option"
  | Free_lease lease_ptr
  | Malloc mem_kind bool
  | Free mem_kind
  | Free_null
  | List_create list_kind bool
  | List_destroy list_kind
  | Get_mac_address dmnetif_iface_t
  | Get_name dmnetif_iface_t
  | Udp_send_on_iface dmnetif_iface_t dmroute_addr_t u16 u16 "u8 list" u32 result
  | Udp_send dmroute_addr_t u16 u16 "u8 list" u32 result
  | Udp_bind u16 result
  | Udp_unbind u16
  | Arp_resolve dmnetif_iface_t dmroute_addr_t u32 result
  | Set_netmask dmnetif_iface_t dmroute_addr_t result
  | Set_ip_address dmnetif_iface_t dmroute_addr_t result
  | Set_broadcast dmnetif_iface_t dmroute_addr_t result
  | Route_add dmroute_addr_t dmroute_addr_t dmroute_addr_t string nat "dmroute_route_t option"
  | Route_remove dmroute_route_t
  | Call_on_bound fn_ptr lease_ptr bool void_ptr
  | Call_on_expired fn_ptr lease_ptr void_ptr
  | Call_on_error fn_ptr lease_ptr errno void_ptr

type_synonym history = "event list"

section \<open>Containers\<close>

record ('e, 'c) dmlist_api =
  dmlist_push_back :: "'c \<Rightarrow> 'e \<Rightarrow> bool \<times> 'c"
  dmlist_pop_front :: "'c \<Rightarrow> 'e option \<times> 'c"
  dmlist_size :: "'c \<Rightarrow> nat"
  dmlist_get :: "'c \<Rightarrow> nat \<Rightarrow> 'e option"
  dmlist_find :: "'c \<Rightarrow> ('e \<Rightarrow> bool) \<Rightarrow> 'e option"
  dmlist_remove :: "'c \<Rightarrow> ('e \<Rightarrow> bool) \<Rightarrow> 'c"

definition elems :: "('e, 'c) dmlist_api \<Rightarrow> 'c \<Rightarrow> 'e list" where
  "elems a c = map (\<lambda>i. the (dmlist_get a c i)) [0..<dmlist_size a c]"

text \<open>
  The contract of a list container: reads are in range exactly below the size, an insertion
  appends or fails without effect, \<open>pop_front\<close> takes the first element (NULL on an empty
  list), \<open>find\<close> returns the first match, and \<open>remove\<close> deletes a match that is unique.
\<close>

definition dmlist_ok :: "('e, 'c) dmlist_api \<Rightarrow> bool" where
  "dmlist_ok a \<longleftrightarrow>
     (\<forall>c i. (dmlist_get a c i = None) = (dmlist_size a c \<le> i))
   \<and> (\<forall>c x. elems a (snd (dmlist_push_back a c x))
        = (if fst (dmlist_push_back a c x) then elems a c @ [x] else elems a c))
   \<and> (\<forall>c. fst (dmlist_pop_front a c) = (case elems a c of [] \<Rightarrow> None | x # _ \<Rightarrow> Some x))
   \<and> (\<forall>c. elems a (snd (dmlist_pop_front a c)) = tl (elems a c))
   \<and> (\<forall>c P. dmlist_find a c P = List.find P (elems a c))
   \<and> (\<forall>c P. length (filter P (elems a c)) \<le> 1 \<longrightarrow>
        elems a (dmlist_remove a c P) = filter (\<lambda>x. \<not> P x) (elems a c))"

lemma dmlist_okD:
  assumes "dmlist_ok a"
  shows dmlist_get_None: "dmlist_get a c i = None \<longleftrightarrow> dmlist_size a c \<le> i"
    and elems_push_back: "elems a (snd (dmlist_push_back a c x))
      = (if fst (dmlist_push_back a c x) then elems a c @ [x] else elems a c)"
    and pop_front_result: "fst (dmlist_pop_front a c) = (case elems a c of [] \<Rightarrow> None | x # _ \<Rightarrow> Some x)"
    and elems_pop_front: "elems a (snd (dmlist_pop_front a c)) = tl (elems a c)"
    and find_elems: "dmlist_find a c P = List.find P (elems a c)"
    and elems_remove: "length (filter P (elems a c)) \<le> 1 \<Longrightarrow>
      elems a (dmlist_remove a c P) = filter (\<lambda>x. \<not> P x) (elems a c)"
  using assms unfolding dmlist_ok_def by blast+

lemma length_elems [simp]: "length (elems a c) = dmlist_size a c"
  by (simp add: elems_def)

lemma dmlist_get_elems:
  assumes "dmlist_ok a"
  shows "dmlist_get a c i = (if i < dmlist_size a c then Some (elems a c ! i) else None)"
  using dmlist_get_None [OF assms, of c i] by (auto simp: elems_def)

text \<open>Popping until NULL; the fuel is an upper bound on the number of calls.\<close>

fun pop_all :: "('e, 'c) dmlist_api \<Rightarrow> nat \<Rightarrow> 'c \<Rightarrow> 'e list \<times> 'c" where
  "pop_all a 0 c = ([], c)"
| "pop_all a (Suc n) c =
     (case dmlist_pop_front a c of
        (None, c') \<Rightarrow> ([], c')
      | (Some x, c') \<Rightarrow> (case pop_all a n c' of (xs, c'') \<Rightarrow> (x # xs, c'')))"

text \<open>One call more than the size is enough: the loop has popped everything and seen NULL.\<close>

lemma pop_all_empties:
  assumes "dmlist_ok a" and "dmlist_size a c < n"
  shows "fst (pop_all a n c) = elems a c \<and> elems a (snd (pop_all a n c)) = []
    \<and> fst (dmlist_pop_front a (snd (pop_all a n c))) = None"
  using assms(2)
proof (induction n arbitrary: c)
  case 0
  then show ?case by simp
next
  case (Suc n)
  obtain r c' where pf: "dmlist_pop_front a c = (r, c')" by (cases "dmlist_pop_front a c")
  have tl: "elems a c' = tl (elems a c)"
    using elems_pop_front [OF assms(1), of c] pf by simp
  show ?case
  proof (cases "elems a c")
    case Nil
    with pf tl pop_front_result [OF assms(1)] show ?thesis
      by (metis (mono_tags, lifting) fst_conv list.sel(2) list.simps(4) option.simps(4) pop_all.simps(2)
          prod.simps(2) snd_conv)
  next
    case (Cons x xs)
    with pf pop_front_result [OF assms(1), of c] have r: "r = Some x" by simp
    have "dmlist_size a c' < n"
      using tl Cons Suc.prems by (metis length_elems length_Cons list.sel(3) not_less_eq)
    from Suc.IH [OF this] tl Cons r pf show ?thesis
      by (auto split: prod.splits)
  qed
qed

section \<open>The environment\<close>

record ('l, 't) env =
  env_rand32 :: "history \<Rightarrow> u32"
  env_malloc_lease :: "history \<Rightarrow> lease_ptr option"
  env_malloc :: "history \<Rightarrow> mem_kind \<Rightarrow> bool"
  env_malloc_buffer :: "history \<Rightarrow> nat \<Rightarrow> u8 list option"
  env_mutex_create :: "history \<Rightarrow> mutex_id \<Rightarrow> bool"
  env_timer_create :: "history \<Rightarrow> timer_id \<Rightarrow> bool"
  env_addr_list_create :: "history \<Rightarrow> 'l option"
  env_lease_list_create :: "history \<Rightarrow> 't option"
  alist :: "(dmroute_addr_t, 'l) dmlist_api"
  tlist :: "(lease_ptr, 't) dmlist_api"
  env_get_mac_address :: "history \<Rightarrow> dmnetif_iface_t \<Rightarrow> dmnetif_mac_addr_t option"
  env_get_name :: "dmnetif_iface_t \<Rightarrow> string"
  env_find_by_name :: "history \<Rightarrow> string \<Rightarrow> dmnetif_iface_t"
  env_udp_send_on_iface :: "history \<Rightarrow> dmnetif_iface_t \<Rightarrow> dmroute_addr_t \<Rightarrow> u8 list \<Rightarrow> result"
  env_udp_send :: "history \<Rightarrow> dmroute_addr_t \<Rightarrow> u8 list \<Rightarrow> result"
  env_udp_bind :: "history \<Rightarrow> result"
  env_arp_resolve :: "history \<Rightarrow> dmnetif_iface_t \<Rightarrow> dmroute_addr_t \<Rightarrow> result"
  env_set_netmask :: "history \<Rightarrow> dmnetif_iface_t \<Rightarrow> dmroute_addr_t \<Rightarrow> result"
  env_set_ip_address :: "history \<Rightarrow> dmnetif_iface_t \<Rightarrow> dmroute_addr_t \<Rightarrow> result"
  env_set_broadcast :: "history \<Rightarrow> dmnetif_iface_t \<Rightarrow> dmroute_addr_t \<Rightarrow> result"
  env_route_add :: "history \<Rightarrow> dmroute_addr_t \<Rightarrow> string \<Rightarrow> dmroute_route_t option"
  DMROUTE_DEFAULT_METRIC :: nat

text \<open>
  The documented behaviour of the platform: the containers keep their contract, a freshly
  created container is empty, and a buffer has the size that was asked for (its bytes are
  arbitrary).
\<close>

definition env_ok :: "('l, 't) env \<Rightarrow> bool" where
  "env_ok E \<longleftrightarrow> dmlist_ok (alist E) \<and> dmlist_ok (tlist E)
     \<and> (\<forall>h c. env_addr_list_create E h = Some c \<longrightarrow> elems (alist E) c = [])
     \<and> (\<forall>h c. env_lease_list_create E h = Some c \<longrightarrow> elems (tlist E) c = [])
     \<and> (\<forall>h n b. env_malloc_buffer E h n = Some b \<longrightarrow> length b = n)"

lemma env_okD:
  assumes "env_ok E"
  shows env_ok_alist: "dmlist_ok (alist E)" and env_ok_tlist: "dmlist_ok (tlist E)"
    and addr_list_create_empty: "env_addr_list_create E h = Some c \<Longrightarrow> elems (alist E) c = []"
    and lease_list_create_empty: "env_lease_list_create E h = Some d \<Longrightarrow> elems (tlist E) d = []"
    and malloc_buffer_length: "env_malloc_buffer E h n = Some b \<Longrightarrow> length b = n"
  using assms unfolding env_ok_def by blast+

section \<open>The lease\<close>

record 'l lease =
  magic :: u32
  lock :: "mutex_id option"
  iface :: dmnetif_iface_t
  state :: dmdhcp_state_t
  xid :: u32
  offered_ip :: dmroute_addr_t
  netmask :: dmroute_addr_t
  gateway :: dmroute_addr_t
  server_id :: dmroute_addr_t
  lease_time_sec :: u32
  t1_sec :: u32
  t2_sec :: u32
  dns_servers :: "'l option"
  ntp_servers :: "'l option"
  retransmit_interval_ms :: u32
  retransmit_count :: u32
  decline_retry_count :: u32
  retransmit_timer :: "timer_id option"
  lease_timer :: "timer_id option"
  default_route :: "dmroute_route_t option"
  iface_configured :: bool
  hostname :: "u8 list option"
  callbacks :: dmdhcp_callbacks_t
  user_data :: void_ptr

text \<open>The lease after \<open>memset(lease, 0, sizeof *lease)\<close>.\<close>

definition zero_lease :: "'l lease" where
  "zero_lease = \<lparr>magic = 0, lock = None, iface = None, state = dmdhcp_state_init, xid = 0,
     offered_ip = addr_none, netmask = addr_none, gateway = addr_none, server_id = addr_none,
     lease_time_sec = 0, t1_sec = 0, t2_sec = 0, dns_servers = None, ntp_servers = None,
     retransmit_interval_ms = 0, retransmit_count = 0, decline_retry_count = 0,
     retransmit_timer = None, lease_timer = None, default_route = None, iface_configured = False,
     hostname = None, callbacks = no_callbacks, user_data = None\<rparr>"

section \<open>The monad of code that works on one lease\<close>

record 'l lctx =
  self :: lease_ptr
  cur :: "'l lease"
  log :: history

type_synonym ('l, 'a) lease_monad = "('l lctx, 'a) State_Monad.state"

text \<open>States are written with the lease's update inside and the log's update outside.\<close>

lemma cur_log_update [run_simps]: "cur_update f (log_update g s) = log_update g (cur_update f s)"
  by simp

lemma lctx_update_eq [run_simps]:
  "s\<lparr>log := x\<rparr> = s\<lparr>log := y\<rparr> \<longleftrightarrow> x = y"
  "s\<lparr>cur := l, log := x\<rparr> = s\<lparr>cur := k, log := y\<rparr> \<longleftrightarrow> l = k \<and> x = y"
  by (cases s; simp)+

definition getl :: "('l lease \<Rightarrow> 'a) \<Rightarrow> ('l, 'a) lease_monad" where
  "getl f = State (\<lambda>s. (f (cur s), s))"

definition modl :: "('l lease \<Rightarrow> 'l lease) \<Rightarrow> ('l, unit) lease_monad" where
  "modl f = State (\<lambda>s. ((), s\<lparr>cur := f (cur s)\<rparr>))"

definition getself :: "('l, lease_ptr) lease_monad" where
  "getself = State (\<lambda>s. (self s, s))"

definition ask :: "(history \<Rightarrow> 'a) \<Rightarrow> ('l, 'a) lease_monad" where
  "ask f = State (\<lambda>s. (f (log s), s))"

definition emit :: "event \<Rightarrow> ('l, unit) lease_monad" where
  "emit e = State (\<lambda>s. ((), s\<lparr>log := log s @ [e]\<rparr>))"

definition emits :: "event list \<Rightarrow> ('l, unit) lease_monad" where
  "emits es = State (\<lambda>s. ((), s\<lparr>log := log s @ es\<rparr>))"

lemma run_getl [run_simps]: "run_state (getl f) s = (f (cur s), s)" "exec (getl f) s = s"
  by (simp_all add: getl_def exec_def)

lemma run_modl [run_simps]:
  "run_state (modl f) s = ((), s\<lparr>cur := f (cur s)\<rparr>)" "exec (modl f) s = s\<lparr>cur := f (cur s)\<rparr>"
  by (simp_all add: modl_def exec_def)

lemma run_getself [run_simps]: "run_state getself s = (self s, s)" "exec getself s = s"
  by (simp_all add: getself_def exec_def)

lemma run_ask [run_simps]: "run_state (ask f) s = (f (log s), s)" "exec (ask f) s = s"
  by (simp_all add: ask_def exec_def)

lemma run_emit [run_simps]:
  "run_state (emit e) s = ((), s\<lparr>log := log s @ [e]\<rparr>)" "exec (emit e) s = s\<lparr>log := log s @ [e]\<rparr>"
  by (simp_all add: emit_def exec_def)

lemma run_emits [run_simps]:
  "run_state (emits es) s = ((), s\<lparr>log := log s @ es\<rparr>)" "exec (emits es) s = s\<lparr>log := log s @ es\<rparr>"
  by (simp_all add: emits_def exec_def)

text \<open>A call of the platform: its result is asked for, and the call is logged with it.\<close>

definition call :: "(history \<Rightarrow> 'a) \<Rightarrow> ('a \<Rightarrow> event) \<Rightarrow> ('l, 'a) lease_monad" where
  "call f ev = do { r \<leftarrow> ask f; emit (ev r); State_Monad.return r }"

lemma run_call [run_simps]:
  "run_state (call f ev) s = (f (log s), s\<lparr>log := log s @ [ev (f (log s))]\<rparr>)"
  "exec (call f ev) s = s\<lparr>log := log s @ [ev (f (log s))]\<rparr>"
  by (simp_all add: call_def run_simps)

text \<open>
  The lock and timer calls, on the handles stored in the lease. The code ignores the results of
  \<open>dmosi_timer_set_period()\<close> and \<open>dmosi_timer_start()\<close>, so the events have none.
\<close>

definition lock_lease :: "('l, unit) lease_monad" where
  "lock_lease = do { m \<leftarrow> getl lock; emit (Mutex_lock m) }"

definition unlock_lease :: "('l, unit) lease_monad" where
  "unlock_lease = do { m \<leftarrow> getl lock; emit (Mutex_unlock m) }"

definition arm_timer :: "('l lease \<Rightarrow> timer_id option) \<Rightarrow> u32 \<Rightarrow> ('l, unit) lease_monad" where
  "arm_timer tm period = do {
     t \<leftarrow> getl tm;
     emit (Timer_set_period t period);
     emit (Timer_start t) }"

lemma run_lock [run_simps]:
  "run_state lock_lease s = ((), s\<lparr>log := log s @ [Mutex_lock (lock (cur s))]\<rparr>)"
  "exec lock_lease s = s\<lparr>log := log s @ [Mutex_lock (lock (cur s))]\<rparr>"
  "run_state unlock_lease s = ((), s\<lparr>log := log s @ [Mutex_unlock (lock (cur s))]\<rparr>)"
  "exec unlock_lease s = s\<lparr>log := log s @ [Mutex_unlock (lock (cur s))]\<rparr>"
  by (simp_all add: lock_lease_def unlock_lease_def run_simps)

lemma run_arm_timer [run_simps]:
  "run_state (arm_timer tm n) s
     = ((), s\<lparr>log := log s @ [Timer_set_period (tm (cur s)) n, Timer_start (tm (cur s))]\<rparr>)"
  "exec (arm_timer tm n) s
     = s\<lparr>log := log s @ [Timer_set_period (tm (cur s)) n, Timer_start (tm (cur s))]\<rparr>"
  by (simp_all add: arm_timer_def run_simps)

section \<open>A concrete environment\<close>

text \<open>
  Lists as containers, and a platform on which every call succeeds, nobody answers an ARP
  probe, the random numbers count the earlier calls, and a new lease lies above all
  earlier ones.
\<close>

fun malloced :: "event \<Rightarrow> lease_ptr" where
  "malloced (Malloc_lease (Some p)) = p"
| "malloced _ = 0"

definition list_api :: "('e, 'e list) dmlist_api" where
  "list_api = \<lparr>dmlist_push_back = (\<lambda>c x. (True, c @ [x])),
     dmlist_pop_front = (\<lambda>c. (case c of [] \<Rightarrow> None | x # _ \<Rightarrow> Some x, tl c)),
     dmlist_size = length,
     dmlist_get = (\<lambda>c i. if i < length c then Some (c ! i) else None),
     dmlist_find = (\<lambda>c P. List.find P c),
     dmlist_remove = (\<lambda>c P. filter (\<lambda>x. \<not> P x) c)\<rparr>"

lemma list_api_simps [simp]:
  "dmlist_push_back list_api c x = (True, c @ [x])"
  "dmlist_pop_front list_api c = (case c of [] \<Rightarrow> None | x # _ \<Rightarrow> Some x, tl c)"
  "dmlist_size list_api = length"
  "dmlist_get list_api c i = (if i < length c then Some (c ! i) else None)"
  "dmlist_find list_api c P = List.find P c"
  "dmlist_remove list_api c P = filter (\<lambda>x. \<not> P x) c"
  by (simp_all add: list_api_def)

lemma elems_list_api [simp]: "elems list_api c = c"
  by (rule nth_equalityI) (simp_all add: elems_def)

lemma list_api_ok: "dmlist_ok list_api"
  by (auto simp: dmlist_ok_def)

definition sample_env :: "(dmroute_addr_t list, lease_ptr list) env" where
  "sample_env = \<lparr>env_rand32 = (\<lambda>h. of_nat (length h)), env_malloc_lease = (\<lambda>h. Some (Suc (sum_list (map malloced h)))),
     env_malloc = (\<lambda>h k. True), env_malloc_buffer = (\<lambda>h n. Some (replicate n 0xA5)),
     env_mutex_create = (\<lambda>h m. True), env_timer_create = (\<lambda>h t. True),
     env_addr_list_create = (\<lambda>h. Some []), env_lease_list_create = (\<lambda>h. Some []),
     alist = list_api, tlist = list_api,
     env_get_mac_address = (\<lambda>h i. Some (Mac 2 0 0 0 0 1)), env_get_name = (\<lambda>i. ''eth0''),
     env_find_by_name = (\<lambda>h n. Some 1),
     env_udp_send_on_iface = (\<lambda>h i a d. Inr ()), env_udp_send = (\<lambda>h a d. Inr ()),
     env_udp_bind = (\<lambda>h. Inr ()), env_arp_resolve = (\<lambda>h i a. Inl (Eother 110)),
     env_set_netmask = (\<lambda>h i a. Inr ()), env_set_ip_address = (\<lambda>h i a. Inr ()),
     env_set_broadcast = (\<lambda>h i a. Inr ()), env_route_add = (\<lambda>h a n. Some (length h)),
     DMROUTE_DEFAULT_METRIC = 100\<rparr>"

lemma sample_env_ok: "env_ok sample_env"
  by (simp add: env_ok_def sample_env_def list_api_ok)

lemma sample_env_lists [simp]: "alist sample_env = list_api" "tlist sample_env = list_api"
  by (simp_all add: sample_env_def)

end
