(* ===== verification/Dhcp_Monitor.thy ===== *)
theory Dhcp_Monitor
  imports Dhcp_Platform
begin

text \<open>
  What an observer computes from the log of platform calls: which locks are held and whether
  the lock rules of \<open>dmdhcp_internal.h\<close> were kept, which timers run and with which period,
  how the interfaces and the routing table are configured, and how much memory is allocated.
  Each observation is a fold of a step function over the log; the \<open>monitor\<close> interface has what
  the folds share.
\<close>

section \<open>Calls that no monitor reacts to\<close>

fun quiet :: "event \<Rightarrow> bool" where
  "quiet (Rand32 _) = True"
| "quiet (Malloc _ _) = True"
| "quiet (Free _) = True"
| "quiet Free_null = True"
| "quiet (Get_mac_address _) = True"
| "quiet (Get_name _) = True"
| "quiet (Udp_send_on_iface _ _ _ _ _ _ _) = True"
| "quiet (Udp_send _ _ _ _ _ _) = True"
| "quiet (Arp_resolve _ _ _ _) = True"
| "quiet _ = False"

definition observe :: "('m \<Rightarrow> event \<Rightarrow> 'm) \<Rightarrow> 'm \<Rightarrow> history \<Rightarrow> 'm" where
  "observe step m es = foldl step m es"

lemma observe_simps [simp]:
  "observe step m [] = m" "observe step m (e # es) = observe step (step m e) es"
  "observe step m (es @ fs) = observe step (observe step m es) fs"
  by (simp_all add: observe_def)

locale monitor =
  fixes step :: "'m \<Rightarrow> event \<Rightarrow> 'm"
  assumes quiet_step: "quiet e \<Longrightarrow> step m e = m"
begin

lemma observe_quiet [simp]: "list_all quiet es \<Longrightarrow> observe step m es = m"
  by (induction es arbitrary: m) (simp_all add: quiet_step)

lemma observe_around_quiet:
  "list_all quiet es \<Longrightarrow> observe step m (fs @ es @ gs) = observe step (observe step m fs) gs"
  by simp

end

section \<open>Locks\<close>

text \<open>
  The order of the mutexes: the table's mutex is below the lock of every lease, and the locks of two
  leases are not ordered.
\<close>

instantiation mutex_id :: order
begin

definition less_eq_mutex_id :: "mutex_id \<Rightarrow> mutex_id \<Rightarrow> bool" where
  "m \<le> m' \<longleftrightarrow> m = m' \<or> m = Table_mutex"

definition less_mutex_id :: "mutex_id \<Rightarrow> mutex_id \<Rightarrow> bool" where
  "m < m' \<longleftrightarrow> m = Table_mutex \<and> m' \<noteq> Table_mutex"

instance
  by standard (auto simp: less_eq_mutex_id_def less_mutex_id_def)

end

lemma mutex_order [simp]: "Table_mutex < Lease_lock p" "\<not> Lease_lock p < m"
  by (simp_all add: less_mutex_id_def)

text \<open>
  The held mutexes, the latest first; \<open>None\<close> once a rule was broken: a mutex is taken only above
  every mutex that is held (so never twice, and never two leases' locks at once), locks are released in the reverse
  order, and no lock is held while a callback of the application runs or a timer is
  destroyed (\<open>dmosi_timer_destroy()\<close> joins the timer's thread, which may wait for the lock).
\<close>

fun lock_step :: "mutex_id list option \<Rightarrow> event \<Rightarrow> mutex_id list option" where
  "lock_step None _ = None"
| "lock_step (Some hs) (Mutex_lock (Some m)) =
     (if \<forall>h \<in> set hs. h < m then Some (m # hs) else None)"
| "lock_step (Some hs) (Mutex_lock None) = None"
| "lock_step (Some hs) (Mutex_unlock (Some m)) =
     (case hs of h # hs' \<Rightarrow> if h = m then Some hs' else None | [] \<Rightarrow> None)"
| "lock_step (Some hs) (Mutex_unlock None) = None"
| "lock_step (Some hs) (Call_on_bound _ _ _ _) = (if hs = [] then Some hs else None)"
| "lock_step (Some hs) (Call_on_expired _ _ _) = (if hs = [] then Some hs else None)"
| "lock_step (Some hs) (Call_on_error _ _ _ _) = (if hs = [] then Some hs else None)"
| "lock_step (Some hs) (Timer_destroy _) = (if hs = [] then Some hs else None)"
| "lock_step (Some hs) (Mutex_destroy m) = (if m \<in> Some ` set hs then None else Some hs)"
| "lock_step (Some hs) _ = Some hs"

interpretation lm: monitor lock_step
proof
  fix e m
  assume "quiet e"
  then show "lock_step m e = m"
    by (cases m; cases e) simp_all
qed

section \<open>Leases\<close>

text \<open>The leases that are allocated.\<close>

fun live_step :: "lease_ptr set \<Rightarrow> event \<Rightarrow> lease_ptr set" where
  "live_step L (Malloc_lease (Some p)) = insert p L"
| "live_step L (Free_lease p) = L - {p}"
| "live_step L _ = L"

interpretation lv: monitor live_step
proof
  fix e m
  assume "quiet e"
  then show "live_step m e = m" by (cases e) simp_all
qed

section \<open>Timers\<close>

text \<open>The period of a timer and whether it runs; all timers are one-shot. Every start is taken to succeed, as in the code.\<close>

type_synonym timers = "timer_id \<Rightarrow> u32 \<times> bool"

fun timer_step :: "timers \<Rightarrow> event \<Rightarrow> timers" where
  "timer_step tv (Timer_create t p ok) = (if ok then tv(t := (p, False)) else tv)"
| "timer_step tv (Timer_set_period (Some t) p) = tv(t := (p, snd (tv t)))"
| "timer_step tv (Timer_start (Some t)) = tv(t := (fst (tv t), True))"
| "timer_step tv (Timer_stop t) = tv(t := (fst (tv t), False))"
| "timer_step tv (Timer_destroy t) = tv(t := (fst (tv t), False))"
| "timer_step tv (Timer_fired t) = tv(t := (fst (tv t), False))"
| "timer_step tv _ = tv"

interpretation tm: monitor timer_step
proof
  fix e m
  assume "quiet e"
  then show "timer_step m e = m" by (cases e) simp_all
qed

section \<open>Interfaces and routes\<close>

record ifcfg =
  if_ip :: dmroute_addr_t
  if_netmask :: dmroute_addr_t
  if_broadcast :: dmroute_addr_t

record netcfg =
  ifs :: "dmnetif_iface_t \<Rightarrow> ifcfg"
  routes :: "dmroute_route_t list"

fun net_step :: "netcfg \<Rightarrow> event \<Rightarrow> netcfg" where
  "net_step n (Set_ip_address i a (Inr _)) = n\<lparr>ifs := (ifs n)(i := (ifs n i)\<lparr>if_ip := a\<rparr>)\<rparr>"
| "net_step n (Set_netmask i a (Inr _)) = n\<lparr>ifs := (ifs n)(i := (ifs n i)\<lparr>if_netmask := a\<rparr>)\<rparr>"
| "net_step n (Set_broadcast i a (Inr _)) = n\<lparr>ifs := (ifs n)(i := (ifs n i)\<lparr>if_broadcast := a\<rparr>)\<rparr>"
| "net_step n (Route_add _ _ _ _ _ (Some r)) = n\<lparr>routes := r # routes n\<rparr>"
| "net_step n (Route_remove r) = n\<lparr>routes := remove1 r (routes n)\<rparr>"
| "net_step n _ = n"

interpretation nm: monitor net_step
proof
  fix e m
  assume "quiet e"
  then show "net_step m e = m" by (cases e) simp_all
qed

section \<open>Memory\<close>

fun delta :: "mem_kind \<Rightarrow> event \<Rightarrow> int" where
  "delta k (Malloc k' ok) = (if k = k' \<and> ok then 1 else 0)"
| "delta k (Free k') = (if k = k' then - 1 else 0)"
| "delta k _ = 0"

definition balance :: "mem_kind \<Rightarrow> history \<Rightarrow> int" where
  "balance k es = sum_list (map (delta k) es)"

lemma balance_simps [simp]:
  "balance k [] = 0" "balance k (e # es) = delta k e + balance k es"
  "balance k (es @ fs) = balance k es + balance k fs"
  by (simp_all add: balance_def)

lemma balance_map_Free [simp]:
  "balance k (map (\<lambda>_. Free k') xs) = (if k = k' then - int (length xs) else 0)"
  by (induction xs) simp_all

lemma ifs_route_add [simp]: "ifs (net_step n (Route_add a b c d e r)) = ifs n"
  by (cases r) simp_all

lemma quiet_map_Free [simp]: "list_all quiet (map (\<lambda>_. Free k) xs)"
  by (induction xs) simp_all

end
