(* ===== verification/Dhcp_Servers.thy ===== *)
theory Dhcp_Servers
  imports Dhcp_Monitor
begin

text \<open>
  The DNS and NTP server lists of a lease: emptying them (\<open>src/dmdhcp_lease_table.c\<close>) and
  filling them from an option (the two loops of \<open>populate_lease_from_options()\<close> in
  \<open>src/dmdhcp_input.c\<close>). A list is a dmlist container of heap entries; every entry is one
  allocation of kind \<open>Addr_entry\<close>.
\<close>

section \<open>Definitions\<close>

definition dmdhcp_lease_table_clear_dns_servers :: "('l, 't) env \<Rightarrow> ('l, unit) lease_monad" where
  "dmdhcp_lease_table_clear_dns_servers E = do {
     servers \<leftarrow> getl dns_servers;
     case servers of
       None \<Rightarrow> State_Monad.return ()
     | Some c \<Rightarrow>
         (case pop_all (alist E) (Suc (dmlist_size (alist E) c)) c of
            (entries, c') \<Rightarrow> do {
              emits (map (\<lambda>_. Free Addr_entry) entries);
              modl (\<lambda>l. l\<lparr>dns_servers := Some c'\<rparr>) }) }"

definition dmdhcp_lease_table_clear_ntp_servers :: "('l, 't) env \<Rightarrow> ('l, unit) lease_monad" where
  "dmdhcp_lease_table_clear_ntp_servers E = do {
     servers \<leftarrow> getl ntp_servers;
     case servers of
       None \<Rightarrow> State_Monad.return ()
     | Some c \<Rightarrow>
         (case pop_all (alist E) (Suc (dmlist_size (alist E) c)) c of
            (entries, c') \<Rightarrow> do {
              emits (map (\<lambda>_. Free Addr_entry) entries);
              modl (\<lambda>l. l\<lparr>ntp_servers := Some c'\<rparr>) }) }"

text \<open>
  The loop \<open>for (i = 0; i < count; i++)\<close> that appends the addresses of an option to one of the
  lists; the source has it once for each list. \<open>n\<close> is the number of rounds left. A failed allocation or a
  failed insertion ends it. The result of \<open>dmdhcp_option_get_addr_at()\<close> is ignored: on an error the entry would be
  appended as it was allocated (written as \<open>addr_none\<close> here), which lemma \<open>option_addrs_nth\<close> shows never to happen
  for an index below the count.
\<close>

fun push_servers ::
  "('l, 't) env \<Rightarrow> ('l lease \<Rightarrow> 'l option) \<Rightarrow> (('l option \<Rightarrow> 'l option) \<Rightarrow> 'l lease \<Rightarrow> 'l lease)
     \<Rightarrow> dmdhcp_option_t \<Rightarrow> nat \<Rightarrow> nat \<Rightarrow> ('l, unit) lease_monad" where
  "push_servers E servers servers_update opt i 0 = State_Monad.return ()"
| "push_servers E servers servers_update opt i (Suc n) = do {
     allocated \<leftarrow> call (\<lambda>h. env_malloc E h Addr_entry) (Malloc Addr_entry);
     if \<not> allocated then State_Monad.return ()
     else do {
       c \<leftarrow> getl servers;
       case dmlist_push_back (alist E) (the c)
           (case dmdhcp_option_get_addr_at (Some opt) i True of Inr entry \<Rightarrow> entry | Inl _ \<Rightarrow> addr_none) of
         (pushed, c') \<Rightarrow> do {
           modl (servers_update (\<lambda>_. Some c'));
           if \<not> pushed then emit (Free Addr_entry)
           else push_servers E servers servers_update opt (i + 1) n } } }"

text \<open>The sequence of addresses in a list; a missing container holds none.\<close>

definition servers_of :: "('l, 't) env \<Rightarrow> 'l option \<Rightarrow> dmroute_addr_t list" where
  "servers_of E c = (case c of None \<Rightarrow> [] | Some c \<Rightarrow> elems (alist E) c)"

lemma servers_of_simps [simp]:
  "servers_of E None = []" "servers_of E (Some c) = elems (alist E) c"
  by (simp_all add: servers_of_def)

section \<open>Clearing\<close>

text \<open>A list and the same list emptied: the container itself stays.\<close>

definition emptied :: "('l, 't) env \<Rightarrow> 'l option \<Rightarrow> 'l option \<Rightarrow> bool" where
  "emptied E c c' \<longleftrightarrow> servers_of E c' = [] \<and> (c' = None \<longleftrightarrow> c = None)"

text \<open>
  Calls that only work on the heap and the network: no monitor reacts to them, and
  \<open>n\<close> more address entries are allocated afterwards, everything else balanced.
\<close>

definition heap_only :: "int \<Rightarrow> history \<Rightarrow> bool" where
  "heap_only n es \<longleftrightarrow> list_all quiet es \<and> balance Addr_entry es = n
     \<and> balance Msg_buffer es = 0 \<and> balance Hostname es = 0"

lemma heap_only_quiet [simp]: "heap_only n es \<Longrightarrow> list_all quiet es"
  by (simp add: heap_only_def)

lemma heap_only_Nil [simp]: "heap_only 0 []"
  by (simp add: heap_only_def)

lemma heap_only_append: "heap_only m es \<Longrightarrow> heap_only n fs \<Longrightarrow> heap_only (m + n) (es @ fs)"
  by (simp add: heap_only_def)

lemma clear_dns_effect:
  assumes "env_ok E"
  shows "\<exists>es c'. exec (dmdhcp_lease_table_clear_dns_servers E) s
      = s\<lparr>cur := (cur s)\<lparr>dns_servers := c'\<rparr>, log := log s @ es\<rparr>
    \<and> emptied E (dns_servers (cur s)) c'
    \<and> heap_only (- int (length (servers_of E (dns_servers (cur s))))) es"
proof (cases "dns_servers (cur s)")
  case None
  then show ?thesis
    by (intro exI [of _ "[]"] exI [of _ None])
      (simp add: dmdhcp_lease_table_clear_dns_servers_def run_simps emptied_def)
next
  case (Some c)
  let ?n = "Suc (dmlist_size (alist E) c)"
  have "fst (pop_all (alist E) ?n c) = elems (alist E) c"
    and "elems (alist E) (snd (pop_all (alist E) ?n c)) = []"
    using pop_all_empties [OF env_ok_alist [OF assms], of c ?n] by simp_all
  with Some show ?thesis
    by (intro exI [of _ "map (\<lambda>_. Free Addr_entry) (elems (alist E) c)"]
        exI [of _ "Some (snd (pop_all (alist E) ?n c))"])
      (simp add: dmdhcp_lease_table_clear_dns_servers_def run_simps emptied_def heap_only_def
        case_prod_beta)
qed

lemma clear_ntp_effect:
  assumes "env_ok E"
  shows "\<exists>es c'. exec (dmdhcp_lease_table_clear_ntp_servers E) s
      = s\<lparr>cur := (cur s)\<lparr>ntp_servers := c'\<rparr>, log := log s @ es\<rparr>
    \<and> emptied E (ntp_servers (cur s)) c'
    \<and> heap_only (- int (length (servers_of E (ntp_servers (cur s))))) es"
proof (cases "ntp_servers (cur s)")
  case None
  then show ?thesis
    by (intro exI [of _ "[]"] exI [of _ None])
      (simp add: dmdhcp_lease_table_clear_ntp_servers_def run_simps emptied_def)
next
  case (Some c)
  let ?n = "Suc (dmlist_size (alist E) c)"
  have "fst (pop_all (alist E) ?n c) = elems (alist E) c"
    and "elems (alist E) (snd (pop_all (alist E) ?n c)) = []"
    using pop_all_empties [OF env_ok_alist [OF assms], of c ?n] by simp_all
  with Some show ?thesis
    by (intro exI [of _ "map (\<lambda>_. Free Addr_entry) (elems (alist E) c)"]
        exI [of _ "Some (snd (pop_all (alist E) ?n c))"])
      (simp add: dmdhcp_lease_table_clear_ntp_servers_def run_simps emptied_def heap_only_def
        case_prod_beta)
qed

section \<open>Filling\<close>

text \<open>The addresses an option announces.\<close>

definition option_addrs :: "dmdhcp_option_t \<Rightarrow> dmroute_addr_t list" where
  "option_addrs opt =
     map (\<lambda>i. addr_v4 (ipv4_of_bytes (sub (4 * i) 4 (opt_bytes opt)))) [0..<length (opt_bytes opt) div 4]"

lemma length_option_addrs: "wf_option opt \<Longrightarrow> length (option_addrs opt) = dmdhcp_option_addr_count (Some opt)"
  by (simp add: option_addrs_def addr_count_eq)

lemma option_addrs_nth:
  assumes "wf_option opt" and "i < dmdhcp_option_addr_count (Some opt)"
  shows "dmdhcp_option_get_addr_at (Some opt) i True = Inr (option_addrs opt ! i)"
  using assms by (simp add: get_addr_at_eq addr_count_eq option_addrs_def)

text \<open>
  Why the list of announced addresses \<open>as\<close> ends at position \<open>k\<close>: an entry could not be allocated, or the container
  that held the first \<open>k\<close> of them refused the next one.
\<close>

definition no_room :: "('l, 't) env \<Rightarrow> dmroute_addr_t list \<Rightarrow> nat \<Rightarrow> history \<Rightarrow> bool" where
  "no_room E as k es \<longleftrightarrow> Malloc Addr_entry False \<in> set es
     \<or> (\<exists>c. elems (alist E) c = take k as \<and> \<not> fst (dmlist_push_back (alist E) c (as ! k)))"

text \<open>
  The interface through which \<open>populate_lease_from_options()\<close> fills a list: a field of the lease
  and its update. Both lists of a lease are instances.
\<close>

locale server_list =
  fixes servers :: "'l lease \<Rightarrow> 'l option"
    and servers_update :: "('l option \<Rightarrow> 'l option) \<Rightarrow> 'l lease \<Rightarrow> 'l lease"
  assumes servers_of_update: "servers (servers_update f l) = f (servers l)"
    and update_update: "servers_update f (servers_update g l) = servers_update (\<lambda>x. f (g x)) l"
    and update_same: "servers_update (\<lambda>_. servers l) l = l"
begin

lemma update_const:
  "servers_update (\<lambda>_. d) (servers_update (\<lambda>_. c) l) = servers_update (\<lambda>_. d) l"
  by (simp add: update_update)

lemma push_effect:
  assumes E: "env_ok E" and wf: "wf_option opt"
    and "servers (cur s) = Some c" and "i + n \<le> dmdhcp_option_addr_count (Some opt)"
    and "elems (alist E) c = take i (option_addrs opt)"
  shows "\<exists>es c' k. exec (push_servers E servers servers_update opt i n) s
      = s\<lparr>cur := servers_update (\<lambda>_. Some c') (cur s), log := log s @ es\<rparr>
    \<and> elems (alist E) c' = take (i + k) (option_addrs opt)
    \<and> k \<le> n \<and> heap_only (int k) es
    \<and> (k < n \<longrightarrow> no_room E (option_addrs opt) (i + k) es)"
  using assms(3-5)
proof (induction n arbitrary: i s c)
  case 0
  then show ?case
    using update_same [of "cur s"] by (intro exI [of _ "[]"] exI [of _ c] exI [of _ 0]) (simp add: run_simps)
next
  case (Suc n)
  let ?m = "env_malloc E (log s) Addr_entry"
  let ?a = "option_addrs opt ! i"
  have a: "dmdhcp_option_get_addr_at (Some opt) i True = Inr ?a"
    and take_a: "take (Suc i) (option_addrs opt) = take i (option_addrs opt) @ [?a]"
    using Suc.prems(2) option_addrs_nth [OF wf] length_option_addrs [OF wf]
    by (simp_all add: take_Suc_conv_app_nth)
  obtain ok c1 where p: "dmlist_push_back (alist E) c ?a = (ok, c1)" by fastforce
  have el: "elems (alist E) c1 = (if ok then elems (alist E) c @ [?a] else elems (alist E) c)"
    using elems_push_back [OF env_ok_alist [OF E], of c ?a] p by simp
  consider "\<not> ?m" | "?m" "\<not> ok" | "?m" "ok" by blast
  then show ?case
  proof cases
    case 1
    with Suc.prems update_same [of "cur s"] show ?thesis
      by (intro exI [of _ "[Malloc Addr_entry False]"] exI [of _ c] exI [of _ 0])
        (simp add: run_simps heap_only_def no_room_def)
  next
    case 2
    have "no_room E (option_addrs opt) (i + 0) es" for es
      unfolding no_room_def using Suc.prems(3) p 2(2) by (intro disjI2 exI [of _ c]) simp
    with 2 Suc.prems p a el show ?thesis
      by (intro exI [of _ "[Malloc Addr_entry True, Free Addr_entry]"] exI [of _ c1] exI [of _ 0])
        (simp add: run_simps heap_only_def)
  next
    case 3
    let ?s = "s\<lparr>cur := servers_update (\<lambda>_. Some c1) (cur s), log := log s @ [Malloc Addr_entry True]\<rparr>"
    have "servers (cur ?s) = Some c1" and "i + 1 + n \<le> dmdhcp_option_addr_count (Some opt)"
      and "elems (alist E) c1 = take (i + 1) (option_addrs opt)"
      using Suc.prems(2,3) 3(2) el take_a by (simp_all add: servers_of_update)
    from Suc.IH [OF this] obtain es c' k where
      IH: "exec (push_servers E servers servers_update opt (i + 1) n) ?s
          = ?s\<lparr>cur := servers_update (\<lambda>_. Some c') (cur ?s), log := log ?s @ es\<rparr>"
        "elems (alist E) c' = take (i + 1 + k) (option_addrs opt)"
        "k \<le> n" "heap_only (int k) es" "k < n \<longrightarrow> no_room E (option_addrs opt) (i + 1 + k) es"
      by blast
    have "exec (push_servers E servers servers_update opt i (Suc n)) s
        = exec (push_servers E servers servers_update opt (i + 1) n) ?s"
      using 3 Suc.prems(1) p a by (simp add: run_simps)
    with IH 3 el show ?thesis
      by (intro exI [of _ "Malloc Addr_entry True # es"] exI [of _ c'] exI [of _ "Suc k"])
        (auto simp: update_const heap_only_def no_room_def)
  qed
qed

end

interpretation dns: server_list dns_servers dns_servers_update
  by unfold_locales simp_all

interpretation ntp: server_list ntp_servers ntp_servers_update
  by unfold_locales simp_all

end
