(* ===== verification/Dhcp_Output.thy ===== *)
theory Dhcp_Output
  imports Dhcp_Servers
begin

text \<open>
  The message senders and the transitions that send, \<open>src/dmdhcp_output.c\<close>: building one
  DHCP message with its options and handing it to dmudp, the backoff, and the entries into
  selecting, rebooting, renewing and rebinding. The conflict probe and the timer callback of
  the same file are in \<open>Dhcp_Conflict\<close>.
\<close>

section \<open>Sending\<close>

definition limited_broadcast :: dmroute_addr_t where
  "limited_broadcast = addr_v4 (255, 255, 255, 255)"

definition message_header ::
  "u32 \<Rightarrow> dmnetif_mac_addr_t \<Rightarrow> dmroute_addr_t option \<Rightarrow> dmdhcp_message_t" where
  "message_header x mac ciaddr = \<lparr>msg_op = dmdhcp_op_bootrequest, msg_htype = 1,
     msg_hlen = of_nat DMNETIF_MAC_ADDR_LEN, msg_hops = 0, msg_xid = x, msg_secs = 0,
     msg_flags = DMDHCP_FLAG_BROADCAST,
     msg_ciaddr = (case ciaddr of Some a \<Rightarrow> a | None \<Rightarrow> addr_none),
     msg_yiaddr = addr_none, msg_siaddr = addr_none, msg_giaddr = addr_none,
     msg_chaddr = mac_bytes mac @ replicate (DMDHCP_CHADDR_LEN - DMNETIF_MAC_ADDR_LEN) 0\<rparr>"

definition addr_option :: "u8 \<Rightarrow> dmroute_addr_t option \<Rightarrow> dmdhcp_option_t list" where
  "addr_option code addr = (case addr of
     None \<Rightarrow> []
   | Some a \<Rightarrow> [\<lparr>opt_code = code, opt_length = of_nat DMROUTE_IPV4_ADDR_LEN,
                opt_data = Some (ipv4_bytes (v4 a))\<rparr>])"

definition requested :: "u8 list" where
  "requested = [1, 3, 6, 42, 51, 58, 59]"

definition message_options ::
  "dmdhcp_msg_type_t \<Rightarrow> dmroute_addr_t option \<Rightarrow> dmroute_addr_t option \<Rightarrow> u8 list option
     \<Rightarrow> dmdhcp_option_t list" where
  "message_options msg_type requested_ip server_id_option host =
     [\<lparr>opt_code = DMDHCP_OPT_MSG_TYPE, opt_length = 1, opt_data = Some [msg_type_code msg_type]\<rparr>]
   @ addr_option DMDHCP_OPT_REQUESTED_IP requested_ip
   @ addr_option DMDHCP_OPT_SERVER_ID server_id_option
   @ (case host of
        None \<Rightarrow> []
      | Some name \<Rightarrow>
          [\<lparr>opt_code = DMDHCP_OPT_HOSTNAME,
            opt_length = of_nat (if length name > 255 then 255 else length name),
            opt_data = Some name\<rparr>])
   @ (if msg_type = dmdhcp_msg_discover \<or> msg_type = dmdhcp_msg_request
      then [\<lparr>opt_code = 55, opt_length = of_nat (length requested), opt_data = Some requested\<rparr>]
      else [])"

definition send_message ::
  "('l, 't) env \<Rightarrow> dmdhcp_msg_type_t \<Rightarrow> dmroute_addr_t option \<Rightarrow> dmroute_addr_t option
     \<Rightarrow> dmroute_addr_t option \<Rightarrow> dmroute_addr_t \<Rightarrow> bool \<Rightarrow> ('l, result) lease_monad" where
  "send_message E msg_type ciaddr requested_ip server_id_option dst via_iface = do {
     ifc \<leftarrow> getl iface;
     mac \<leftarrow> call (\<lambda>h. env_get_mac_address E h ifc) (\<lambda>_. Get_mac_address ifc);
     x \<leftarrow> getl xid;
     host \<leftarrow> getl hostname;
     buffer \<leftarrow> call (\<lambda>h. env_malloc_buffer E h DMDHCP_MAX_MESSAGE_LEN)
                  (\<lambda>b. Malloc Msg_buffer (b \<noteq> None));
     case buffer of
       None \<Rightarrow> State_Monad.return (Inl ENOMEM)
     | Some _ \<Rightarrow>
         (case dmdhcp_build_message buffer (Some (message_header x
                 (case mac of Some m \<Rightarrow> m | None \<Rightarrow> Mac 0 0 0 0 0 0) ciaddr)) of
            (Inl e, _) \<Rightarrow> do { emit (Free Msg_buffer); State_Monad.return (Inl e) }
          | (Inr _, b) \<Rightarrow>
              (let options = message_options msg_type requested_ip server_id_option host;
                   options_offset = DMDHCP_FIXED_HEADER_LEN + 4
               in case dmdhcp_options_write (map_option (drop options_offset) b) (Some options)
                         (length options) True of
                    (Inl e, _) \<Rightarrow> do { emit (Free Msg_buffer); State_Monad.return (Inl e) }
                  | (Inr options_len, area) \<Rightarrow>
                      (let total_len = options_offset + options_len;
                           datagram = take total_len (take options_offset (the b) @ the area)
                       in do {
                         result \<leftarrow>
                           if via_iface
                           then call (\<lambda>h. env_udp_send_on_iface E h ifc dst datagram)
                                  (Udp_send_on_iface ifc dst DMDHCP_CLIENT_PORT DMDHCP_SERVER_PORT
                                     datagram DMDHCP_DEFAULT_ARP_TIMEOUT_MS)
                           else call (\<lambda>h. env_udp_send E h dst datagram)
                                  (Udp_send dst DMDHCP_CLIENT_PORT DMDHCP_SERVER_PORT
                                     datagram DMDHCP_DEFAULT_ARP_TIMEOUT_MS);
                         emit (Free Msg_buffer);
                         State_Monad.return result }))) }"

definition send_discover :: "('l, 't) env \<Rightarrow> ('l, result) lease_monad" where
  "send_discover E = send_message E dmdhcp_msg_discover None None None limited_broadcast True"

definition send_request_selecting :: "('l, 't) env \<Rightarrow> ('l, result) lease_monad" where
  "send_request_selecting E = do {
     ip \<leftarrow> getl offered_ip;
     sid \<leftarrow> getl server_id;
     send_message E dmdhcp_msg_request None (Some ip) (Some sid) limited_broadcast True }"

definition send_request_reboot :: "('l, 't) env \<Rightarrow> ('l, result) lease_monad" where
  "send_request_reboot E = do {
     ip \<leftarrow> getl offered_ip;
     send_message E dmdhcp_msg_request None (Some ip) None limited_broadcast True }"

definition send_request_renew :: "('l, 't) env \<Rightarrow> ('l, result) lease_monad" where
  "send_request_renew E = do {
     ip \<leftarrow> getl offered_ip;
     sid \<leftarrow> getl server_id;
     send_message E dmdhcp_msg_request (Some ip) None None sid False }"

definition send_request_rebind :: "('l, 't) env \<Rightarrow> ('l, result) lease_monad" where
  "send_request_rebind E = do {
     ip \<leftarrow> getl offered_ip;
     send_message E dmdhcp_msg_request (Some ip) None None limited_broadcast True }"

definition send_decline :: "('l, 't) env \<Rightarrow> ('l, result) lease_monad" where
  "send_decline E = do {
     ip \<leftarrow> getl offered_ip;
     sid \<leftarrow> getl server_id;
     send_message E dmdhcp_msg_decline None (Some ip) (Some sid) limited_broadcast True }"

definition dmdhcp_output_send_release :: "('l, 't) env \<Rightarrow> ('l, result) lease_monad" where
  "dmdhcp_output_send_release E = do {
     ip \<leftarrow> getl offered_ip;
     sid \<leftarrow> getl server_id;
     send_message E dmdhcp_msg_release (Some ip) None (Some sid) sid False }"

section \<open>Backoff and the transitions that send\<close>

definition next_backoff :: "u32 \<Rightarrow> u32" where
  "next_backoff current_ms =
     (let next = current_ms * 2
      in if next > DMDHCP_RETRANSMIT_MAX_MS then DMDHCP_RETRANSMIT_MAX_MS else next)"

definition rearm_backoff :: "('l, unit) lease_monad" where
  "rearm_backoff = do {
     modl (\<lambda>l. l\<lparr>retransmit_interval_ms := next_backoff (retransmit_interval_ms l)\<rparr>);
     interval \<leftarrow> getl retransmit_interval_ms;
     arm_timer retransmit_timer interval }"

definition dmdhcp_output_start_discovery :: "('l, 't) env \<Rightarrow> ('l, unit) lease_monad" where
  "dmdhcp_output_start_discovery E = do {
     x \<leftarrow> call (env_rand32 E) Rand32;
     modl (\<lambda>l. l\<lparr>xid := x\<rparr>);
     modl (\<lambda>l. l\<lparr>offered_ip := addr_none\<rparr>);
     modl (\<lambda>l. l\<lparr>server_id := addr_none\<rparr>);
     modl (\<lambda>l. l\<lparr>gateway := addr_none\<rparr>);
     modl (\<lambda>l. l\<lparr>netmask := addr_none\<rparr>);
     dmdhcp_lease_table_clear_dns_servers E;
     dmdhcp_lease_table_clear_ntp_servers E;
     modl (\<lambda>l. l\<lparr>retransmit_count := 0\<rparr>);
     modl (\<lambda>l. l\<lparr>retransmit_interval_ms := DMDHCP_RETRANSMIT_INITIAL_MS\<rparr>);
     send_discover E;
     modl (\<lambda>l. l\<lparr>state := dmdhcp_state_selecting\<rparr>);
     interval \<leftarrow> getl retransmit_interval_ms;
     arm_timer retransmit_timer interval }"

definition dmdhcp_output_start_reboot :: "('l, 't) env \<Rightarrow> ('l, unit) lease_monad" where
  "dmdhcp_output_start_reboot E = do {
     x \<leftarrow> call (env_rand32 E) Rand32;
     modl (\<lambda>l. l\<lparr>xid := x\<rparr>);
     modl (\<lambda>l. l\<lparr>retransmit_count := 0\<rparr>);
     modl (\<lambda>l. l\<lparr>retransmit_interval_ms := DMDHCP_RETRANSMIT_INITIAL_MS\<rparr>);
     send_request_reboot E;
     modl (\<lambda>l. l\<lparr>state := dmdhcp_state_rebooting\<rparr>);
     interval \<leftarrow> getl retransmit_interval_ms;
     arm_timer retransmit_timer interval }"

definition dmdhcp_output_start_renew :: "('l, 't) env \<Rightarrow> ('l, unit) lease_monad" where
  "dmdhcp_output_start_renew E = do {
     x \<leftarrow> call (env_rand32 E) Rand32;
     modl (\<lambda>l. l\<lparr>xid := x\<rparr>);
     modl (\<lambda>l. l\<lparr>retransmit_count := 0\<rparr>);
     modl (\<lambda>l. l\<lparr>retransmit_interval_ms := DMDHCP_RETRANSMIT_INITIAL_MS\<rparr>);
     send_request_renew E;
     modl (\<lambda>l. l\<lparr>state := dmdhcp_state_renewing\<rparr>);
     interval \<leftarrow> getl retransmit_interval_ms;
     arm_timer retransmit_timer interval }"

definition dmdhcp_output_start_rebind :: "('l, 't) env \<Rightarrow> ('l, unit) lease_monad" where
  "dmdhcp_output_start_rebind E = do {
     x \<leftarrow> call (env_rand32 E) Rand32;
     modl (\<lambda>l. l\<lparr>xid := x\<rparr>);
     modl (\<lambda>l. l\<lparr>retransmit_count := 0\<rparr>);
     modl (\<lambda>l. l\<lparr>retransmit_interval_ms := DMDHCP_RETRANSMIT_INITIAL_MS\<rparr>);
     send_request_rebind E;
     modl (\<lambda>l. l\<lparr>state := dmdhcp_state_rebinding\<rparr>);
     interval \<leftarrow> getl retransmit_interval_ms;
     arm_timer retransmit_timer interval }"

section \<open>The datagram\<close>

definition message_datagram ::
  "u32 \<Rightarrow> dmnetif_mac_addr_t \<Rightarrow> dmdhcp_msg_type_t \<Rightarrow> dmroute_addr_t option \<Rightarrow> dmroute_addr_t option
     \<Rightarrow> dmroute_addr_t option \<Rightarrow> u8 list option \<Rightarrow> u8 list" where
  "message_datagram x mac msg_type ciaddr requested_ip server_id_option host =
     layout (header_fields (message_header x mac ciaddr))
       (tlv_encode (message_options msg_type requested_ip server_id_option host) @ [DMDHCP_OPT_END])"

lemma message_options_wf: "list_all wf_option (message_options ty req sid host)"
proof -
  have "length name > 255 \<Longrightarrow> unat (of_nat 255 :: u8) = 255" for name :: "u8 list"
    by simp
  moreover have "length name \<le> 255 \<Longrightarrow> unat (of_nat (length name) :: u8) = length name" for name :: "u8 list"
    by (simp add: unat_of_nat)
  ultimately show ?thesis
    by (auto simp: message_options_def addr_option_def wf_option_def opt_bytes_def opt_consts
        requested_def wire_consts split: option.splits)
qed

lemma hostname_bytes:
  "take (unat (of_nat (if length name > 255 then 255 else length name) :: u8)) name = take 255 (name :: u8 list)"
  by (auto simp: unat_of_nat)

lemma length_message_options:
  "length (tlv_encode (message_options ty req sid host)) \<le> 281"
  "length (message_options ty req sid host) \<le> 5"
  by (auto simp: message_options_def addr_option_def opt_bytes_def requested_def wire_consts
      unat_of_nat split: option.splits)

lemma message_header_ok:
  "ipv4_message (message_header x mac ciaddr) \<longleftrightarrow> (\<forall>a. ciaddr = Some a \<longrightarrow> family a \<noteq> dmroute_family_v6)"
  "length (msg_chaddr (message_header x mac ciaddr)) = 16"
  by (auto simp: ipv4_message_def message_header_def wire_consts split: option.splits)

lemma layout_split:
  assumes "length (msg_chaddr m) = 16"
  shows "take 240 (layout (header_fields m) rest) = concat (header_fields m)"
    and "drop 240 (layout (header_fields m) rest) = rest"
  using assms by (simp_all add: layout_def header_fields_def codec_simps)

text \<open>
  With a buffer and a ciaddr that is not IPv6, building and writing never fail: the options
  always fit, and the bytes left in the fresh buffer never reach the wire.
\<close>

lemma send_message_run:
  fixes ty and req sid :: "dmroute_addr_t option" and dst and via
  assumes E: "env_ok E" and ci: "\<forall>a. ciaddr = Some a \<longrightarrow> family a \<noteq> dmroute_family_v6"
    and b: "env_malloc_buffer E (log s @ [Get_mac_address (iface (cur s))]) 576 = Some b"
  defines "mac \<equiv> (case env_get_mac_address E (log s) (iface (cur s)) of
      Some m \<Rightarrow> m | None \<Rightarrow> Mac 0 0 0 0 0 0)"
    and "h \<equiv> log s @ [Get_mac_address (iface (cur s)), Malloc Msg_buffer True]"
  defines "d \<equiv> message_datagram (xid (cur s)) mac ty ciaddr req sid (hostname (cur s))"
  defines "r \<equiv> if via then env_udp_send_on_iface E h (iface (cur s)) dst d else env_udp_send E h dst d"
  shows "run_state (send_message E ty ciaddr req sid dst via) s =
    (r, s\<lparr>log := h @ [if via then Udp_send_on_iface (iface (cur s)) dst 68 67 d 1000 r
                       else Udp_send dst 68 67 d 1000 r, Free Msg_buffer]\<rparr>)"
proof -
  let ?m = "message_header (xid (cur s)) mac ciaddr"
  let ?o = "message_options ty req sid (hostname (cur s))"
  have len: "length b = 576" using malloc_buffer_length [OF E b] .
  have build: "dmdhcp_build_message (Some b) (Some ?m)
      = (Inr (), Some (layout (header_fields ?m) (drop 240 b)))"
    using build_message_layout [of b ?m] len ci by (simp add: message_header_ok)
  have wr: "dmdhcp_options_write (Some (drop 240 b)) (Some ?o) (length ?o) True
      = (Inr (length (tlv_encode ?o) + 1),
         Some (tlv_encode ?o @ DMDHCP_OPT_END # drop (length (tlv_encode ?o) + 1) (drop 240 b)))"
    using options_write_eq [OF message_options_wf [of ty req sid "hostname (cur s)"], of "drop 240 b"]
      length_message_options(1) [of ty req sid "hostname (cur s)"] len by simp
  have hdr: "length (concat (header_fields ?m)) = 240"
    using message_header_ok(2) by (simp add: header_fields_def codec_simps)
  have d: "take (240 + (length (tlv_encode ?o) + 1)) (take 240 (layout (header_fields ?m) (drop 240 b))
        @ tlv_encode ?o @ DMDHCP_OPT_END # junk) = d" for junk
    by (simp add: layout_split [OF message_header_ok(2)] hdr d_def message_datagram_def)
      (simp add: layout_def)
  show ?thesis
    unfolding send_message_def
    using b build wr d
    by (simp add: run_simps wire_consts layout_split [OF message_header_ok(2)] mac_def [symmetric]
        h_def r_def DMDHCP_CLIENT_PORT_def DMDHCP_SERVER_PORT_def DMDHCP_DEFAULT_ARP_TIMEOUT_MS_def
        del: take_append)
qed

text \<open>Every sender leaves the lease alone and gives its buffer back.\<close>

lemma send_message_effect:
  "\<exists>es. exec (send_message E ty ciaddr req sid dst via) s = s\<lparr>log := log s @ es\<rparr> \<and> heap_only 0 es"
proof -
  let ?ifc = "iface (cur s)"
  let ?mac = "case env_get_mac_address E (log s) ?ifc of Some m \<Rightarrow> m | None \<Rightarrow> Mac 0 0 0 0 0 0"
  let ?o = "message_options ty req sid (hostname (cur s))"
  define buffer where "buffer = env_malloc_buffer E (log s @ [Get_mac_address ?ifc]) DMDHCP_MAX_MESSAGE_LEN"
  show ?thesis
  proof (cases buffer)
    case None
    then show ?thesis
      by (simp add: send_message_def buffer_def run_simps heap_only_def)
  next
    case (Some b)
    obtain r1 b1 where build:
      "dmdhcp_build_message buffer (Some (message_header (xid (cur s)) ?mac ciaddr)) = (r1, b1)"
      by fastforce
    obtain r2 b2 where wr:
      "dmdhcp_options_write (map_option (drop (DMDHCP_FIXED_HEADER_LEN + 4)) b1) (Some ?o) (length ?o) True
        = (r2, b2)"
      by fastforce
    note facts = build [unfolded Some] wr Some [unfolded buffer_def]
    show ?thesis
      by (cases r1; cases r2; cases via)
        (simp_all add: send_message_def facts run_simps heap_only_def Let_def)
  qed
qed

lemma sender_effects:
  "\<exists>es. exec (send_discover E) s = s\<lparr>log := log s @ es\<rparr> \<and> heap_only 0 es"
  "\<exists>es. exec (send_request_selecting E) s = s\<lparr>log := log s @ es\<rparr> \<and> heap_only 0 es"
  "\<exists>es. exec (send_request_reboot E) s = s\<lparr>log := log s @ es\<rparr> \<and> heap_only 0 es"
  "\<exists>es. exec (send_request_renew E) s = s\<lparr>log := log s @ es\<rparr> \<and> heap_only 0 es"
  "\<exists>es. exec (send_request_rebind E) s = s\<lparr>log := log s @ es\<rparr> \<and> heap_only 0 es"
  "\<exists>es. exec (send_decline E) s = s\<lparr>log := log s @ es\<rparr> \<and> heap_only 0 es"
  "\<exists>es. exec (dmdhcp_output_send_release E) s = s\<lparr>log := log s @ es\<rparr> \<and> heap_only 0 es"
  using send_message_effect
  by (simp_all add: send_discover_def send_request_selecting_def send_request_reboot_def
      send_request_renew_def send_request_rebind_def send_decline_def
      dmdhcp_output_send_release_def run_simps)

section \<open>Effects of the transitions\<close>

text \<open>The calls that arm a timer.\<close>

abbreviation armed :: "timer_id option \<Rightarrow> u32 \<Rightarrow> history" where
  "armed t period \<equiv> [Timer_set_period t period, Timer_start t]"

lemma heap_only_Rand32 [simp]: "heap_only n (Rand32 x # es) \<longleftrightarrow> heap_only n es"
  by (simp add: heap_only_def)

lemma rearm_backoff_effect [run_simps]:
  "exec rearm_backoff s =
     (let n = next_backoff (retransmit_interval_ms (cur s))
      in s\<lparr>cur := (cur s)\<lparr>retransmit_interval_ms := n\<rparr>, log := log s @ armed (retransmit_timer (cur s)) n\<rparr>)"
  by (simp add: rearm_backoff_def run_simps Let_def)

lemma start_discovery_effect:
  assumes "env_ok E"
  shows "\<exists>x es dns ntp. exec (dmdhcp_output_start_discovery E) s =
      s\<lparr>cur := (cur s)\<lparr>xid := x, offered_ip := addr_none, server_id := addr_none,
           gateway := addr_none, netmask := addr_none, dns_servers := dns, ntp_servers := ntp,
           retransmit_count := 0, retransmit_interval_ms := 4000, state := dmdhcp_state_selecting\<rparr>,
        log := log s @ es @ armed (retransmit_timer (cur s)) 4000\<rparr>
    \<and> heap_only (- int (length (servers_of E (dns_servers (cur s))))
                - int (length (servers_of E (ntp_servers (cur s))))) es
    \<and> emptied E (dns_servers (cur s)) dns \<and> emptied E (ntp_servers (cur s)) ntp"
proof -
  define x where "x = env_rand32 E (log s)"
  define s1 where "s1 = s\<lparr>cur := (cur s)\<lparr>xid := x, offered_ip := addr_none, server_id := addr_none,
      gateway := addr_none, netmask := addr_none\<rparr>, log := log s @ [Rand32 x]\<rparr>"
  obtain e1 dns where d: "exec (dmdhcp_lease_table_clear_dns_servers E) s1
      = s1\<lparr>cur := (cur s1)\<lparr>dns_servers := dns\<rparr>, log := log s1 @ e1\<rparr>"
      "emptied E (dns_servers (cur s1)) dns"
      "heap_only (- int (length (servers_of E (dns_servers (cur s1))))) e1"
    using clear_dns_effect [OF assms] by blast
  define s2 where "s2 = s1\<lparr>cur := (cur s1)\<lparr>dns_servers := dns\<rparr>, log := log s1 @ e1\<rparr>"
  obtain e2 ntp where n: "exec (dmdhcp_lease_table_clear_ntp_servers E) s2
      = s2\<lparr>cur := (cur s2)\<lparr>ntp_servers := ntp\<rparr>, log := log s2 @ e2\<rparr>"
      "emptied E (ntp_servers (cur s2)) ntp"
      "heap_only (- int (length (servers_of E (ntp_servers (cur s2))))) e2"
    using clear_ntp_effect [OF assms] by blast
  define s3 where "s3 = s2\<lparr>cur := (cur s2)\<lparr>ntp_servers := ntp, retransmit_count := 0,
      retransmit_interval_ms := 4000\<rparr>, log := log s2 @ e2\<rparr>"
  obtain e3 where m: "exec (send_discover E) s3 = s3\<lparr>log := log s3 @ e3\<rparr>" "heap_only 0 e3"
    using sender_effects(1) by blast
  have "exec (dmdhcp_output_start_discovery E) s = s3\<lparr>cur := (cur s3)\<lparr>state := dmdhcp_state_selecting\<rparr>,
      log := log s3 @ e3 @ armed (retransmit_timer (cur s)) 4000\<rparr>"
    using d(1) n(1) m(1)
    by (simp add: dmdhcp_output_start_discovery_def run_simps time_consts x_def s1_def s2_def s3_def)
  moreover have "heap_only (- int (length (servers_of E (dns_servers (cur s))))
      - int (length (servers_of E (ntp_servers (cur s))))) (Rand32 x # e1 @ e2 @ e3)"
    using heap_only_append [OF d(3) heap_only_append [OF n(3) m(2)]] by (simp add: s1_def s2_def)
  ultimately show ?thesis
    using d(2) n(2)
    by - (rule exI [of _ x], rule exI [of _ "Rand32 x # e1 @ e2 @ e3"], rule exI [of _ dns], rule exI [of _ ntp],
        simp add: s1_def s2_def s3_def)
qed

text \<open>The other three entries differ in the sender and in the state they enter.\<close>

lemma enter_effect:
  assumes send: "\<And>s. \<exists>es. exec (send :: ('l, result) lease_monad) s = s\<lparr>log := log s @ es\<rparr> \<and> heap_only 0 es"
  shows "\<exists>es. exec (do {
       x \<leftarrow> call (env_rand32 E) Rand32;
       modl (\<lambda>l. l\<lparr>xid := x\<rparr>);
       modl (\<lambda>l. l\<lparr>retransmit_count := 0\<rparr>);
       modl (\<lambda>l. l\<lparr>retransmit_interval_ms := DMDHCP_RETRANSMIT_INITIAL_MS\<rparr>);
       send;
       modl (\<lambda>l. l\<lparr>state := st\<rparr>);
       interval \<leftarrow> getl retransmit_interval_ms;
       arm_timer retransmit_timer interval }) s =
      s\<lparr>cur := (cur s)\<lparr>xid := env_rand32 E (log s), retransmit_count := 0, retransmit_interval_ms := 4000, state := st\<rparr>,
        log := log s @ es @ armed (retransmit_timer (cur s)) 4000\<rparr>
    \<and> heap_only 0 es"
proof -
  define x where "x = env_rand32 E (log s)"
  define s1 where "s1 = s\<lparr>cur := (cur s)\<lparr>xid := x, retransmit_count := 0, retransmit_interval_ms := 4000\<rparr>,
      log := log s @ [Rand32 x]\<rparr>"
  obtain es where "exec send s1 = s1\<lparr>log := log s1 @ es\<rparr>" and "heap_only 0 es"
    using send by blast
  then show ?thesis
    by (intro exI [of _ "Rand32 x # es"]) (simp add: run_simps time_consts x_def s1_def)
qed

lemma start_reboot_effect:
  "\<exists>es. exec (dmdhcp_output_start_reboot E) s =
      s\<lparr>cur := (cur s)\<lparr>xid := env_rand32 E (log s), retransmit_count := 0, retransmit_interval_ms := 4000,
           state := dmdhcp_state_rebooting\<rparr>,
        log := log s @ es @ armed (retransmit_timer (cur s)) 4000\<rparr>
    \<and> heap_only 0 es"
  unfolding dmdhcp_output_start_reboot_def by (rule enter_effect [OF sender_effects(3)])

lemma start_renew_effect:
  "\<exists>es. exec (dmdhcp_output_start_renew E) s =
      s\<lparr>cur := (cur s)\<lparr>xid := env_rand32 E (log s), retransmit_count := 0, retransmit_interval_ms := 4000,
           state := dmdhcp_state_renewing\<rparr>,
        log := log s @ es @ armed (retransmit_timer (cur s)) 4000\<rparr>
    \<and> heap_only 0 es"
  unfolding dmdhcp_output_start_renew_def by (rule enter_effect [OF sender_effects(4)])

lemma start_rebind_effect:
  "\<exists>es. exec (dmdhcp_output_start_rebind E) s =
      s\<lparr>cur := (cur s)\<lparr>xid := env_rand32 E (log s), retransmit_count := 0, retransmit_interval_ms := 4000,
           state := dmdhcp_state_rebinding\<rparr>,
        log := log s @ es @ armed (retransmit_timer (cur s)) 4000\<rparr>
    \<and> heap_only 0 es"
  unfolding dmdhcp_output_start_rebind_def by (rule enter_effect [OF sender_effects(5)])

section \<open>Properties\<close>

lemma unat_next_backoff: "unat c \<le> 64000 \<Longrightarrow> unat (next_backoff c) = min 64000 (2 * unat c)"
  by (simp add: next_backoff_def Let_def time_consts word_less_nat_alt unat_word_ariths)

text \<open>The value a server reads for an option code in a message of the client.\<close>

definition option_value ::
  "dmdhcp_msg_type_t \<Rightarrow> dmroute_addr_t option \<Rightarrow> dmroute_addr_t option \<Rightarrow> u8 list option \<Rightarrow> u8
     \<Rightarrow> u8 list option" where
  "option_value ty req sid host code =
     (if code = 53 then Some [msg_type_code ty]
      else if code = 50 then map_option (\<lambda>a. ipv4_bytes (v4 a)) req
      else if code = 54 then map_option (\<lambda>a. ipv4_bytes (v4 a)) sid
      else if code = 12 then map_option (take 255) host
      else if code = 55 \<and> (ty = dmdhcp_msg_discover \<or> ty = dmdhcp_msg_request)
      then Some [1, 3, 6, 42, 51, 58, 59] else None)"

lemma message_options_lookup:
  "map_of (map (\<lambda>opt. (opt_code opt, opt_bytes opt)) (message_options ty req sid host)) code
     = option_value ty req sid host code"
  by (simp add: message_options_def addr_option_def option_value_def opt_bytes_def opt_consts
      requested_def wire_consts hostname_bytes split: option.splits)

lemma message_datagram_parses:
  fixes x mac ty ci req sid host
  defines "d \<equiv> message_datagram x mac ty ci req sid host"
  shows "dmdhcp_parse_message (Some d) True True = Inr (wire_view (message_header x mac ci), 240)"
    and "found_bytes (drop 240 d) code = option_value ty req sid host code"
    and "length d \<le> DMDHCP_MAX_MESSAGE_LEN"
proof -
  show "dmdhcp_parse_message (Some d) True True = Inr (wire_view (message_header x mac ci), 240)"
    unfolding d_def message_datagram_def by (rule parse_header_layout [OF message_header_ok(2)])
  show "found_bytes (drop 240 d) code = option_value ty req sid host code"
    using tlv_decode_encode [OF message_options_wf, of ty req sid host "[]"] message_options_lookup
    by (simp add: d_def message_datagram_def layout_split [OF message_header_ok(2)] found_bytes_decode)
  show "length d \<le> DMDHCP_MAX_MESSAGE_LEN"
    using length_message_options(1) [of ty req sid host] message_header_ok(2) [of x mac ci]
    by (simp add: d_def message_datagram_def length_layout header_fields_def codec_simps wire_consts)
qed

text \<open>
  The bytes of a message of the client, field by field: op, htype, hlen and hops; xid; secs and flags; the
  four address fields; chaddr; sname and file; the magic cookie; the options in their order; the end mark.
\<close>

definition wire_image ::
  "u32 \<Rightarrow> dmnetif_mac_addr_t \<Rightarrow> dmdhcp_msg_type_t \<Rightarrow> dmroute_addr_t option \<Rightarrow> dmroute_addr_t option
     \<Rightarrow> dmroute_addr_t option \<Rightarrow> u8 list option \<Rightarrow> u8 list" where
  "wire_image x mac ty ci req sid host =
     [1, 1, 6, 0] @ u32_be x @ [0, 0, 0x80, 0]
     @ (case ci of Some a \<Rightarrow> addr_field a | None \<Rightarrow> [0, 0, 0, 0]) @ replicate 12 0
     @ mac_bytes mac @ replicate 10 0 @ replicate 192 0 @ [99, 130, 83, 99]
     @ [53, 1, msg_type_code ty]
     @ (case req of Some a \<Rightarrow> [50, 4] @ ipv4_bytes (v4 a) | None \<Rightarrow> [])
     @ (case sid of Some a \<Rightarrow> [54, 4] @ ipv4_bytes (v4 a) | None \<Rightarrow> [])
     @ (case host of Some name \<Rightarrow> [12, of_nat (min 255 (length name))] @ take 255 name | None \<Rightarrow> [])
     @ (if ty = dmdhcp_msg_discover \<or> ty = dmdhcp_msg_request then [55, 7, 1, 3, 6, 42, 51, 58, 59] else [])
     @ [255]"

lemma message_datagram_image: "message_datagram x mac ty ci req sid host = wire_image x mac ty ci req sid host"
proof -
  have "tlv_encode (message_options ty req sid host) @ [DMDHCP_OPT_END] = [53, 1, msg_type_code ty]
     @ (case req of Some a \<Rightarrow> [50, 4] @ ipv4_bytes (v4 a) | None \<Rightarrow> [])
     @ (case sid of Some a \<Rightarrow> [54, 4] @ ipv4_bytes (v4 a) | None \<Rightarrow> [])
     @ (case host of Some name \<Rightarrow> [12, of_nat (min 255 (length name))] @ take 255 name | None \<Rightarrow> [])
     @ (if ty = dmdhcp_msg_discover \<or> ty = dmdhcp_msg_request then [55, 7, 1, 3, 6, 42, 51, 58, 59] else []) @ [255]"
    by (auto simp: message_options_def addr_option_def opt_bytes_def opt_consts requested_def wire_consts hostname_bytes
        min_def unat_of_nat split: option.splits)
  moreover have "concat (header_fields (message_header x mac ci)) = [1, 1, 6, 0] @ u32_be x @ [0, 0, 0x80, 0]
     @ (case ci of Some a \<Rightarrow> addr_field a | None \<Rightarrow> [0, 0, 0, 0]) @ replicate 12 0
     @ mac_bytes mac @ replicate 10 0 @ replicate 192 0 @ [99, 130, 83, 99]"
  proof -
    have "u32_be DMDHCP_MAGIC_COOKIE = [99, 130, 83, 99]" "u16_be DMDHCP_FLAG_BROADCAST = [0x80, 0]" "u16_be 0 = [0, 0]"
      by (simp_all add: u32_be_def u16_be_def DMDHCP_MAGIC_COOKIE_def DMDHCP_FLAG_BROADCAST_def)
    moreover have "[0, 0, 0, 0] @ [0, 0, 0, 0] @ [0, 0, 0, 0] = replicate 12 (0 :: u8)" by (simp add: numeral_eq_Suc)
    ultimately show ?thesis
      by (simp add: header_fields_def message_header_def wire_consts addr_field_def split: option.splits)
  qed
  ultimately show ?thesis by (simp add: message_datagram_def wire_image_def layout_def)
qed

text \<open>
  C21. What the client puts on the wire. When \<open>send_message()\<close> gets its buffer, its calls are: ask for the MAC
  address, allocate the buffer, hand one datagram to dmudp (from port 68 to port 67, on the lease's interface or routed), free
  the buffer; the lease stays as it is. Every byte of the datagram is given by the lease, the MAC address (zero when the interface has none)
  and the arguments alone, so none of them comes from the fresh buffer: the header of a BOOTREQUEST with the
  broadcast flag, 192 zero bytes for sname and file, the cookie, and the options 53, 50, 54, 12 and 55 in this order, those that apply,
  a host name cut at 255 bytes, with the end mark as the last byte. The datagram
  never exceeds 576 bytes, and the module's own parser and option search read the same fields and
  options back.
\<close>

theorem send_message_wire:
  fixes ty and req sid :: "dmroute_addr_t option" and dst and via
  assumes "env_ok E" and "\<forall>a. ci = Some a \<longrightarrow> family a \<noteq> dmroute_family_v6"
    and "env_malloc_buffer E (log s @ [Get_mac_address (iface (cur s))]) 576 \<noteq> None"
  defines "mac \<equiv> (case env_get_mac_address E (log s) (iface (cur s)) of Some m \<Rightarrow> m | None \<Rightarrow> Mac 0 0 0 0 0 0)"
  defines "d \<equiv> wire_image (xid (cur s)) mac ty ci req sid (hostname (cur s))"
  shows "(\<exists>r. exec (send_message E ty ci req sid dst via) s =
        s\<lparr>log := log s @ [Get_mac_address (iface (cur s)), Malloc Msg_buffer True,
            if via then Udp_send_on_iface (iface (cur s)) dst 68 67 d 1000 r else Udp_send dst 68 67 d 1000 r, Free Msg_buffer]\<rparr>)
    \<and> dmdhcp_parse_message (Some d) True True = Inr
        (\<lparr>msg_op = dmdhcp_op_bootrequest, msg_htype = 1, msg_hlen = 6, msg_hops = 0,
          msg_xid = xid (cur s), msg_secs = 0, msg_flags = DMDHCP_FLAG_BROADCAST,
          msg_ciaddr = as_v4 (case ci of Some a \<Rightarrow> a | None \<Rightarrow> addr_none),
          msg_yiaddr = addr_v4 (0, 0, 0, 0), msg_siaddr = addr_v4 (0, 0, 0, 0),
          msg_giaddr = addr_v4 (0, 0, 0, 0), msg_chaddr = mac_bytes mac @ replicate 10 0\<rparr>, 240)
    \<and> (\<forall>code. found_bytes (drop 240 d) code = option_value ty req sid (hostname (cur s)) code)
    \<and> length d \<le> DMDHCP_MAX_MESSAGE_LEN"
proof -
  from assms(3) obtain b
    where b: "env_malloc_buffer E (log s @ [Get_mac_address (iface (cur s))]) 576 = Some b" by blast
  have d: "d = message_datagram (xid (cur s)) mac ty ci req sid (hostname (cur s))"
    by (simp add: d_def message_datagram_image)
  have view: "wire_view (message_header x mac ci) =
      \<lparr>msg_op = dmdhcp_op_bootrequest, msg_htype = 1, msg_hlen = 6, msg_hops = 0,
       msg_xid = x, msg_secs = 0, msg_flags = DMDHCP_FLAG_BROADCAST,
       msg_ciaddr = as_v4 (case ci of Some a \<Rightarrow> a | None \<Rightarrow> addr_none),
       msg_yiaddr = addr_v4 (0, 0, 0, 0), msg_siaddr = addr_v4 (0, 0, 0, 0),
       msg_giaddr = addr_v4 (0, 0, 0, 0), msg_chaddr = mac_bytes mac @ replicate 10 0\<rparr>" for x
    by (simp add: wire_view_def message_header_def as_v4_def wire_consts)
  show ?thesis
    using send_message_run [OF assms(1,2) b, of ty req sid dst via, folded mac_def, folded d]
      message_datagram_parses [of "xid (cur s)" mac ty ci req sid "hostname (cur s)", folded d]
    by (auto simp: exec_def view)
qed

definition sample_state :: "(dmroute_addr_t list) lctx" where
  "sample_state = \<lparr>self = 7, cur = zero_lease\<lparr>magic := DMDHCP_LEASE_MAGIC,
     lock := Some (Lease_lock 7), iface := Some 1, xid := 0x1234,
     dns_servers := Some [], ntp_servers := Some [],
     retransmit_timer := Some (Retransmit_timer 7), lease_timer := Some (Lease_timer 7),
     hostname := Some [104, 105]\<rparr>, log = []\<rparr>"

theorem send_message_wire_witness:
  "\<exists>r. exec (send_message sample_env dmdhcp_msg_discover None None None limited_broadcast True) sample_state =
      sample_state\<lparr>log := [Get_mac_address (Some 1), Malloc Msg_buffer True,
        Udp_send_on_iface (Some 1) limited_broadcast 68 67
          ([1, 1, 6, 0, 0, 0, 0x12, 0x34, 0, 0, 0x80, 0, 0, 0, 0, 0] @ replicate 12 0 @ [2, 0, 0, 0, 0, 1] @ replicate 10 0 @ replicate 192 0
            @ [99, 130, 83, 99, 53, 1, 1, 12, 2, 104, 105, 55, 7, 1, 3, 6, 42, 51, 58, 59, 255]) 1000 r, Free Msg_buffer]\<rparr>"
proof -
  have "\<forall>a. None = Some a \<longrightarrow> family a \<noteq> dmroute_family_v6"
    "env_malloc_buffer sample_env (log sample_state @ [Get_mac_address (iface (cur sample_state))]) 576 \<noteq> None"
    by (simp_all add: sample_env_def)
  from send_message_wire [OF sample_env_ok this, of dmdhcp_msg_discover None None limited_broadcast True, THEN conjunct1]
  show ?thesis by (simp add: sample_env_def sample_state_def wire_image_def zero_lease_def u32_be_def)
qed

end
