(* ===== verification/Dhcp_Lifecycle.thy ===== *)
theory Dhcp_Lifecycle
  imports Dhcp_Output
begin

text \<open>
  Applying a lease to its interface and taking it back, the lease timer with its three
  deadlines, and the path of a lost lease: \<open>src/dmdhcp_lifecycle.c\<close>. Code that runs with
  the lease's lock held is written as in the source, with the lock calls where the source has
  them; a callback of the application is an event of the log.
\<close>

section \<open>Definitions\<close>

fun broadcast_v4 :: "ipv4 \<Rightarrow> ipv4 \<Rightarrow> ipv4" where
  "broadcast_v4 (a, b, c, d) (m, n, p, q) = (a OR NOT m, b OR NOT n, c OR NOT p, d OR NOT q)"

definition dmdhcp_lifecycle_apply :: "('l, 't) env \<Rightarrow> ('l, result) lease_monad" where
  "dmdhcp_lifecycle_apply E = do {
     ifc \<leftarrow> getl iface;
     mask \<leftarrow> getl netmask;
     result \<leftarrow> call (\<lambda>h. env_set_netmask E h ifc mask) (Set_netmask ifc mask);
     if isl result then State_Monad.return result
     else do {
       ip \<leftarrow> getl offered_ip;
       result \<leftarrow> call (\<lambda>h. env_set_ip_address E h ifc ip) (Set_ip_address ifc ip);
       if isl result then State_Monad.return result
       else do {
         (if family mask = dmroute_family_v4
          then do {
            call (\<lambda>h. env_set_broadcast E h ifc (addr_v4 (broadcast_v4 (v4 ip) (v4 mask))))
              (Set_broadcast ifc (addr_v4 (broadcast_v4 (v4 ip) (v4 mask))));
            State_Monad.return () }
          else State_Monad.return ());
         gw \<leftarrow> getl gateway;
         (if family gw = dmroute_family_v4
          then do {
            emit (Get_name ifc);
            route \<leftarrow> call (\<lambda>h. env_route_add E h gw (env_get_name E ifc))
              (Route_add (addr_v4 (0, 0, 0, 0)) (addr_v4 (0, 0, 0, 0)) gw (env_get_name E ifc)
                 (DMROUTE_DEFAULT_METRIC E));
            modl (\<lambda>l. l\<lparr>default_route := route\<rparr>) }
          else modl (\<lambda>l. l\<lparr>default_route := None\<rparr>));
         modl (\<lambda>l. l\<lparr>iface_configured := True\<rparr>);
         State_Monad.return (Inr ()) } } }"

definition dmdhcp_lifecycle_unapply :: "('l, 't) env \<Rightarrow> ('l, unit) lease_monad" where
  "dmdhcp_lifecycle_unapply E = do {
     configured \<leftarrow> getl iface_configured;
     if \<not> configured then State_Monad.return ()
     else do {
       route \<leftarrow> getl default_route;
       (case route of
          None \<Rightarrow> State_Monad.return ()
        | Some r \<Rightarrow> do {
            emit (Route_remove r);
            modl (\<lambda>l. l\<lparr>default_route := None\<rparr>) });
       ifc \<leftarrow> getl iface;
       call (\<lambda>h. env_set_ip_address E h ifc addr_none) (Set_ip_address ifc addr_none);
       call (\<lambda>h. env_set_netmask E h ifc addr_none) (Set_netmask ifc addr_none);
       call (\<lambda>h. env_set_broadcast E h ifc addr_none) (Set_broadcast ifc addr_none);
       modl (\<lambda>l. l\<lparr>iface_configured := False\<rparr>) } }"

definition t1_period :: "'l lease \<Rightarrow> u32" where
  "t1_period l = (let period_ms = t1_sec l * 1000 in if period_ms = 0 then 1 else period_ms)"

definition dmdhcp_lifecycle_arm_t1 :: "('l, unit) lease_monad" where
  "dmdhcp_lifecycle_arm_t1 = do {
     period_ms \<leftarrow> getl t1_period;
     arm_timer lease_timer period_ms }"

definition t2_period :: "'l lease \<Rightarrow> u32" where
  "t2_period l =
     (let remaining_sec = (if t2_sec l > t1_sec l then t2_sec l - t1_sec l else 1)
      in remaining_sec * 1000)"

definition dmdhcp_lifecycle_arm_t2 :: "('l, unit) lease_monad" where
  "dmdhcp_lifecycle_arm_t2 = do {
     period_ms \<leftarrow> getl t2_period;
     arm_timer lease_timer period_ms }"

definition expiry_period :: "'l lease \<Rightarrow> u32" where
  "expiry_period l =
     (let remaining_sec = (if lease_time_sec l > t2_sec l then lease_time_sec l - t2_sec l else 1)
      in remaining_sec * 1000)"

definition dmdhcp_lifecycle_arm_expiry :: "('l, unit) lease_monad" where
  "dmdhcp_lifecycle_arm_expiry = do {
     period_ms \<leftarrow> getl expiry_period;
     arm_timer lease_timer period_ms }"

text \<open>
  \<open>dmdhcp_lifecycle_handle_lost()\<close> holds the lock in two separate sections, with the callback
  between them; the sections are definitions of their own, because other threads can run
  between them.
\<close>

definition handle_lost_teardown :: "('l, 't) env \<Rightarrow> ('l, fn_ptr option \<times> void_ptr) lease_monad" where
  "handle_lost_teardown E = do {
     lock_lease;
     dmdhcp_lifecycle_unapply E;
     dmdhcp_lease_table_clear_ntp_servers E;
     on_expired \<leftarrow> getl (\<lambda>l. on_expired_or_lost (callbacks l));
     ud \<leftarrow> getl user_data;
     unlock_lease;
     State_Monad.return (on_expired, ud) }"

definition handle_lost_restart :: "('l, 't) env \<Rightarrow> ('l, unit) lease_monad" where
  "handle_lost_restart E = do {
     lock_lease;
     dmdhcp_output_start_discovery E;
     unlock_lease }"

definition dmdhcp_lifecycle_handle_lost :: "('l, 't) env \<Rightarrow> ('l, unit) lease_monad" where
  "dmdhcp_lifecycle_handle_lost E = do {
     (on_expired, ud) \<leftarrow> handle_lost_teardown E;
     p \<leftarrow> getself;
     (case on_expired of
        None \<Rightarrow> State_Monad.return ()
      | Some f \<Rightarrow> emit (Call_on_expired f p ud));
     handle_lost_restart E }"

definition lease_timer_callback :: "('l, 't) env \<Rightarrow> ('l, unit) lease_monad" where
  "lease_timer_callback E = do {
     m \<leftarrow> getl magic;
     if m \<noteq> DMDHCP_LEASE_MAGIC then State_Monad.return ()
     else do {
       lock_lease;
       st \<leftarrow> getl state;
       if st = dmdhcp_state_bound
       then do {
         dmdhcp_output_start_renew E;
         dmdhcp_lifecycle_arm_t2;
         unlock_lease }
       else if st = dmdhcp_state_renewing
       then do {
         dmdhcp_output_start_rebind E;
         dmdhcp_lifecycle_arm_expiry;
         unlock_lease }
       else if st = dmdhcp_state_rebinding
       then do {
         unlock_lease;
         dmdhcp_lifecycle_handle_lost E }
       else unlock_lease } }"

definition dmdhcp_lifecycle_create_lease_timer :: "('l, 't) env \<Rightarrow> ('l, timer_id option) lease_monad" where
  "dmdhcp_lifecycle_create_lease_timer E = do {
     p \<leftarrow> getself;
     ok \<leftarrow> call (\<lambda>h. env_timer_create E h (Lease_timer p))
             (Timer_create (Lease_timer p) DMDHCP_RETRANSMIT_INITIAL_MS);
     State_Monad.return (if ok then Some (Lease_timer p) else None) }"

section \<open>Effects\<close>

lemma arm_lease_timer_effects [run_simps]:
  "exec dmdhcp_lifecycle_arm_t1 s = s\<lparr>log := log s @ armed (lease_timer (cur s)) (t1_period (cur s))\<rparr>"
  "exec dmdhcp_lifecycle_arm_t2 s = s\<lparr>log := log s @ armed (lease_timer (cur s)) (t2_period (cur s))\<rparr>"
  "exec dmdhcp_lifecycle_arm_expiry s
     = s\<lparr>log := log s @ armed (lease_timer (cur s)) (expiry_period (cur s))\<rparr>"
  by (simp_all add: dmdhcp_lifecycle_arm_t1_def dmdhcp_lifecycle_arm_t2_def
      dmdhcp_lifecycle_arm_expiry_def run_simps)

text \<open>Calls that configure interfaces and routes: only the network monitor reacts to them.\<close>

fun net_call :: "event \<Rightarrow> bool" where
  "net_call (Set_netmask _ _ _) = True"
| "net_call (Set_ip_address _ _ _) = True"
| "net_call (Set_broadcast _ _ _) = True"
| "net_call (Route_add _ _ _ _ _ _) = True"
| "net_call (Route_remove _) = True"
| "net_call (Get_name _) = True"
| "net_call _ = False"

lemma net_calls_unobserved [simp]:
  "list_all net_call es \<Longrightarrow> observe timer_step t es = t"
  "list_all net_call es \<Longrightarrow> observe lock_step h es = h"
  "list_all net_call es \<Longrightarrow> observe live_step L es = L"
  "list_all net_call es \<Longrightarrow> balance k es = 0"
proof -
  have "net_call e \<Longrightarrow> timer_step t e = t" and "net_call e \<Longrightarrow> lock_step h e = h"
    and "net_call e \<Longrightarrow> live_step L e = L" and "net_call e \<Longrightarrow> delta k e = 0" for e t h L
    by (cases e; cases h; simp)+
  then show "list_all net_call es \<Longrightarrow> observe timer_step t es = t"
    and "list_all net_call es \<Longrightarrow> observe lock_step h es = h"
    and "list_all net_call es \<Longrightarrow> observe live_step L es = L"
    and "list_all net_call es \<Longrightarrow> balance k es = 0"
    by (induction es arbitrary: t h L) simp_all
qed

text \<open>A platform on which the interface and route calls succeed.\<close>

definition netif_up :: "('l, 't) env \<Rightarrow> bool" where
  "netif_up E \<longleftrightarrow> (\<forall>h i a. env_set_netmask E h i a = Inr () \<and> env_set_ip_address E h i a = Inr ()
     \<and> env_set_broadcast E h i a = Inr ()) \<and> (\<forall>h g n. env_route_add E h g n \<noteq> None)"

lemma netif_upD:
  assumes "netif_up E"
  shows "env_set_netmask E h i a = Inr ()" "env_set_ip_address E h i a = Inr ()"
    "env_set_broadcast E h i a = Inr ()" "\<exists>r. env_route_add E h g nm = Some r"
  using assms by (auto simp: netif_up_def)

text \<open>The calls of an application that succeeds.\<close>

definition apply_calls :: "('l, 't) env \<Rightarrow> 'l lease \<Rightarrow> dmroute_route_t option \<Rightarrow> history" where
  "apply_calls E l r =
     [Set_netmask (iface l) (netmask l) (Inr ()),
     Set_ip_address (iface l) (offered_ip l) (Inr ())]
   @ (if family (netmask l) = dmroute_family_v4
      then [Set_broadcast (iface l)
              (addr_v4 (broadcast_v4 (v4 (offered_ip l)) (v4 (netmask l)))) (Inr ())]
      else [])
   @ (if family (gateway l) = dmroute_family_v4
      then [Get_name (iface l),
            Route_add (addr_v4 (0, 0, 0, 0)) (addr_v4 (0, 0, 0, 0)) (gateway l)
              (env_get_name E (iface l)) (DMROUTE_DEFAULT_METRIC E) r]
      else [])"

lemma apply_effect_any:
  "\<exists>es r ok. exec (dmdhcp_lifecycle_apply E) s =
      s\<lparr>cur := (cur s)\<lparr>default_route := r, iface_configured := ok\<rparr>, log := log s @ es\<rparr>
    \<and> list_all net_call es \<and> (iface_configured (cur s) \<longrightarrow> ok) \<and> (r \<noteq> None \<longrightarrow> ok \<or> r = default_route (cur s))"
proof -
  define r1 where "r1 = env_set_netmask E (log s) (iface (cur s)) (netmask (cur s))"
  define r2 where "r2 = env_set_ip_address E (log s @ [Set_netmask (iface (cur s)) (netmask (cur s)) r1])
      (iface (cur s)) (offered_ip (cur s))"
  have same: "s\<lparr>log := x\<rparr> = s\<lparr>cur := (cur s)\<lparr>default_route := default_route (cur s),
      iface_configured := iface_configured (cur s)\<rparr>, log := x\<rparr>" for x
    by simp
  consider "isl r1" | "\<not> isl r1" "isl r2" | "\<not> isl r1" "\<not> isl r2" by blast
  then show ?thesis
  proof cases
    case 1
    then have "exec (dmdhcp_lifecycle_apply E) s = s\<lparr>log := log s @ [Set_netmask (iface (cur s)) (netmask (cur s)) r1]\<rparr>"
      by (simp add: dmdhcp_lifecycle_apply_def run_simps r1_def)
    then show ?thesis by (subst (asm) same) (fastforce simp: run_simps)
  next
    case 2
    then have "exec (dmdhcp_lifecycle_apply E) s = s\<lparr>log := log s @ [Set_netmask (iface (cur s)) (netmask (cur s)) r1,
        Set_ip_address (iface (cur s)) (offered_ip (cur s)) r2]\<rparr>"
      by (simp add: dmdhcp_lifecycle_apply_def run_simps r1_def r2_def)
    then show ?thesis by (subst (asm) same) (fastforce simp: run_simps)
  next
    case 3
    then show ?thesis
      by (auto simp: dmdhcp_lifecycle_apply_def run_simps r1_def [symmetric] r2_def [symmetric])
  qed
qed

lemma apply_up:
  assumes "netif_up E"
  shows "\<exists>r. exec (dmdhcp_lifecycle_apply E) s =
      s\<lparr>cur := (cur s)\<lparr>default_route := r, iface_configured := True\<rparr>,
        log := log s @ apply_calls E (cur s) r\<rparr>
    \<and> (r \<noteq> None \<longleftrightarrow> family (gateway (cur s)) = dmroute_family_v4)"
proof -
  note up = netif_upD(1-3) [OF assms]
  note route = netif_upD(4) [OF assms]
  show ?thesis
    by (cases "family (netmask (cur s)) = dmroute_family_v4";
        cases "family (gateway (cur s)) = dmroute_family_v4")
      (simp_all add: dmdhcp_lifecycle_apply_def run_simps up route apply_calls_def)
qed

lemma apply_effect:
  "\<exists>es r ok. exec (dmdhcp_lifecycle_apply E) s =
      s\<lparr>cur := (cur s)\<lparr>default_route := r, iface_configured := ok\<rparr>, log := log s @ es\<rparr>
    \<and> list_all net_call es \<and> (iface_configured (cur s) \<longrightarrow> ok) \<and> (r \<noteq> None \<longrightarrow> ok \<or> r = default_route (cur s))
    \<and> (netif_up E \<longrightarrow> ok \<and> es = apply_calls E (cur s) r \<and> (r \<noteq> None \<longleftrightarrow> family (gateway (cur s)) = dmroute_family_v4))"
proof (cases "netif_up E")
  case True
  moreover have "list_all net_call (apply_calls E (cur s) r)" for r by (simp add: apply_calls_def)
  ultimately show ?thesis using apply_up [OF True, of s] by blast
next
  case False
  then show ?thesis using apply_effect_any [of E s] by simp
qed

lemma unapply_effect:
  "\<exists>es. exec (dmdhcp_lifecycle_unapply E) s =
      s\<lparr>cur := (cur s)\<lparr>default_route := (if iface_configured (cur s) then None else default_route (cur s)),
           iface_configured := False\<rparr>, log := log s @ es\<rparr>
    \<and> list_all net_call es"
proof (cases "iface_configured (cur s)")
  case True
  then show ?thesis
    by (cases "default_route (cur s)") (auto simp: dmdhcp_lifecycle_unapply_def run_simps)
next
  case False
  then have "(cur s)\<lparr>default_route := default_route (cur s), iface_configured := False\<rparr> = cur s"
    by simp
  with False show ?thesis
    by - (rule exI [of _ "[]"], simp add: dmdhcp_lifecycle_unapply_def run_simps)
qed

lemma handle_lost_teardown_effect:
  assumes "env_ok E"
  shows "\<exists>es fs ntp. run_state (handle_lost_teardown E) s =
      ((on_expired_or_lost (callbacks (cur s)), user_data (cur s)),
       s\<lparr>cur := (cur s)\<lparr>default_route := (if iface_configured (cur s) then None else default_route (cur s)),
            iface_configured := False, ntp_servers := ntp\<rparr>,
         log := log s @ Mutex_lock (lock (cur s)) # es @ fs @ [Mutex_unlock (lock (cur s))]\<rparr>)
    \<and> list_all net_call es \<and> heap_only (- int (length (servers_of E (ntp_servers (cur s))))) fs
    \<and> emptied E (ntp_servers (cur s)) ntp"
proof -
  define s1 where "s1 = s\<lparr>log := log s @ [Mutex_lock (lock (cur s))]\<rparr>"
  obtain es where u: "exec (dmdhcp_lifecycle_unapply E) s1 =
      s1\<lparr>cur := (cur s1)\<lparr>default_route := (if iface_configured (cur s1) then None else default_route (cur s1)),
           iface_configured := False\<rparr>, log := log s1 @ es\<rparr>" "list_all net_call es"
    using unapply_effect by blast
  let ?s2 = "exec (dmdhcp_lifecycle_unapply E) s1"
  obtain fs ntp where c: "exec (dmdhcp_lease_table_clear_ntp_servers E) ?s2
      = ?s2\<lparr>cur := (cur ?s2)\<lparr>ntp_servers := ntp\<rparr>, log := log ?s2 @ fs\<rparr>"
      "emptied E (ntp_servers (cur ?s2)) ntp"
      "heap_only (- int (length (servers_of E (ntp_servers (cur ?s2))))) fs"
    using clear_ntp_effect [OF assms] by blast
  show ?thesis
    using c u
    by - (rule exI [of _ es], rule exI [of _ fs], rule exI [of _ ntp],
        simp add: handle_lost_teardown_def run_simps s1_def)
qed

lemma handle_lost_restart_effect:
  assumes "env_ok E"
  shows "\<exists>x es dns ntp. exec (handle_lost_restart E) s =
      s\<lparr>cur := (cur s)\<lparr>xid := x, offered_ip := addr_none, server_id := addr_none,
           gateway := addr_none, netmask := addr_none, dns_servers := dns, ntp_servers := ntp,
           retransmit_count := 0, retransmit_interval_ms := 4000, state := dmdhcp_state_selecting\<rparr>,
        log := log s @ Mutex_lock (lock (cur s)) # es @ armed (retransmit_timer (cur s)) 4000
          @ [Mutex_unlock (lock (cur s))]\<rparr>
    \<and> heap_only (- int (length (servers_of E (dns_servers (cur s))))
                - int (length (servers_of E (ntp_servers (cur s))))) es
    \<and> emptied E (dns_servers (cur s)) dns \<and> emptied E (ntp_servers (cur s)) ntp"
proof -
  let ?s1 = "s\<lparr>log := log s @ [Mutex_lock (lock (cur s))]\<rparr>"
  obtain x es dns ntp where "exec (dmdhcp_output_start_discovery E) ?s1 =
      ?s1\<lparr>cur := (cur ?s1)\<lparr>xid := x, offered_ip := addr_none, server_id := addr_none,
           gateway := addr_none, netmask := addr_none, dns_servers := dns, ntp_servers := ntp,
           retransmit_count := 0, retransmit_interval_ms := 4000, state := dmdhcp_state_selecting\<rparr>,
        log := log ?s1 @ es @ armed (retransmit_timer (cur ?s1)) 4000\<rparr>"
    "heap_only (- int (length (servers_of E (dns_servers (cur ?s1))))
                - int (length (servers_of E (ntp_servers (cur ?s1))))) es"
    "emptied E (dns_servers (cur ?s1)) dns" "emptied E (ntp_servers (cur ?s1)) ntp"
    using start_discovery_effect [OF assms, of ?s1] by blast
  then show ?thesis
    by - (rule exI [of _ x], rule exI [of _ es], rule exI [of _ dns], rule exI [of _ ntp],
        simp add: handle_lost_restart_def run_simps)
qed

lemma emptied_trans: "emptied E c d \<Longrightarrow> emptied E d e \<Longrightarrow> emptied E c e"
  by (simp add: emptied_def)

definition expired_call :: "'l lctx \<Rightarrow> history" where
  "expired_call s = (case on_expired_or_lost (callbacks (cur s)) of
     None \<Rightarrow> [] | Some f \<Rightarrow> [Call_on_expired f (self s) (user_data (cur s))])"

lemma handle_lost_effect:
  assumes "env_ok E"
  shows "\<exists>x es fs gs dns ntp. exec (dmdhcp_lifecycle_handle_lost E) s =
      s\<lparr>cur := (cur s)\<lparr>default_route := (if iface_configured (cur s) then None else default_route (cur s)),
           iface_configured := False, xid := x, offered_ip := addr_none, server_id := addr_none,
           gateway := addr_none, netmask := addr_none, dns_servers := dns, ntp_servers := ntp,
           retransmit_count := 0, retransmit_interval_ms := 4000, state := dmdhcp_state_selecting\<rparr>,
        log := log s @ Mutex_lock (lock (cur s)) # es @ fs @ Mutex_unlock (lock (cur s)) # expired_call s
          @ Mutex_lock (lock (cur s)) # gs @ armed (retransmit_timer (cur s)) 4000
          @ [Mutex_unlock (lock (cur s))]\<rparr>
    \<and> list_all net_call es \<and> heap_only (- int (length (servers_of E (ntp_servers (cur s))))) fs
    \<and> heap_only (- int (length (servers_of E (dns_servers (cur s))))) gs
    \<and> emptied E (dns_servers (cur s)) dns \<and> emptied E (ntp_servers (cur s)) ntp"
proof -
  let ?m = "lock (cur s)"
  obtain es fs n where t: "run_state (handle_lost_teardown E) s =
      ((on_expired_or_lost (callbacks (cur s)), user_data (cur s)),
       s\<lparr>cur := (cur s)\<lparr>default_route := (if iface_configured (cur s) then None else default_route (cur s)),
            iface_configured := False, ntp_servers := n\<rparr>,
         log := log s @ Mutex_lock ?m # es @ fs @ [Mutex_unlock ?m]\<rparr>)"
    "list_all net_call es" "heap_only (- int (length (servers_of E (ntp_servers (cur s))))) fs"
    "emptied E (ntp_servers (cur s)) n"
    using handle_lost_teardown_effect [OF assms] by blast
  define s1 where "s1 = s\<lparr>cur := (cur s)\<lparr>default_route := (if iface_configured (cur s) then None else default_route (cur s)),
            iface_configured := False, ntp_servers := n\<rparr>,
         log := log s @ Mutex_lock ?m # es @ fs @ Mutex_unlock ?m # expired_call s\<rparr>"
  have lost: "exec (dmdhcp_lifecycle_handle_lost E) s = exec (handle_lost_restart E) s1"
    by (cases "on_expired_or_lost (callbacks (cur s))")
      (simp_all add: dmdhcp_lifecycle_handle_lost_def run_simps t(1) exec_def [of "handle_lost_teardown E"]
        s1_def expired_call_def)
  obtain x gs dns ntp where r: "exec (handle_lost_restart E) s1 =
      s1\<lparr>cur := (cur s1)\<lparr>xid := x, offered_ip := addr_none, server_id := addr_none,
           gateway := addr_none, netmask := addr_none, dns_servers := dns, ntp_servers := ntp,
           retransmit_count := 0, retransmit_interval_ms := 4000, state := dmdhcp_state_selecting\<rparr>,
        log := log s1 @ Mutex_lock (lock (cur s1)) # gs @ armed (retransmit_timer (cur s1)) 4000
          @ [Mutex_unlock (lock (cur s1))]\<rparr>"
    "heap_only (- int (length (servers_of E (dns_servers (cur s1))))
                - int (length (servers_of E (ntp_servers (cur s1))))) gs"
    "emptied E (dns_servers (cur s1)) dns" "emptied E (ntp_servers (cur s1)) ntp"
    using handle_lost_restart_effect [OF assms] by blast
  have "servers_of E n = []" using t(4) by (simp add: emptied_def)
  with r(2) have gs: "heap_only (- int (length (servers_of E (dns_servers (cur s))))) gs"
    by (simp add: s1_def)
  have empt: "emptied E (dns_servers (cur s)) dns" "emptied E (ntp_servers (cur s)) ntp"
    using r(3,4) t(4) by (auto simp: s1_def intro: emptied_trans)
  show ?thesis
    by - (rule exI [of _ x], rule exI [of _ es], rule exI [of _ fs], rule exI [of _ gs],
        rule exI [of _ dns], rule exI [of _ ntp],
        simp add: lost r(1) t(2,3) gs empt, simp add: s1_def)
qed

section \<open>Properties of applying a lease\<close>

abbreviation net :: "netcfg \<Rightarrow> 'l lctx \<Rightarrow> netcfg" where
  "net n s \<equiv> observe net_step n (log s)"

lemma apply_up_gateway:
  assumes "netif_up E" and "family (gateway (cur s)) = dmroute_family_v4"
  obtains r where "exec (dmdhcp_lifecycle_apply E) s =
      s\<lparr>cur := (cur s)\<lparr>default_route := Some r, iface_configured := True\<rparr>,
        log := log s @ apply_calls E (cur s) (Some r)\<rparr>"
  using apply_up [OF assms(1), of s] assms(2) by blast

lemma unapply_up:
  assumes "netif_up E" and conf: "iface_configured (cur s)"
  shows "exec (dmdhcp_lifecycle_unapply E) s =
      s\<lparr>cur := (cur s)\<lparr>default_route := None, iface_configured := False\<rparr>,
        log := log s @ (case default_route (cur s) of None \<Rightarrow> [] | Some r \<Rightarrow> [Route_remove r])
          @ [Set_ip_address (iface (cur s)) addr_none (Inr ()), Set_netmask (iface (cur s)) addr_none (Inr ()),
             Set_broadcast (iface (cur s)) addr_none (Inr ())]\<rparr>"
proof (cases "default_route (cur s)")
  case None
  then have "(cur s)\<lparr>iface_configured := False\<rparr> = (cur s)\<lparr>default_route := None, iface_configured := False\<rparr>"
    by simp
  with None conf show ?thesis
    by (simp add: dmdhcp_lifecycle_unapply_def run_simps netif_upD(1-3) [OF assms(1)])
next
  case (Some r)
  with conf show ?thesis
    by (simp add: dmdhcp_lifecycle_unapply_def run_simps netif_upD(1-3) [OF assms(1)])
qed

text \<open>
  C24. On a platform whose interface calls succeed, applying a lease gives the interface the offered address, the netmask and, when there is a
  netmask, the broadcast address; it installs one default route exactly when a gateway was
  offered. Taking the lease back clears all three addresses, leaves every other interface
  as it was, and removes exactly the route that was installed.
\<close>

theorem apply_unapply_net:
  assumes "netif_up E"
  defines "apply \<equiv> exec (dmdhcp_lifecycle_apply E)" and "unapply \<equiv> exec (dmdhcp_lifecycle_unapply E)"
  shows "let l = cur s; l1 = cur (apply s); n1 = net n (apply s); n2 = net n (unapply (apply s)) in
      ifs n1 = (ifs (net n s))(iface l := \<lparr>if_ip = offered_ip l, if_netmask = netmask l,
        if_broadcast = (if family (netmask l) = dmroute_family_v4
          then addr_v4 (broadcast_v4 (v4 (offered_ip l)) (v4 (netmask l)))
          else if_broadcast (ifs (net n s) (iface l)))\<rparr>)
    \<and> routes n1 = (case default_route l1 of None \<Rightarrow> [] | Some r \<Rightarrow> [r]) @ routes (net n s)
    \<and> (default_route l1 \<noteq> None \<longleftrightarrow> family (gateway l) = dmroute_family_v4) \<and> iface_configured l1
    \<and> ifs n2 = (ifs (net n s))(iface l := \<lparr>if_ip = addr_none, if_netmask = addr_none, if_broadcast = addr_none\<rparr>)
    \<and> routes n2 = routes (net n s) \<and> \<not> iface_configured (cur (unapply (apply s)))"
proof -
  obtain r where a: "exec (dmdhcp_lifecycle_apply E) s =
      s\<lparr>cur := (cur s)\<lparr>default_route := r, iface_configured := True\<rparr>,
        log := log s @ apply_calls E (cur s) r\<rparr>"
    and r: "r \<noteq> None \<longleftrightarrow> family (gateway (cur s)) = dmroute_family_v4"
    using apply_up [OF assms(1)] by blast
  have "iface_configured (cur (exec (dmdhcp_lifecycle_apply E) s))"
    by (simp add: a)
  note u = unapply_up [OF assms(1) this]
  show ?thesis
    unfolding apply_def unapply_def Let_def u
    using r by (cases r) (auto simp: a apply_calls_def)
qed

lemma sample_netif_up: "netif_up sample_env"
  by (simp add: netif_up_def sample_env_def)

definition sample_bound :: "(dmroute_addr_t list) lctx" where
  "sample_bound = sample_state\<lparr>cur := (cur sample_state)\<lparr>state := dmdhcp_state_bound,
     offered_ip := addr_v4 (192, 168, 1, 42), netmask := addr_v4 (255, 255, 255, 0),
     gateway := addr_v4 (192, 168, 1, 1), server_id := addr_v4 (192, 168, 1, 1),
     lease_time_sec := 3600, t1_sec := 1800, t2_sec := 3150\<rparr>\<rparr>"

definition no_net :: netcfg where
  "no_net = \<lparr>ifs = (\<lambda>_. \<lparr>if_ip = addr_none, if_netmask = addr_none, if_broadcast = addr_none\<rparr>), routes = []\<rparr>"

theorem apply_unapply_net_witness:
  "if_broadcast (ifs (net no_net (exec (dmdhcp_lifecycle_apply sample_env) sample_bound)) (Some 1))
      = addr_v4 (192, 168, 1, 255)
   \<and> routes (net no_net (exec (dmdhcp_lifecycle_unapply sample_env)
        (exec (dmdhcp_lifecycle_apply sample_env) sample_bound))) = []"
  using apply_unapply_net [OF sample_netif_up, of sample_bound no_net]
  by (simp add: Let_def sample_bound_def sample_state_def no_net_def)

text \<open>
  A renewal applies the lease a second time without removing the route of the first time:
  when the lease is then taken back, the first route is still installed. (dmroute may merge
  equal routes by itself; the module no longer knows the handle.)
\<close>

lemma second_apply_keeps_route:
  assumes "netif_up E" and gw: "family (gateway (cur s)) = dmroute_family_v4"
  defines "apply \<equiv> exec (dmdhcp_lifecycle_apply E)" and "unapply \<equiv> exec (dmdhcp_lifecycle_unapply E)"
  shows "\<exists>r. default_route (cur (apply s)) = Some r
    \<and> routes (net n (unapply (apply (apply s)))) = r # routes (net n s)"
proof -
  define s1 where "s1 = apply s"
  obtain r1 where a1: "s1 = s\<lparr>cur := (cur s)\<lparr>default_route := Some r1, iface_configured := True\<rparr>,
      log := log s @ apply_calls E (cur s) (Some r1)\<rparr>"
    using apply_up_gateway [OF assms(1) gw] unfolding apply_def s1_def by blast
  then have "family (gateway (cur s1)) = dmroute_family_v4" using gw by simp
  then obtain r2 where a2: "apply s1 = s1\<lparr>cur := (cur s1)\<lparr>default_route := Some r2,
      iface_configured := True\<rparr>, log := log s1 @ apply_calls E (cur s1) (Some r2)\<rparr>"
    using apply_up_gateway [OF assms(1)] unfolding apply_def by blast
  then have "iface_configured (cur (apply s1))" by simp
  note u = unapply_up [OF assms(1) this]
  have "routes (net n (unapply (apply s1))) = routes (net n s1)"
    unfolding unapply_def u unfolding a2
    using \<open>family (gateway (cur s1)) = dmroute_family_v4\<close> by (simp add: apply_calls_def)
  moreover have "routes (net n s1) = r1 # routes (net n s)" and "default_route (cur s1) = Some r1"
    using gw by (simp_all add: a1 apply_calls_def)
  ultimately show ?thesis by (simp add: s1_def)
qed

section \<open>Properties of the lease timer\<close>

lemma unat_times_1000: "unat (a * 1000 :: u32) = unat a * 1000 mod 2 ^ 32"
  by (simp add: unat_word_ariths)

text \<open>
  The three periods of the lease timer follow each other: for deadlines in the order
  0 < T1 < T2 < lease time and a lease time below 4294968 seconds (about 49.7 days),
  T1 is armed for T1 seconds, the second period ends at T2 and the third one at the lease time,
  in milliseconds and without wrap-around.
\<close>

lemma lease_timer_periods:
  assumes "0 < t1_sec l" and "t1_sec l < t2_sec l" and "t2_sec l < lease_time_sec l"
    and "unat (lease_time_sec l) \<le> 4294967"
  shows "unat (t1_period l) = 1000 * unat (t1_sec l)
    \<and> unat (t1_period l) + unat (t2_period l) = 1000 * unat (t2_sec l)
    \<and> unat (t1_period l) + unat (t2_period l) + unat (expiry_period l) = 1000 * unat (lease_time_sec l)"
proof -
  have lt: "0 < unat (t1_sec l)" "unat (t1_sec l) < unat (t2_sec l)" "unat (t2_sec l) < unat (lease_time_sec l)"
    using assms(1-3) by (simp_all add: word_less_nat_alt unat_gt_0)
  have sub: "unat (t2_sec l - t1_sec l) = unat (t2_sec l) - unat (t1_sec l)"
      "unat (lease_time_sec l - t2_sec l) = unat (lease_time_sec l) - unat (t2_sec l)"
    using assms(2,3) by (simp_all add: unat_sub)
  have t1: "unat (t1_sec l * 1000) = unat (t1_sec l) * 1000"
    using lt assms(4) by (simp add: unat_times_1000)
  with lt have "t1_sec l * 1000 \<noteq> 0"
    by (metis mult_is_0 not_less_zero unat_0 zero_neq_numeral nat_less_le)
  then have 1: "unat (t1_period l) = 1000 * unat (t1_sec l)"
    using t1 by (simp add: t1_period_def Let_def)
  have 2: "unat (t2_period l) = (unat (t2_sec l) - unat (t1_sec l)) * 1000"
    using lt assms(2,4) sub(1) unat_times_1000 [of "t2_sec l - t1_sec l"]
    by (simp add: t2_period_def Let_def del: left_diff_distrib_numeral)
  have 3: "unat (expiry_period l) = (unat (lease_time_sec l) - unat (t2_sec l)) * 1000"
    using lt assms(3,4) sub(2) unat_times_1000 [of "lease_time_sec l - t2_sec l"]
    by (simp add: expiry_period_def Let_def del: left_diff_distrib_numeral)
  show ?thesis unfolding 1 2 3 using lt by linarith
qed

text \<open>
  C40. The period for T1 is computed in 32 bits: it is 1000 * T1 modulo \<open>2 ^ 32\<close>, and 1 when that is
  zero. From 4294968 seconds on it is shorter than T1, so a long lease is renewed early
  (4294968 seconds give 704 milliseconds).
\<close>

theorem t1_period_wraps:
  "unat (t1_period l) = (let p = 1000 * unat (t1_sec l) mod 2 ^ 32 in if p = 0 then 1 else p)
   \<and> (unat (t1_sec l) \<ge> 4294968 \<longrightarrow> unat (t1_period l) < 1000 * unat (t1_sec l))
   \<and> (t1_sec l = 4294968 \<longrightarrow> unat (t1_period l) = 704)"
proof -
  have p: "unat (t1_period l) = (let p = 1000 * unat (t1_sec l) mod 2 ^ 32 in if p = 0 then 1 else p)"
    by (simp add: t1_period_def Let_def unat_times_1000 word_unat_eq_iff mult.commute)
  have "1000 * unat (t1_sec l) mod 2 ^ 32 < 2 ^ 32" by simp
  then have "unat (t1_sec l) \<ge> 4294968 \<longrightarrow> unat (t1_period l) < 1000 * unat (t1_sec l)"
    unfolding p Let_def by auto
  moreover have "t1_sec l = 4294968 \<longrightarrow> unat (t1_period l) = 704"
    unfolding p by simp
  ultimately show ?thesis using p by blast
qed

theorem t1_period_wraps_witness:
  "unat (t1_period ((cur sample_bound)\<lparr>t1_sec := 4294968\<rparr>)) = 704"
  using t1_period_wraps [of "(cur sample_bound)\<lparr>t1_sec := 4294968\<rparr>"] by simp

end
