(* ===== verification/Dhcp_Conflict.thy ===== *)
theory Dhcp_Conflict
  imports Dhcp_Lifecycle
begin

text \<open>
  The ARP conflict probe, DHCPDECLINE and the callback of the retransmission timer: the second
  half of \<open>src/dmdhcp_output.c\<close>. The callbacks run with the pointer that was passed when the
  timer was created, which is never NULL; the magic check is kept.
\<close>

section \<open>Definitions\<close>

definition handle_conflict :: "('l, 't) env \<Rightarrow> ('l, unit) lease_monad" where
  "handle_conflict E = do {
     send_decline E;
     modl (\<lambda>l. l\<lparr>decline_retry_count := decline_retry_count l + 1\<rparr>);
     n \<leftarrow> getl decline_retry_count;
     if n > DMDHCP_MAX_DECLINE_RETRIES
     then do {
       modl (\<lambda>l. l\<lparr>state := dmdhcp_state_failed\<rparr>);
       handler \<leftarrow> getl (\<lambda>l. on_error (callbacks l));
       ud \<leftarrow> getl user_data;
       p \<leftarrow> getself;
       unlock_lease;
       (case handler of
          None \<Rightarrow> State_Monad.return ()
        | Some f \<Rightarrow> emit (Call_on_error f p EADDRINUSE ud));
       lock_lease }
     else do {
       modl (\<lambda>l. l\<lparr>state := dmdhcp_state_declining\<rparr>);
       arm_timer retransmit_timer DMDHCP_DECLINE_PAUSE_MS } }"

definition run_conflict_probe :: "('l, 't) env \<Rightarrow> ('l, unit) lease_monad" where
  "run_conflict_probe E = do {
     ifc \<leftarrow> getl iface;
     ip \<leftarrow> getl offered_ip;
     result \<leftarrow> call (\<lambda>h. env_arp_resolve E h ifc ip) (Arp_resolve ifc ip DMDHCP_ARP_PROBE_TIMEOUT_MS);
     if \<not> isl result then handle_conflict E
     else do {
       st \<leftarrow> getl state;
       if st = dmdhcp_state_checking_offer
       then do {
         send_request_selecting E;
         modl (\<lambda>l. l\<lparr>state := dmdhcp_state_requesting\<rparr>);
         modl (\<lambda>l. l\<lparr>retransmit_count := 0\<rparr>);
         modl (\<lambda>l. l\<lparr>retransmit_interval_ms := DMDHCP_RETRANSMIT_INITIAL_MS\<rparr>);
         interval \<leftarrow> getl retransmit_interval_ms;
         arm_timer retransmit_timer interval }
       else do {
         dmdhcp_lifecycle_apply E;
         modl (\<lambda>l. l\<lparr>state := dmdhcp_state_bound\<rparr>);
         modl (\<lambda>l. l\<lparr>decline_retry_count := 0\<rparr>);
         dmdhcp_lifecycle_arm_t1;
         handler \<leftarrow> getl (\<lambda>l. on_bound (callbacks l));
         ud \<leftarrow> getl user_data;
         p \<leftarrow> getself;
         unlock_lease;
         (case handler of
            None \<Rightarrow> State_Monad.return ()
          | Some f \<Rightarrow> emit (Call_on_bound f p False ud));
         lock_lease } } }"

definition retransmit_timer_callback :: "('l, 't) env \<Rightarrow> ('l, unit) lease_monad" where
  "retransmit_timer_callback E = do {
     m \<leftarrow> getl magic;
     if m \<noteq> DMDHCP_LEASE_MAGIC then State_Monad.return ()
     else do {
       lock_lease;
       st \<leftarrow> getl state;
       (case st of
          dmdhcp_state_selecting \<Rightarrow> do { send_discover E; rearm_backoff }
        | dmdhcp_state_requesting \<Rightarrow> do {
            modl (\<lambda>l. l\<lparr>retransmit_count := retransmit_count l + 1\<rparr>);
            n \<leftarrow> getl retransmit_count;
            if n > DMDHCP_MAX_REQUEST_RETRANSMITS then dmdhcp_output_start_discovery E
            else do { send_request_selecting E; rearm_backoff } }
        | dmdhcp_state_rebooting \<Rightarrow> do {
            modl (\<lambda>l. l\<lparr>retransmit_count := retransmit_count l + 1\<rparr>);
            n \<leftarrow> getl retransmit_count;
            if n > DMDHCP_MAX_REQUEST_RETRANSMITS then dmdhcp_output_start_discovery E
            else do { send_request_reboot E; rearm_backoff } }
        | dmdhcp_state_renewing \<Rightarrow> do { send_request_renew E; rearm_backoff }
        | dmdhcp_state_rebinding \<Rightarrow> do { send_request_rebind E; rearm_backoff }
        | dmdhcp_state_checking_offer \<Rightarrow> run_conflict_probe E
        | dmdhcp_state_checking_ack \<Rightarrow> run_conflict_probe E
        | dmdhcp_state_declining \<Rightarrow> dmdhcp_output_start_discovery E
        | _ \<Rightarrow> State_Monad.return ());
       unlock_lease } }"

definition dmdhcp_output_create_retransmit_timer :: "('l, 't) env \<Rightarrow> ('l, timer_id option) lease_monad" where
  "dmdhcp_output_create_retransmit_timer E = do {
     p \<leftarrow> getself;
     ok \<leftarrow> call (\<lambda>h. env_timer_create E h (Retransmit_timer p))
             (Timer_create (Retransmit_timer p) DMDHCP_RETRANSMIT_INITIAL_MS);
     State_Monad.return (if ok then Some (Retransmit_timer p) else None) }"

section \<open>Effects\<close>

text \<open>
  Calls that neither lock, nor touch a timer, nor run a callback, with the number of address
  entries they leave allocated.
\<close>

definition calm :: "int \<Rightarrow> history \<Rightarrow> bool" where
  "calm n es \<longleftrightarrow> list_all (\<lambda>e. quiet e \<or> net_call e) es \<and> balance Addr_entry es = n
     \<and> balance Msg_buffer es = 0 \<and> balance Hostname es = 0"

lemma heap_only_calm: "heap_only n es \<Longrightarrow> calm n es"
  by (auto simp: heap_only_def calm_def list_all_iff)

lemma net_call_calm: "list_all net_call es \<Longrightarrow> calm 0 es"
  by (auto simp: calm_def list_all_iff)

lemma calm_append: "calm m es \<Longrightarrow> calm n fs \<Longrightarrow> calm (m + n) (es @ fs)"
  by (simp add: calm_def)

lemma calm_Arp [simp]: "calm n (Arp_resolve i a t r # es) \<longleftrightarrow> calm n es"
  by (simp add: calm_def)

lemma calm_unobserved [simp]:
  "calm n es \<Longrightarrow> observe timer_step t es = t"
  "calm n es \<Longrightarrow> observe lock_step h es = h"
  "calm n es \<Longrightarrow> observe live_step L es = L"
proof -
  have "list_all (\<lambda>e. quiet e \<or> net_call e) es \<Longrightarrow> observe timer_step t es = t"
    and "list_all (\<lambda>e. quiet e \<or> net_call e) es \<Longrightarrow> observe lock_step h es = h"
    and "list_all (\<lambda>e. quiet e \<or> net_call e) es \<Longrightarrow> observe live_step L es = L"
    using net_calls_unobserved [of "[_]"]
    by (induction es arbitrary: t h L) (auto simp: tm.quiet_step lm.quiet_step lv.quiet_step)
  then show "calm n es \<Longrightarrow> observe timer_step t es = t" and "calm n es \<Longrightarrow> observe lock_step h es = h"
    and "calm n es \<Longrightarrow> observe live_step L es = L"
    by (simp_all add: calm_def)
qed

definition error_call :: "'l lctx \<Rightarrow> history" where
  "error_call s = (case on_error (callbacks (cur s)) of
     None \<Rightarrow> [] | Some f \<Rightarrow> [Call_on_error f (self s) EADDRINUSE (user_data (cur s))])"

definition bound_call :: "bool \<Rightarrow> 'l lctx \<Rightarrow> history" where
  "bound_call renewed s = (case on_bound (callbacks (cur s)) of
     None \<Rightarrow> [] | Some f \<Rightarrow> [Call_on_bound f (self s) renewed (user_data (cur s))])"

lemma handle_conflict_effect:
  "\<exists>es. heap_only 0 es \<and> exec (handle_conflict E) s =
     (if decline_retry_count (cur s) + 1 > 3
      then s\<lparr>cur := (cur s)\<lparr>decline_retry_count := decline_retry_count (cur s) + 1, state := dmdhcp_state_failed\<rparr>,
             log := log s @ es @ Mutex_unlock (lock (cur s)) # error_call s @ [Mutex_lock (lock (cur s))]\<rparr>
      else s\<lparr>cur := (cur s)\<lparr>decline_retry_count := decline_retry_count (cur s) + 1, state := dmdhcp_state_declining\<rparr>,
             log := log s @ es @ armed (retransmit_timer (cur s)) 10000\<rparr>)"
proof -
  obtain es where "exec (send_decline E) s = s\<lparr>log := log s @ es\<rparr>" "heap_only 0 es"
    using sender_effects(6) by blast
  then show ?thesis
    by - (rule exI [of _ es], cases "on_error (callbacks (cur s))",
      simp_all add: handle_conflict_def run_simps time_consts error_call_def)
qed

text \<open>A clean probe of an offer sends the REQUEST; a clean probe of an ACK commits the lease.\<close>

lemma probe_conflict_effect:
  assumes "\<not> isl (env_arp_resolve E (log s) (iface (cur s)) (offered_ip (cur s)))"
  shows "exec (run_conflict_probe E) s = exec (handle_conflict E)
    (s\<lparr>log := log s @ [Arp_resolve (iface (cur s)) (offered_ip (cur s)) 1000 (Inr ())]\<rparr>)"
  using assms
  by (cases "env_arp_resolve E (log s) (iface (cur s)) (offered_ip (cur s))")
    (simp_all add: run_conflict_probe_def run_simps time_consts)

lemma probe_offer_effect:
  assumes "isl (env_arp_resolve E (log s) (iface (cur s)) (offered_ip (cur s)))"
    and "state (cur s) = dmdhcp_state_checking_offer"
  shows "\<exists>es. calm 0 es \<and> list_all quiet es \<and> exec (run_conflict_probe E) s =
      s\<lparr>cur := (cur s)\<lparr>state := dmdhcp_state_requesting, retransmit_count := 0, retransmit_interval_ms := 4000\<rparr>,
        log := log s @ es @ armed (retransmit_timer (cur s)) 4000\<rparr>"
proof -
  let ?r = "Arp_resolve (iface (cur s)) (offered_ip (cur s)) 1000
    (env_arp_resolve E (log s) (iface (cur s)) (offered_ip (cur s)))"
  let ?s = "s\<lparr>log := log s @ [?r]\<rparr>"
  obtain es where "exec (send_request_selecting E) ?s = ?s\<lparr>log := log ?s @ es\<rparr>" "heap_only 0 es"
    using sender_effects(2) by blast
  with assms show ?thesis
    by - (rule exI [of _ "?r # es"],
      simp add: run_conflict_probe_def run_simps time_consts heap_only_calm)
qed

lemma probe_ack_effect:
  assumes "isl (env_arp_resolve E (log s) (iface (cur s)) (offered_ip (cur s)))"
    and "state (cur s) = dmdhcp_state_checking_ack"
  shows "\<exists>es r ok. calm 0 es \<and> (iface_configured (cur s) \<longrightarrow> ok) \<and> (r \<noteq> None \<longrightarrow> ok \<or> r = default_route (cur s))
    \<and> (netif_up E \<longrightarrow> ok \<and> (\<forall>n. observe net_step n es = observe net_step n (apply_calls E (cur s) r))
         \<and> (r \<noteq> None \<longleftrightarrow> family (gateway (cur s)) = dmroute_family_v4))
    \<and> exec (run_conflict_probe E) s =
      s\<lparr>cur := (cur s)\<lparr>default_route := r, iface_configured := ok, state := dmdhcp_state_bound, decline_retry_count := 0\<rparr>,
        log := log s @ es @ armed (lease_timer (cur s)) (t1_period (cur s))
          @ Mutex_unlock (lock (cur s)) # bound_call False s @ [Mutex_lock (lock (cur s))]\<rparr>"
proof -
  let ?r = "Arp_resolve (iface (cur s)) (offered_ip (cur s)) 1000
    (env_arp_resolve E (log s) (iface (cur s)) (offered_ip (cur s)))"
  let ?s = "s\<lparr>log := log s @ [?r]\<rparr>"
  obtain es r ok where "exec (dmdhcp_lifecycle_apply E) ?s =
      ?s\<lparr>cur := (cur ?s)\<lparr>default_route := r, iface_configured := ok\<rparr>, log := log ?s @ es\<rparr>"
    "list_all net_call es" "iface_configured (cur ?s) \<longrightarrow> ok" "r \<noteq> None \<longrightarrow> ok \<or> r = default_route (cur ?s)"
    "netif_up E \<longrightarrow> ok \<and> es = apply_calls E (cur ?s) r \<and> (r \<noteq> None \<longleftrightarrow> family (gateway (cur ?s)) = dmroute_family_v4)"
    using apply_effect by blast
  with assms show ?thesis
    by - (rule exI [of _ "?r # es"], rule exI [of _ r], rule exI [of _ ok], cases "on_bound (callbacks (cur s))",
      simp_all add: run_conflict_probe_def run_simps time_consts net_call_calm bound_call_def t1_period_def)
qed

end
