(* ===== verification/Dhcp_Input.thy ===== *)
theory Dhcp_Input
  imports Dhcp_Conflict
begin

text \<open>
  Received messages, \<open>src/dmdhcp_input.c\<close>: filling the lease from the options of an OFFER or ACK,
  and the dispatch on the message type and the lease's state. Finding the lease a datagram
  belongs to is the lease table's part and is in \<open>Dhcp_Api\<close>.
\<close>

section \<open>Definitions\<close>

text \<open>A 32-bit option that stays at 0 when it is malformed.\<close>

definition u32_value :: "dmdhcp_option_t \<Rightarrow> u32" where
  "u32_value opt = (case dmdhcp_option_get_u32 (Some opt) True of Inr v \<Rightarrow> v | Inl _ \<Rightarrow> 0)"

definition read_lease_time :: "u8 list \<Rightarrow> u32" where
  "read_lease_time options =
     (case dmdhcp_options_find (Some options) DMDHCP_OPT_LEASE_TIME True of
        Inr opt \<Rightarrow> u32_value opt | Inl _ \<Rightarrow> 0)"

definition read_t1 :: "u8 list \<Rightarrow> u32" where
  "read_t1 options =
     (case dmdhcp_options_find (Some options) DMDHCP_OPT_RENEWAL_T1 True of
        Inr opt \<Rightarrow> u32_value opt
      | Inl _ \<Rightarrow> if read_lease_time options > 0 then read_lease_time options div 2 else 0)"

definition read_t2 :: "u8 list \<Rightarrow> u32" where
  "read_t2 options =
     (case dmdhcp_options_find (Some options) DMDHCP_OPT_REBINDING_T2 True of
        Inr opt \<Rightarrow> u32_value opt
      | Inl _ \<Rightarrow> if read_lease_time options > 0 then (read_lease_time options * 7) div 8 else 0)"

definition populate_lease_from_options ::
  "('l, 't) env \<Rightarrow> dmdhcp_message_t \<Rightarrow> u8 list \<Rightarrow> ('l, unit) lease_monad" where
  "populate_lease_from_options E msg options = do {
     modl (\<lambda>l. l\<lparr>offered_ip := msg_yiaddr msg\<rparr>);
     (case dmdhcp_options_find (Some options) DMDHCP_OPT_SUBNET_MASK True of
        Inr opt \<Rightarrow>
          (case dmdhcp_option_get_addr (Some opt) True of
             Inr a \<Rightarrow> modl (\<lambda>l. l\<lparr>netmask := a\<rparr>) | Inl _ \<Rightarrow> State_Monad.return ())
      | Inl _ \<Rightarrow> State_Monad.return ());
     (case dmdhcp_options_find (Some options) DMDHCP_OPT_ROUTER True of
        Inr opt \<Rightarrow>
          if dmdhcp_option_addr_count (Some opt) > 0
          then (case dmdhcp_option_get_addr_at (Some opt) 0 True of
                  Inr a \<Rightarrow> modl (\<lambda>l. l\<lparr>gateway := a\<rparr>) | Inl _ \<Rightarrow> State_Monad.return ())
          else modl (\<lambda>l. l\<lparr>gateway := addr_none\<rparr>)
      | Inl _ \<Rightarrow> modl (\<lambda>l. l\<lparr>gateway := addr_none\<rparr>));
     (case dmdhcp_options_find (Some options) DMDHCP_OPT_SERVER_ID True of
        Inr opt \<Rightarrow>
          (case dmdhcp_option_get_addr (Some opt) True of
             Inr a \<Rightarrow> modl (\<lambda>l. l\<lparr>server_id := a\<rparr>) | Inl _ \<Rightarrow> State_Monad.return ())
      | Inl _ \<Rightarrow> State_Monad.return ());
     modl (\<lambda>l. l\<lparr>lease_time_sec := read_lease_time options\<rparr>);
     modl (\<lambda>l. l\<lparr>t1_sec := read_t1 options\<rparr>);
     modl (\<lambda>l. l\<lparr>t2_sec := read_t2 options\<rparr>);
     dmdhcp_lease_table_clear_dns_servers E;
     (case dmdhcp_options_find (Some options) DMDHCP_OPT_DNS_SERVER True of
        Inr opt \<Rightarrow> push_servers E dns_servers dns_servers_update opt 0 (dmdhcp_option_addr_count (Some opt))
      | Inl _ \<Rightarrow> State_Monad.return ());
     dmdhcp_lease_table_clear_ntp_servers E;
     (case dmdhcp_options_find (Some options) DMDHCP_OPT_NTP_SERVER True of
        Inr opt \<Rightarrow>
          if opt_length opt > 0 \<and> unat (opt_length opt) mod DMROUTE_IPV4_ADDR_LEN = 0
          then push_servers E ntp_servers ntp_servers_update opt 0 (dmdhcp_option_addr_count (Some opt))
          else State_Monad.return ()
      | Inl _ \<Rightarrow> State_Monad.return ()) }"

text \<open>The part of \<open>dmdhcp_handle_datagram()\<close> from taking the lease's lock on.\<close>

definition dispatch_message ::
  "('l, 't) env \<Rightarrow> u8 \<Rightarrow> dmdhcp_message_t \<Rightarrow> u8 list \<Rightarrow> ('l, unit) lease_monad" where
  "dispatch_message E msg_type msg options = do {
     lock_lease;
     st \<leftarrow> getl state;
     if msg_type = msg_type_code dmdhcp_msg_offer \<and> st = dmdhcp_state_selecting
     then do {
       populate_lease_from_options E msg options;
       modl (\<lambda>l. l\<lparr>state := dmdhcp_state_checking_offer\<rparr>);
       arm_timer retransmit_timer DMDHCP_PROBE_HANDOFF_MS;
       unlock_lease }
     else if msg_type = msg_type_code dmdhcp_msg_ack
       \<and> (st = dmdhcp_state_requesting \<or> st = dmdhcp_state_rebooting)
     then do {
       populate_lease_from_options E msg options;
       modl (\<lambda>l. l\<lparr>state := dmdhcp_state_checking_ack\<rparr>);
       arm_timer retransmit_timer DMDHCP_PROBE_HANDOFF_MS;
       unlock_lease }
     else if msg_type = msg_type_code dmdhcp_msg_nak
       \<and> (st = dmdhcp_state_requesting \<or> st = dmdhcp_state_rebooting)
     then do {
       dmdhcp_output_start_discovery E;
       unlock_lease }
     else if msg_type = msg_type_code dmdhcp_msg_ack
       \<and> (st = dmdhcp_state_renewing \<or> st = dmdhcp_state_rebinding)
     then do {
       populate_lease_from_options E msg options;
       dmdhcp_lifecycle_apply E;
       modl (\<lambda>l. l\<lparr>state := dmdhcp_state_bound\<rparr>);
       modl (\<lambda>l. l\<lparr>decline_retry_count := 0\<rparr>);
       dmdhcp_lifecycle_arm_t1;
       handler \<leftarrow> getl (\<lambda>l. on_bound (callbacks l));
       ud \<leftarrow> getl user_data;
       p \<leftarrow> getself;
       unlock_lease;
       (case handler of
          None \<Rightarrow> State_Monad.return ()
        | Some f \<Rightarrow> emit (Call_on_bound f p True ud)) }
     else if msg_type = msg_type_code dmdhcp_msg_nak
       \<and> (st = dmdhcp_state_renewing \<or> st = dmdhcp_state_rebinding)
     then do {
       unlock_lease;
       dmdhcp_lifecycle_handle_lost E }
     else unlock_lease }"

section \<open>What an OFFER or ACK says\<close>

text \<open>
  The meaning of an options area for a lease: each value as a lookup in the decoded entries.
\<close>

definition addr_value :: "u8 list \<Rightarrow> u8 \<Rightarrow> dmroute_addr_t \<Rightarrow> dmroute_addr_t" where
  "addr_value options code old =
     (case found_bytes options code of
        Some d \<Rightarrow> if length d = 4 then addr_v4 (ipv4_of_bytes d) else old
      | None \<Rightarrow> old)"

definition router_value :: "u8 list \<Rightarrow> dmroute_addr_t" where
  "router_value options =
     (case found_bytes options DMDHCP_OPT_ROUTER of
        Some d \<Rightarrow> if 4 \<le> length d then addr_v4 (ipv4_of_bytes (take 4 d)) else addr_none
      | None \<Rightarrow> addr_none)"

definition split_addrs :: "u8 list \<Rightarrow> dmroute_addr_t list" where
  "split_addrs d = map (\<lambda>i. addr_v4 (ipv4_of_bytes (sub (4 * i) 4 d))) [0..<length d div 4]"

definition dns_value :: "u8 list \<Rightarrow> dmroute_addr_t list" where
  "dns_value options =
     (case found_bytes options DMDHCP_OPT_DNS_SERVER of Some d \<Rightarrow> split_addrs d | None \<Rightarrow> [])"

definition ntp_value :: "u8 list \<Rightarrow> dmroute_addr_t list" where
  "ntp_value options =
     (case found_bytes options DMDHCP_OPT_NTP_SERVER of
        Some d \<Rightarrow> if length d mod 4 = 0 then split_addrs d else [] | None \<Rightarrow> [])"

definition time_value :: "u8 list \<Rightarrow> u8 \<Rightarrow> u32 \<Rightarrow> u32" where
  "time_value options code fallback =
     (case found_bytes options code of
        Some d \<Rightarrow> if length d = 4 then read_u32_be d else 0 | None \<Rightarrow> fallback)"

lemma found_bytes_cases:
  assumes "code \<noteq> DMDHCP_OPT_PAD" and "code \<noteq> DMDHCP_OPT_END"
  obtains (absent) e where "dmdhcp_options_find (Some options) code True = Inl e" "found_bytes options code = None"
  | (present) opt where "dmdhcp_options_find (Some options) code True = Inr opt" "wf_option opt"
      "found_bytes options code = Some (opt_bytes opt)"
  using options_find_wf(1) [OF _ assms, of options]
  by (cases "dmdhcp_options_find (Some options) code True") (auto simp: found_bytes_def)

lemma read_times:
  "read_lease_time options = time_value options DMDHCP_OPT_LEASE_TIME 0"
  "read_t1 options = time_value options DMDHCP_OPT_RENEWAL_T1 (read_lease_time options div 2)"
  "read_t2 options = time_value options DMDHCP_OPT_REBINDING_T2 (read_lease_time options * 7 div 8)"
proof -
  have u: "wf_option opt \<Longrightarrow> u32_value opt = (if length (opt_bytes opt) = 4 then read_u32_be (opt_bytes opt) else 0)" for opt
    by (simp add: u32_value_def get_u32_eq)
  show "read_lease_time options = time_value options DMDHCP_OPT_LEASE_TIME 0"
    by (rule found_bytes_cases [of DMDHCP_OPT_LEASE_TIME options])
      (simp_all add: opt_consts read_lease_time_def time_value_def u)
  show "read_t1 options = time_value options DMDHCP_OPT_RENEWAL_T1 (read_lease_time options div 2)"
    by (rule found_bytes_cases [of DMDHCP_OPT_RENEWAL_T1 options])
      (auto simp: opt_consts read_t1_def time_value_def u word_gt_0)
  show "read_t2 options = time_value options DMDHCP_OPT_REBINDING_T2 (read_lease_time options * 7 div 8)"
    by (rule found_bytes_cases [of DMDHCP_OPT_REBINDING_T2 options])
      (auto simp: opt_consts read_t2_def time_value_def u word_gt_0)
qed

lemma option_addrs_split: "option_addrs opt = split_addrs (opt_bytes opt)"
  by (simp add: option_addrs_def split_addrs_def)

lemma set_netmask_effect:
  "exec (case dmdhcp_options_find (Some options) DMDHCP_OPT_SUBNET_MASK True of
        Inr opt \<Rightarrow>
          (case dmdhcp_option_get_addr (Some opt) True of
             Inr a \<Rightarrow> modl (\<lambda>l. l\<lparr>netmask := a\<rparr>) | Inl _ \<Rightarrow> State_Monad.return ())
      | Inl _ \<Rightarrow> State_Monad.return ()) s
   = s\<lparr>cur := (cur s)\<lparr>netmask := addr_value options DMDHCP_OPT_SUBNET_MASK (netmask (cur s))\<rparr>\<rparr>"
  by (rule found_bytes_cases [of DMDHCP_OPT_SUBNET_MASK options])
    (simp_all add: opt_consts run_simps get_addr_eq addr_value_def)

lemma set_server_id_effect:
  "exec (case dmdhcp_options_find (Some options) DMDHCP_OPT_SERVER_ID True of
        Inr opt \<Rightarrow>
          (case dmdhcp_option_get_addr (Some opt) True of
             Inr a \<Rightarrow> modl (\<lambda>l. l\<lparr>server_id := a\<rparr>) | Inl _ \<Rightarrow> State_Monad.return ())
      | Inl _ \<Rightarrow> State_Monad.return ()) s
   = s\<lparr>cur := (cur s)\<lparr>server_id := addr_value options DMDHCP_OPT_SERVER_ID (server_id (cur s))\<rparr>\<rparr>"
  by (rule found_bytes_cases [of DMDHCP_OPT_SERVER_ID options])
    (simp_all add: opt_consts run_simps get_addr_eq addr_value_def)

lemma set_gateway_effect:
  "exec (case dmdhcp_options_find (Some options) DMDHCP_OPT_ROUTER True of
        Inr opt \<Rightarrow>
          if dmdhcp_option_addr_count (Some opt) > 0
          then (case dmdhcp_option_get_addr_at (Some opt) 0 True of
                  Inr a \<Rightarrow> modl (\<lambda>l. l\<lparr>gateway := a\<rparr>) | Inl _ \<Rightarrow> State_Monad.return ())
          else modl (\<lambda>l. l\<lparr>gateway := addr_none\<rparr>)
      | Inl _ \<Rightarrow> modl (\<lambda>l. l\<lparr>gateway := addr_none\<rparr>)) s
   = s\<lparr>cur := (cur s)\<lparr>gateway := router_value options\<rparr>\<rparr>"
  by (rule found_bytes_cases [of DMDHCP_OPT_ROUTER options])
    (auto simp: opt_consts run_simps get_addr_at_eq addr_count_eq router_value_def sub_def div_greater_zero_iff)

text \<open>Filling one list: a prefix of the announced addresses, all of them unless memory runs out.\<close>

lemma fill_dns_effect:
  assumes "env_ok E" and "dns_servers (cur s) = Some c" and "elems (alist E) c = []"
  shows "\<exists>es c' k. exec (case dmdhcp_options_find (Some options) DMDHCP_OPT_DNS_SERVER True of
        Inr opt \<Rightarrow> push_servers E dns_servers dns_servers_update opt 0 (dmdhcp_option_addr_count (Some opt))
      | Inl _ \<Rightarrow> State_Monad.return ()) s
      = s\<lparr>cur := (cur s)\<lparr>dns_servers := Some c'\<rparr>, log := log s @ es\<rparr>
    \<and> elems (alist E) c' = take k (dns_value options) \<and> k \<le> length (dns_value options)
    \<and> heap_only (int k) es \<and> (k < length (dns_value options) \<longrightarrow> no_room E (dns_value options) k es)"
proof (rule found_bytes_cases [of DMDHCP_OPT_DNS_SERVER options])
  fix e
  assume "dmdhcp_options_find (Some options) DMDHCP_OPT_DNS_SERVER True = Inl e"
    and "found_bytes options DMDHCP_OPT_DNS_SERVER = None"
  moreover have "s\<lparr>cur := (cur s)\<lparr>dns_servers := Some c\<rparr>\<rparr> = s"
    using assms(2) [symmetric] by simp
  ultimately show ?thesis
    using assms(3) by - (rule exI [of _ "[]"], rule exI [of _ c], rule exI [of _ 0], simp add: run_simps dns_value_def)
next
  fix opt
  assume f: "dmdhcp_options_find (Some options) DMDHCP_OPT_DNS_SERVER True = Inr opt" "wf_option opt"
    and b: "found_bytes options DMDHCP_OPT_DNS_SERVER = Some (opt_bytes opt)"
  have d: "dns_value options = option_addrs opt" by (simp add: dns_value_def b option_addrs_split)
  from dns.push_effect [OF assms(1) f(2) assms(2), of 0 "dmdhcp_option_addr_count (Some opt)"]
  show ?thesis
    by (simp add: f(1) d assms(3) length_option_addrs [OF f(2)])
qed (simp_all add: opt_consts)

lemma fill_ntp_effect:
  assumes "env_ok E" and "ntp_servers (cur s) = Some c" and "elems (alist E) c = []"
  shows "\<exists>es c' k. exec (case dmdhcp_options_find (Some options) DMDHCP_OPT_NTP_SERVER True of
        Inr opt \<Rightarrow>
          if opt_length opt > 0 \<and> unat (opt_length opt) mod DMROUTE_IPV4_ADDR_LEN = 0
          then push_servers E ntp_servers ntp_servers_update opt 0 (dmdhcp_option_addr_count (Some opt))
          else State_Monad.return ()
      | Inl _ \<Rightarrow> State_Monad.return ()) s
      = s\<lparr>cur := (cur s)\<lparr>ntp_servers := Some c'\<rparr>, log := log s @ es\<rparr>
    \<and> elems (alist E) c' = take k (ntp_value options) \<and> k \<le> length (ntp_value options)
    \<and> heap_only (int k) es \<and> (k < length (ntp_value options) \<longrightarrow> no_room E (ntp_value options) k es)"
proof -
  have same: "s\<lparr>cur := (cur s)\<lparr>ntp_servers := Some c\<rparr>\<rparr> = s"
    using assms(2) [symmetric] by simp
  have none: ?thesis if "exec (case dmdhcp_options_find (Some options) DMDHCP_OPT_NTP_SERVER True of
        Inr opt \<Rightarrow>
          if opt_length opt > 0 \<and> unat (opt_length opt) mod DMROUTE_IPV4_ADDR_LEN = 0
          then push_servers E ntp_servers ntp_servers_update opt 0 (dmdhcp_option_addr_count (Some opt))
          else State_Monad.return ()
      | Inl _ \<Rightarrow> State_Monad.return ()) s = s" and "ntp_value options = []"
    using same assms(3) that
    by - (rule exI [of _ "[]"], rule exI [of _ c], rule exI [of _ 0], simp)
  show ?thesis
  proof (rule found_bytes_cases [of DMDHCP_OPT_NTP_SERVER options])
    fix e
    assume "dmdhcp_options_find (Some options) DMDHCP_OPT_NTP_SERVER True = Inl e"
      and "found_bytes options DMDHCP_OPT_NTP_SERVER = None"
    then show ?thesis
      by (intro none) (simp_all add: run_simps ntp_value_def)
  next
    fix opt
    assume f: "dmdhcp_options_find (Some options) DMDHCP_OPT_NTP_SERVER True = Inr opt" "wf_option opt"
      and b: "found_bytes options DMDHCP_OPT_NTP_SERVER = Some (opt_bytes opt)"
    have len: "length (opt_bytes opt) = unat (opt_length opt)" using f(2) by (simp add: wf_option_def)
    show ?thesis
    proof (cases "opt_length opt > 0 \<and> unat (opt_length opt) mod 4 = 0")
      case True
      then have d: "ntp_value options = option_addrs opt"
        by (simp add: ntp_value_def b option_addrs_split len)
      from True ntp.push_effect [OF assms(1) f(2) assms(2), of 0 "dmdhcp_option_addr_count (Some opt)"]
      show ?thesis
        by (simp add: f(1) d assms(3) length_option_addrs [OF f(2)] wire_consts)
    next
      case False
      then have "ntp_value options = []"
        by (auto simp: ntp_value_def b len split_addrs_def word_gt_0)
      with False f(1) show ?thesis
        by (intro none) (auto simp: run_simps wire_consts)
    qed
  qed (simp_all add: opt_consts)
qed

text \<open>The lease after an OFFER or ACK, as a function of what the message says.\<close>

definition populated :: "dmdhcp_message_t \<Rightarrow> u8 list \<Rightarrow> 'l \<Rightarrow> 'l \<Rightarrow> 'l lease \<Rightarrow> 'l lease" where
  "populated msg options dns ntp l = l\<lparr>offered_ip := msg_yiaddr msg,
     netmask := addr_value options DMDHCP_OPT_SUBNET_MASK (netmask l),
     gateway := router_value options,
     server_id := addr_value options DMDHCP_OPT_SERVER_ID (server_id l),
     lease_time_sec := read_lease_time options, t1_sec := read_t1 options, t2_sec := read_t2 options,
     dns_servers := Some dns, ntp_servers := Some ntp\<rparr>"

text \<open>The server lists hold what the options announce, cut short only when memory runs out.\<close>

definition filled :: "('l, 't) env \<Rightarrow> dmroute_addr_t list \<Rightarrow> 'l \<Rightarrow> history \<Rightarrow> bool" where
  "filled E announced c es \<longleftrightarrow> (\<exists>k. elems (alist E) c = take k announced \<and> k \<le> length announced
     \<and> (k < length announced \<longrightarrow> no_room E announced k es))"

definition stored :: "('l, 't) env \<Rightarrow> 'l lease \<Rightarrow> int" where
  "stored E l = int (length (servers_of E (dns_servers l))) + int (length (servers_of E (ntp_servers l)))"

lemma filled_mono: "filled E as c es \<Longrightarrow> filled E as c (fs @ es @ gs)"
  unfolding filled_def no_room_def by auto

lemma populate_run:
  assumes E: "env_ok E" and "dns_servers (cur s) \<noteq> None" and "ntp_servers (cur s) \<noteq> None"
  shows "\<exists>es fs dns ntp. exec (populate_lease_from_options E msg options) s
      = s\<lparr>cur := populated msg options dns ntp (cur s), log := log s @ es @ fs\<rparr>
    \<and> filled E (dns_value options) dns es \<and> filled E (ntp_value options) ntp fs
    \<and> heap_only (stored E (populated msg options dns ntp (cur s)) - stored E (cur s)) (es @ fs)"
proof -
  define l1 where "l1 = (cur s)\<lparr>offered_ip := msg_yiaddr msg,
     netmask := addr_value options DMDHCP_OPT_SUBNET_MASK (netmask (cur s)),
     gateway := router_value options,
     server_id := addr_value options DMDHCP_OPT_SERVER_ID (server_id (cur s)),
     lease_time_sec := read_lease_time options, t1_sec := read_t1 options, t2_sec := read_t2 options\<rparr>"
  define s1 where "s1 = s\<lparr>cur := l1\<rparr>"
  obtain e1 c1 where d: "exec (dmdhcp_lease_table_clear_dns_servers E) s1
      = s1\<lparr>cur := l1\<lparr>dns_servers := c1\<rparr>, log := log s @ e1\<rparr>"
      "emptied E (dns_servers l1) c1" "heap_only (- int (length (servers_of E (dns_servers l1)))) e1"
    using clear_dns_effect [OF E, of s1] by (auto simp: s1_def)
  from d(2) assms(2) obtain c2 where c2: "c1 = Some c2" "elems (alist E) c2 = []"
    by (cases c1) (auto simp: emptied_def l1_def)
  define s2 where "s2 = s1\<lparr>cur := l1\<lparr>dns_servers := c1\<rparr>, log := log s @ e1\<rparr>"
  obtain e2 dns k where f: "exec (case dmdhcp_options_find (Some options) DMDHCP_OPT_DNS_SERVER True of
        Inr opt \<Rightarrow> push_servers E dns_servers dns_servers_update opt 0 (dmdhcp_option_addr_count (Some opt))
      | Inl _ \<Rightarrow> State_Monad.return ()) s2
      = s2\<lparr>cur := (cur s2)\<lparr>dns_servers := Some dns\<rparr>, log := log s2 @ e2\<rparr>"
    "elems (alist E) dns = take k (dns_value options)" "k \<le> length (dns_value options)"
    "heap_only (int k) e2" "k < length (dns_value options) \<longrightarrow> no_room E (dns_value options) k e2"
    using fill_dns_effect [OF E _ c2(2), of s2 options] by (auto simp: s2_def c2(1))
  define s3 where "s3 = s2\<lparr>cur := (cur s2)\<lparr>dns_servers := Some dns\<rparr>, log := log s2 @ e2\<rparr>"
  obtain e3 c3 where n: "exec (dmdhcp_lease_table_clear_ntp_servers E) s3
      = s3\<lparr>cur := (cur s3)\<lparr>ntp_servers := c3\<rparr>, log := log s3 @ e3\<rparr>"
      "emptied E (ntp_servers (cur s3)) c3" "heap_only (- int (length (servers_of E (ntp_servers (cur s3))))) e3"
    using clear_ntp_effect [OF E, of s3] by blast
  from n(2) assms(3) obtain c4 where c4: "c3 = Some c4" "elems (alist E) c4 = []"
    by (cases c3) (auto simp: emptied_def l1_def s1_def s2_def s3_def)
  define s4 where "s4 = s3\<lparr>cur := (cur s3)\<lparr>ntp_servers := c3\<rparr>, log := log s3 @ e3\<rparr>"
  obtain e4 ntp j where g: "exec (case dmdhcp_options_find (Some options) DMDHCP_OPT_NTP_SERVER True of
        Inr opt \<Rightarrow>
          if opt_length opt > 0 \<and> unat (opt_length opt) mod DMROUTE_IPV4_ADDR_LEN = 0
          then push_servers E ntp_servers ntp_servers_update opt 0 (dmdhcp_option_addr_count (Some opt))
          else State_Monad.return ()
      | Inl _ \<Rightarrow> State_Monad.return ()) s4
      = s4\<lparr>cur := (cur s4)\<lparr>ntp_servers := Some ntp\<rparr>, log := log s4 @ e4\<rparr>"
    "elems (alist E) ntp = take j (ntp_value options)" "j \<le> length (ntp_value options)"
    "heap_only (int j) e4" "j < length (ntp_value options) \<longrightarrow> no_room E (ntp_value options) j e4"
    using fill_ntp_effect [OF E _ c4(2), of s4 options] by (auto simp: s4_def c4(1))
  let ?es = "e1 @ e2 @ e3 @ e4"
  have run: "exec (populate_lease_from_options E msg options) s = s4\<lparr>cur := (cur s4)\<lparr>ntp_servers := Some ntp\<rparr>, log := log s4 @ e4\<rparr>"
    unfolding populate_lease_from_options_def exec_bind run_modl
      set_netmask_effect set_gateway_effect set_server_id_effect
    using d(1) [folded s2_def] f(1) [folded s3_def] n(1) [folded s4_def] g(1)
    by (simp add: s1_def [unfolded l1_def, symmetric])
  have "heap_only (stored E (populated msg options dns ntp (cur s)) - stored E (cur s)) ?es"
    using heap_only_append [OF d(3) heap_only_append [OF f(4) heap_only_append [OF n(3) g(4)]]] f(2,3) g(2,3)
    by (simp add: stored_def populated_def l1_def s1_def s2_def s3_def algebra_simps)
  then have "heap_only (stored E (populated msg options dns ntp (cur s)) - stored E (cur s)) ((e1 @ e2) @ e3 @ e4)" by simp
  moreover have "filled E (dns_value options) dns (e1 @ e2)" "filled E (ntp_value options) ntp (e3 @ e4)"
    using f(2,3,5) g(2,3,5) unfolding filled_def no_room_def by auto
  moreover have "s4\<lparr>cur := (cur s4)\<lparr>ntp_servers := Some ntp\<rparr>, log := log s4 @ e4\<rparr>
      = s\<lparr>cur := populated msg options dns ntp (cur s), log := log s @ (e1 @ e2) @ e3 @ e4\<rparr>"
    by (simp add: s4_def s3_def s2_def s1_def l1_def populated_def)
  ultimately show ?thesis using run by metis
qed

lemma populate_effect:
  assumes E: "env_ok E" and "dns_servers (cur s) \<noteq> None" and "ntp_servers (cur s) \<noteq> None"
  shows "\<exists>es dns ntp. exec (populate_lease_from_options E msg options) s
      = s\<lparr>cur := populated msg options dns ntp (cur s), log := log s @ es\<rparr>
    \<and> filled E (dns_value options) dns es \<and> filled E (ntp_value options) ntp es
    \<and> heap_only (stored E (populated msg options dns ntp (cur s)) - stored E (cur s)) es"
proof -
  obtain es fs dns ntp where r: "exec (populate_lease_from_options E msg options) s
      = s\<lparr>cur := populated msg options dns ntp (cur s), log := log s @ es @ fs\<rparr>"
    "filled E (dns_value options) dns es" "filled E (ntp_value options) ntp fs"
    "heap_only (stored E (populated msg options dns ntp (cur s)) - stored E (cur s)) (es @ fs)"
    using populate_run [OF assms, of msg options] by (elim exE conjE) (rule that)
  have "filled E (dns_value options) dns (es @ fs)" "filled E (ntp_value options) ntp (es @ fs)"
    using filled_mono [OF r(2), of "[]" fs] filled_mono [OF r(3), of es "[]"] by simp_all
  with r(1,4) show ?thesis by (intro exI conjI)
qed

section \<open>Effects of the dispatch\<close>

lemmas type_codes = msg_type_code.simps

lemma dispatch_offer_effect:
  assumes E: "env_ok E" and h: "dns_servers (cur s) \<noteq> None" "ntp_servers (cur s) \<noteq> None"
    and branch: "ty = 2 \<and> state (cur s) = dmdhcp_state_selecting \<and> st' = dmdhcp_state_checking_offer
      \<or> ty = 5 \<and> state (cur s) \<in> {dmdhcp_state_requesting, dmdhcp_state_rebooting} \<and> st' = dmdhcp_state_checking_ack"
  shows "\<exists>es dns ntp. exec (dispatch_message E ty msg options) s
      = s\<lparr>cur := (populated msg options dns ntp (cur s))\<lparr>state := st'\<rparr>,
          log := log s @ Mutex_lock (lock (cur s)) # es @ armed (retransmit_timer (cur s)) 1
            @ [Mutex_unlock (lock (cur s))]\<rparr>
    \<and> filled E (dns_value options) dns es \<and> filled E (ntp_value options) ntp es
    \<and> heap_only (stored E (populated msg options dns ntp (cur s)) - stored E (cur s)) es"
proof -
  let ?s = "s\<lparr>log := log s @ [Mutex_lock (lock (cur s))]\<rparr>"
  obtain es dns ntp where p: "exec (populate_lease_from_options E msg options) ?s
      = ?s\<lparr>cur := populated msg options dns ntp (cur ?s), log := log ?s @ es\<rparr>"
    "filled E (dns_value options) dns es" "filled E (ntp_value options) ntp es"
    "heap_only (stored E (populated msg options dns ntp (cur ?s)) - stored E (cur ?s)) es"
    using populate_effect [OF E, of ?s msg options] h by auto
  have "lock (populated msg options dns ntp (cur s)) = lock (cur s)"
    "retransmit_timer (populated msg options dns ntp (cur s)) = retransmit_timer (cur s)"
    by (simp_all add: populated_def)
  with p branch show ?thesis
    by - (rule exI [of _ es], rule exI [of _ dns], rule exI [of _ ntp],
      auto simp: dispatch_message_def run_simps time_consts)
qed

lemma dispatch_nak_effect:
  assumes E: "env_ok E" and branch: "state (cur s) \<in> {dmdhcp_state_requesting, dmdhcp_state_rebooting}"
  shows "exec (dispatch_message E 6 msg options) s = exec (handle_lost_restart E) s"
  using branch by (auto simp: dispatch_message_def handle_lost_restart_def run_simps)

text \<open>An ACK while renewing or rebinding, whatever the application of the lease to its interface did.\<close>

lemma dispatch_renewed_run:
  fixes s :: "'l lctx"
  defines "locked \<equiv> s\<lparr>log := log s @ [Mutex_lock (lock (cur s))]\<rparr>"
  assumes p: "exec (populate_lease_from_options E msg options) locked
      = s\<lparr>cur := populated msg options dns ntp (cur s), log := log locked @ es\<rparr>"
    and a: "exec (dmdhcp_lifecycle_apply E) (s\<lparr>cur := populated msg options dns ntp (cur s), log := log locked @ es\<rparr>) =
      s\<lparr>cur := (populated msg options dns ntp (cur s))\<lparr>default_route := r, iface_configured := ok\<rparr>,
        log := log locked @ es @ fs\<rparr>"
    and branch: "state (cur s) \<in> {dmdhcp_state_renewing, dmdhcp_state_rebinding}"
  shows "exec (dispatch_message E 5 msg options) s
      = s\<lparr>cur := (populated msg options dns ntp (cur s))\<lparr>default_route := r, iface_configured := ok,
             state := dmdhcp_state_bound, decline_retry_count := 0\<rparr>,
          log := log s @ Mutex_lock (lock (cur s)) # es @ fs
            @ armed (lease_timer (cur s)) (t1_period (populated msg options dns ntp (cur s)))
            @ Mutex_unlock (lock (cur s)) # bound_call True s\<rparr>"
proof -
  have keep: "lock (populated msg options dns ntp (cur s)) = lock (cur s)"
    "lease_timer (populated msg options dns ntp (cur s)) = lease_timer (cur s)"
    "callbacks (populated msg options dns ntp (cur s)) = callbacks (cur s)"
    "user_data (populated msg options dns ntp (cur s)) = user_data (cur s)"
    by (simp_all add: populated_def)
  have t1: "t1_period (l\<lparr>default_route := r, iface_configured := ok, state := st, decline_retry_count := n\<rparr>) = t1_period l"
    for l :: "'l lease" and st n
    by (simp add: t1_period_def)
  have branch': "state (cur s) = dmdhcp_state_renewing \<or> state (cur s) = dmdhcp_state_rebinding"
    "state (cur s) \<noteq> dmdhcp_state_requesting" "state (cur s) \<noteq> dmdhcp_state_rebooting"
    using branch by auto
  show ?thesis
    using p a unfolding locked_def
    by (cases "on_bound (callbacks (cur s))")
      (simp_all add: dispatch_message_def run_simps bound_call_def keep t1 branch')
qed

lemma dispatch_renewed_effect:
  assumes E: "env_ok E" and h: "dns_servers (cur s) \<noteq> None" "ntp_servers (cur s) \<noteq> None"
    and branch: "state (cur s) \<in> {dmdhcp_state_renewing, dmdhcp_state_rebinding}"
  shows "\<exists>es fs dns ntp r ok. exec (dispatch_message E 5 msg options) s
      = s\<lparr>cur := (populated msg options dns ntp (cur s))\<lparr>default_route := r, iface_configured := ok,
             state := dmdhcp_state_bound, decline_retry_count := 0\<rparr>,
          log := log s @ Mutex_lock (lock (cur s)) # es @ fs
            @ armed (lease_timer (cur s)) (t1_period (populated msg options dns ntp (cur s)))
            @ Mutex_unlock (lock (cur s)) # bound_call True s\<rparr>
    \<and> filled E (dns_value options) dns es \<and> filled E (ntp_value options) ntp es
    \<and> heap_only (stored E (populated msg options dns ntp (cur s)) - stored E (cur s)) es
    \<and> list_all net_call fs \<and> (iface_configured (cur s) \<longrightarrow> ok)
    \<and> (r \<noteq> None \<longrightarrow> ok \<or> r = default_route (cur s))
    \<and> (netif_up E \<longrightarrow> ok \<and> fs = apply_calls E (populated msg options dns ntp (cur s)) r
         \<and> (r \<noteq> None \<longleftrightarrow> family (router_value options) = dmroute_family_v4))"
proof -
  let ?s = "s\<lparr>log := log s @ [Mutex_lock (lock (cur s))]\<rparr>"
  obtain es dns ntp where p: "exec (populate_lease_from_options E msg options) ?s
      = ?s\<lparr>cur := populated msg options dns ntp (cur ?s), log := log ?s @ es\<rparr>"
    "filled E (dns_value options) dns es" "filled E (ntp_value options) ntp es"
    "heap_only (stored E (populated msg options dns ntp (cur ?s)) - stored E (cur ?s)) es"
    using populate_effect [OF E, of ?s msg options] h by auto
  let ?t = "?s\<lparr>cur := populated msg options dns ntp (cur ?s), log := log ?s @ es\<rparr>"
  have keep: "iface_configured (cur ?t) = iface_configured (cur s)" "default_route (cur ?t) = default_route (cur s)"
    "gateway (cur ?t) = router_value options"
    by (simp_all add: populated_def)
  obtain fs r ok where a: "exec (dmdhcp_lifecycle_apply E) ?t =
      ?t\<lparr>cur := (cur ?t)\<lparr>default_route := r, iface_configured := ok\<rparr>, log := log ?t @ fs\<rparr>"
    "list_all net_call fs" "iface_configured (cur ?t) \<longrightarrow> ok" "r \<noteq> None \<longrightarrow> ok \<or> r = default_route (cur ?t)"
    "netif_up E \<longrightarrow> ok \<and> fs = apply_calls E (cur ?t) r \<and> (r \<noteq> None \<longleftrightarrow> family (gateway (cur ?t)) = dmroute_family_v4)"
    using apply_effect by blast
  have "exec (dispatch_message E 5 msg options) s
      = s\<lparr>cur := (populated msg options dns ntp (cur s))\<lparr>default_route := r, iface_configured := ok,
             state := dmdhcp_state_bound, decline_retry_count := 0\<rparr>,
          log := log s @ Mutex_lock (lock (cur s)) # es @ fs
            @ armed (lease_timer (cur s)) (t1_period (populated msg options dns ntp (cur s)))
            @ Mutex_unlock (lock (cur s)) # bound_call True s\<rparr>"
    by (rule dispatch_renewed_run [OF _ _ branch]) (use p(1) a(1) in simp_all)
  with p(2-4) a(2-5) show ?thesis
    unfolding keep
    by - (rule exI [of _ es], rule exI [of _ fs], rule exI [of _ dns], rule exI [of _ ntp],
      rule exI [of _ r], rule exI [of _ ok], simp)
qed

lemma dispatch_lost_effect:
  assumes "state (cur s) \<in> {dmdhcp_state_renewing, dmdhcp_state_rebinding}"
  shows "exec (dispatch_message E 6 msg options) s = exec (dmdhcp_lifecycle_handle_lost E)
    (s\<lparr>log := log s @ [Mutex_lock (lock (cur s)), Mutex_unlock (lock (cur s))]\<rparr>)"
  using assms by (auto simp: dispatch_message_def run_simps)

text \<open>The combinations of message type and state that are acted on.\<close>

definition expected :: "u8 \<Rightarrow> dmdhcp_state_t \<Rightarrow> bool" where
  "expected ty st \<longleftrightarrow>
     ty = 2 \<and> st = dmdhcp_state_selecting
   \<or> ty \<in> {5, 6} \<and> st \<in> {dmdhcp_state_requesting, dmdhcp_state_rebooting, dmdhcp_state_renewing, dmdhcp_state_rebinding}"

lemma dispatch_ignored_effect:
  assumes "\<not> expected ty (state (cur s))"
  shows "exec (dispatch_message E ty msg options) s
    = s\<lparr>log := log s @ [Mutex_lock (lock (cur s)), Mutex_unlock (lock (cur s))]\<rparr>"
  using assms by (auto simp: dispatch_message_def run_simps expected_def)

section \<open>Properties\<close>

text \<open>
  C23. What an OFFER or ACK makes of a lease, on any option bytes. Each field is the one the first entry of its
  option announces (according to the independent decoder of the option area): the address is the
  message's yiaddr; netmask and server id keep their value when the option is missing or
  not 4 bytes long; the gateway is the first router or none; the lease time defaults to 0, T1
  to half of it and T2 to 7/8 of it (modulo the word size), and a time option that is not 4
  bytes long counts as 0; the DNS and NTP lists hold the announced servers in order and none of the servers they held
  before, an NTP option of a length that is no multiple of 4 counting as empty. Each list is cut short only when, while it
  was filled, an entry could not be allocated or the container that held the servers up to there refused the next one.
\<close>

theorem populate_values:
  fixes msg :: dmdhcp_message_t and options :: "u8 list"
  assumes "env_ok E" and "dns_servers (cur s) \<noteq> None" and "ntp_servers (cur s) \<noteq> None"
  defines "s' \<equiv> exec (populate_lease_from_options E msg options) s"
  shows "offered_ip (cur s') = msg_yiaddr msg
    \<and> netmask (cur s') = addr_value options DMDHCP_OPT_SUBNET_MASK (netmask (cur s))
    \<and> gateway (cur s') = router_value options
    \<and> server_id (cur s') = addr_value options DMDHCP_OPT_SERVER_ID (server_id (cur s))
    \<and> lease_time_sec (cur s') = time_value options DMDHCP_OPT_LEASE_TIME 0
    \<and> t1_sec (cur s') = time_value options DMDHCP_OPT_RENEWAL_T1 (lease_time_sec (cur s') div 2)
    \<and> t2_sec (cur s') = time_value options DMDHCP_OPT_REBINDING_T2 (lease_time_sec (cur s') * 7 div 8)
    \<and> state (cur s') = state (cur s) \<and> xid (cur s') = xid (cur s)
    \<and> (\<exists>es fs k n. log s' = log s @ es @ fs
        \<and> servers_of E (dns_servers (cur s')) = take k (dns_value options)
        \<and> (k < length (dns_value options) \<longrightarrow> no_room E (dns_value options) k es)
        \<and> servers_of E (ntp_servers (cur s')) = take n (ntp_value options)
        \<and> (n < length (ntp_value options) \<longrightarrow> no_room E (ntp_value options) n fs))"
proof -
  obtain es fs dns ntp where p: "s' = s\<lparr>cur := populated msg options dns ntp (cur s), log := log s @ es @ fs\<rparr>"
      "filled E (dns_value options) dns es" "filled E (ntp_value options) ntp fs"
    using populate_run [OF assms(1-3)] unfolding s'_def by blast
  from p(2) obtain k where k: "elems (alist E) dns = take k (dns_value options)"
      "k < length (dns_value options) \<longrightarrow> no_room E (dns_value options) k es" unfolding filled_def by blast
  from p(3) obtain n where n: "elems (alist E) ntp = take n (ntp_value options)"
      "n < length (ntp_value options) \<longrightarrow> no_room E (ntp_value options) n fs" unfolding filled_def by blast
  have "\<exists>es' fs' k n. log s' = log s @ es' @ fs'
      \<and> servers_of E (dns_servers (cur s')) = take k (dns_value options)
      \<and> (k < length (dns_value options) \<longrightarrow> no_room E (dns_value options) k es')
      \<and> servers_of E (ntp_servers (cur s')) = take n (ntp_value options)
      \<and> (n < length (ntp_value options) \<longrightarrow> no_room E (ntp_value options) n fs')"
    by (rule exI [of _ es], rule exI [of _ fs], rule exI [of _ k], rule exI [of _ n]) (use p(1) k n in \<open>simp add: populated_def\<close>)
  then show ?thesis using p(1) by (simp add: populated_def read_times)
qed

theorem populate_values_witness:
  "lease_time_sec (cur (exec (populate_lease_from_options sample_env sample_message
      [51, 4, 0, 0, 14, 16, 58, 2, 1, 1, 255]) sample_state)) = 3600
   \<and> t1_sec (cur (exec (populate_lease_from_options sample_env sample_message
      [51, 4, 0, 0, 14, 16, 58, 2, 1, 1, 255]) sample_state)) = 0"
proof -
  have "time_value [51, 4, 0, 0, 14, 16, 58, 2, 1, 1, 255] DMDHCP_OPT_LEASE_TIME 0 = 3600"
    and "time_value [51, 4, 0, 0, 14, 16, 58, 2, 1, 1, 255] DMDHCP_OPT_RENEWAL_T1 x = 0" for x
    by (simp_all add: time_value_def found_bytes_decode opt_consts read_u32_be_def)
  with populate_values [OF sample_env_ok, of sample_state sample_message "[51, 4, 0, 0, 14, 16, 58, 2, 1, 1, 255]"]
  show ?thesis by (simp add: sample_state_def)
qed

end
