(* ===== verification/Dhcp_Access.thy ===== *)
theory Dhcp_Access
  imports Dhcp_Input
begin

text \<open>
  The API functions that work on one lease: the accessors of \<open>src/dmdhcp_lease_table.c\<close> and
  \<open>dmdhcp_renew()\<close> of \<open>src/dmdhcp.c\<close>. A NULL handle is treated where the handle is looked up
  (\<open>with_handle\<close> in \<open>Dhcp_Table\<close>); the magic check is part of each function. An out pointer that
  the code compares with NULL is a flag.
\<close>

section \<open>Definitions\<close>

definition holds_valid_lease :: "'l lease \<Rightarrow> bool" where
  "holds_valid_lease l \<longleftrightarrow> state l = dmdhcp_state_bound \<or> state l = dmdhcp_state_renewing
     \<or> state l = dmdhcp_state_rebinding"

definition bad_magic :: "('l, bool) lease_monad" where
  "bad_magic = getl (\<lambda>l. magic l \<noteq> DMDHCP_LEASE_MAGIC)"

text \<open>\<open>lock; x = f(lease); unlock; return x\<close>\<close>

definition locked_read :: "('l lease \<Rightarrow> 'a) \<Rightarrow> ('l, 'a) lease_monad" where
  "locked_read f = do {
     lock_lease;
     x \<leftarrow> getl f;
     unlock_lease;
     State_Monad.return x }"

definition dmdhcp_set_callbacks ::
  "dmdhcp_callbacks_t option \<Rightarrow> void_ptr \<Rightarrow> ('l, result) lease_monad" where
  "dmdhcp_set_callbacks cbs ud = do {
     bad \<leftarrow> bad_magic;
     if bad then State_Monad.return (Inl EINVAL)
     else do {
       lock_lease;
       modl (\<lambda>l. l\<lparr>callbacks := (case cbs of Some c \<Rightarrow> c | None \<Rightarrow> no_callbacks)\<rparr>);
       modl (\<lambda>l. l\<lparr>user_data := ud\<rparr>);
       unlock_lease;
       State_Monad.return (Inr ()) } }"

definition dmdhcp_get_state :: "('l, dmdhcp_state_t) lease_monad" where
  "dmdhcp_get_state = do {
     bad \<leftarrow> bad_magic;
     if bad then State_Monad.return dmdhcp_state_failed else locked_read state }"

definition dmdhcp_get_iface :: "('l, dmnetif_iface_t) lease_monad" where
  "dmdhcp_get_iface = do {
     bad \<leftarrow> bad_magic;
     if bad then State_Monad.return None else getl iface }"

definition dmdhcp_get_user_data :: "('l, void_ptr) lease_monad" where
  "dmdhcp_get_user_data = do {
     bad \<leftarrow> bad_magic;
     if bad then State_Monad.return None else locked_read user_data }"

definition dmdhcp_get_xid :: "('l, u32) lease_monad" where
  "dmdhcp_get_xid = do {
     bad \<leftarrow> bad_magic;
     if bad then State_Monad.return 0 else locked_read xid }"

definition lease_info :: "'l lease \<Rightarrow> dmdhcp_lease_info_t" where
  "lease_info l = \<lparr>info_ip_address = offered_ip l, info_netmask = netmask l, info_gateway = gateway l,
     info_server_id = server_id l, info_lease_time_sec = lease_time_sec l,
     info_renewal_time_sec = t1_sec l, info_rebinding_time_sec = t2_sec l\<rparr>"

definition dmdhcp_get_lease_info :: "bool \<Rightarrow> ('l, errno + dmdhcp_lease_info_t) lease_monad" where
  "dmdhcp_get_lease_info out = do {
     bad \<leftarrow> bad_magic;
     if bad \<or> \<not> out then State_Monad.return (Inl EINVAL)
     else locked_read (\<lambda>l.
       if state l \<noteq> dmdhcp_state_bound \<and> state l \<noteq> dmdhcp_state_renewing \<and> state l \<noteq> dmdhcp_state_rebinding
       then Inl EINVAL else Inr (lease_info l)) }"

definition dmdhcp_get_dns_server_count :: "('l, 't) env \<Rightarrow> ('l, nat) lease_monad" where
  "dmdhcp_get_dns_server_count E = do {
     bad \<leftarrow> bad_magic;
     if bad then State_Monad.return 0
     else locked_read (\<lambda>l. dmlist_size (alist E) (the (dns_servers l))) }"

definition dmdhcp_get_dns_server :: "('l, 't) env \<Rightarrow> nat \<Rightarrow> bool \<Rightarrow> ('l, errno + dmroute_addr_t) lease_monad" where
  "dmdhcp_get_dns_server E index out = do {
     bad \<leftarrow> bad_magic;
     if bad \<or> \<not> out then State_Monad.return (Inl EINVAL)
     else locked_read (\<lambda>l.
       case dmlist_get (alist E) (the (dns_servers l)) index of
         None \<Rightarrow> Inl EINVAL | Some entry \<Rightarrow> Inr entry) }"

definition dmdhcp_get_ntp_server_count :: "('l, 't) env \<Rightarrow> ('l, nat) lease_monad" where
  "dmdhcp_get_ntp_server_count E = do {
     bad \<leftarrow> bad_magic;
     if bad then State_Monad.return 0
     else locked_read (\<lambda>l. dmlist_size (alist E) (the (ntp_servers l))) }"

definition dmdhcp_get_ntp_server :: "('l, 't) env \<Rightarrow> nat \<Rightarrow> bool \<Rightarrow> ('l, errno + dmroute_addr_t) lease_monad" where
  "dmdhcp_get_ntp_server E index out = do {
     bad \<leftarrow> bad_magic;
     if bad \<or> \<not> out then State_Monad.return (Inl EINVAL)
     else locked_read (\<lambda>l.
       case dmlist_get (alist E) (the (ntp_servers l)) index of
         None \<Rightarrow> Inl EINVAL | Some entry \<Rightarrow> Inr entry) }"

definition dmdhcp_renew :: "('l, 't) env \<Rightarrow> ('l, result) lease_monad" where
  "dmdhcp_renew E = do {
     bad \<leftarrow> bad_magic;
     if bad then State_Monad.return (Inl EINVAL)
     else do {
       lock_lease;
       st \<leftarrow> getl state;
       (if st = dmdhcp_state_bound then dmdhcp_output_start_renew E else State_Monad.return ());
       unlock_lease;
       State_Monad.return (Inr ()) } }"

section \<open>Properties\<close>

lemma run_bad_magic [run_simps]:
  "run_state bad_magic s = (magic (cur s) \<noteq> DMDHCP_LEASE_MAGIC, s)" "exec bad_magic s = s"
  by (simp_all add: bad_magic_def run_simps)

lemma run_locked_read [run_simps]:
  "run_state (locked_read f) s
     = (f (cur s), s\<lparr>log := log s @ [Mutex_lock (lock (cur s)), Mutex_unlock (lock (cur s))]\<rparr>)"
  "exec (locked_read f) s = s\<lparr>log := log s @ [Mutex_lock (lock (cur s)), Mutex_unlock (lock (cur s))]\<rparr>"
  by (simp_all add: locked_read_def run_simps)

lemma lease_info_read:
  "run_state (dmdhcp_get_lease_info out) s =
     (if magic (cur s) = DMDHCP_LEASE_MAGIC \<and> out
      then (if holds_valid_lease (cur s) then Inr (lease_info (cur s)) else Inl EINVAL,
            s\<lparr>log := log s @ [Mutex_lock (lock (cur s)), Mutex_unlock (lock (cur s))]\<rparr>)
      else (Inl EINVAL, s))"
  by (simp add: dmdhcp_get_lease_info_def run_simps holds_valid_lease_def)

text \<open>The indexed accessors enumerate the server lists.\<close>

lemma server_accessors:
  assumes "env_ok E" and "magic (cur s) = DMDHCP_LEASE_MAGIC"
    and "dns_servers (cur s) \<noteq> None" and "ntp_servers (cur s) \<noteq> None"
  defines "dns \<equiv> servers_of E (dns_servers (cur s))" and "ntp \<equiv> servers_of E (ntp_servers (cur s))"
  shows "fst (run_state (dmdhcp_get_dns_server_count E) s) = length dns
    \<and> fst (run_state (dmdhcp_get_dns_server E i True) s) = (if i < length dns then Inr (dns ! i) else Inl EINVAL)
    \<and> fst (run_state (dmdhcp_get_ntp_server_count E) s) = length ntp
    \<and> fst (run_state (dmdhcp_get_ntp_server E i True) s) = (if i < length ntp then Inr (ntp ! i) else Inl EINVAL)"
  using assms(2-4)
  by (auto simp: dns_def ntp_def dmdhcp_get_dns_server_count_def dmdhcp_get_dns_server_def
      dmdhcp_get_ntp_server_count_def dmdhcp_get_ntp_server_def run_simps
      dmlist_get_elems [OF env_ok_alist [OF assms(1)]])

lemma renew_effect:
  assumes "magic (cur s) = DMDHCP_LEASE_MAGIC" and "state (cur s) = dmdhcp_state_bound"
  shows "\<exists>x es. exec (dmdhcp_renew E) s =
      s\<lparr>cur := (cur s)\<lparr>xid := x, retransmit_count := 0, retransmit_interval_ms := 4000,
           state := dmdhcp_state_renewing\<rparr>,
        log := log s @ Mutex_lock (lock (cur s)) # es @ armed (retransmit_timer (cur s)) 4000
          @ [Mutex_unlock (lock (cur s))]\<rparr>
    \<and> heap_only 0 es"
proof -
  let ?s = "s\<lparr>log := log s @ [Mutex_lock (lock (cur s))]\<rparr>"
  obtain x es where "exec (dmdhcp_output_start_renew E) ?s =
      ?s\<lparr>cur := (cur ?s)\<lparr>xid := x, retransmit_count := 0, retransmit_interval_ms := 4000,
           state := dmdhcp_state_renewing\<rparr>,
        log := log ?s @ es @ armed (retransmit_timer (cur ?s)) 4000\<rparr>" "heap_only 0 es"
    using start_renew_effect by blast
  with assms show ?thesis
    by - (rule exI [of _ x], rule exI [of _ es], simp add: dmdhcp_renew_def run_simps)
qed

text \<open>
  \<open>dmdhcp_renew()\<close> on a bound lease enters renewing but does not touch the lease timer: it stays
  armed for T1, so the lease goes on to rebinding when T1 is reached instead of T2. On a
  lease in any other state the call succeeds and changes nothing.
\<close>

lemma renew_keeps_t1_deadline:
  fixes E :: "('l, 't) env"
  assumes "magic (cur s) = DMDHCP_LEASE_MAGIC" and "lease_timer (cur s) = Some (Lease_timer (self s))"
    and "retransmit_timer (cur s) = Some (Retransmit_timer (self s))"
  defines "s' \<equiv> exec (dmdhcp_renew E) s"
  shows "fst (run_state (dmdhcp_renew E) s) = Inr ()
    \<and> observe timer_step tv (log s') (Lease_timer (self s)) = observe timer_step tv (log s) (Lease_timer (self s))
    \<and> (if state (cur s) = dmdhcp_state_bound
       then state (cur s') = dmdhcp_state_renewing
         \<and> observe timer_step tv (log s') (Retransmit_timer (self s)) = (4000, True)
       else cur s' = cur s \<and> observe timer_step tv (log s') = observe timer_step tv (log s))"
proof -
  have ok: "fst (run_state (dmdhcp_renew E) s) = Inr ()"
    using assms(1) by (simp add: dmdhcp_renew_def run_simps)
  show ?thesis
  proof (cases "state (cur s) = dmdhcp_state_bound")
    case True
    obtain x es where r: "s' = s\<lparr>cur := (cur s)\<lparr>xid := x, retransmit_count := 0, retransmit_interval_ms := 4000,
           state := dmdhcp_state_renewing\<rparr>,
        log := log s @ Mutex_lock (lock (cur s)) # es @ armed (retransmit_timer (cur s)) 4000
          @ [Mutex_unlock (lock (cur s))]\<rparr>" and es: "heap_only 0 es"
      using renew_effect [OF assms(1) True, of E] unfolding s'_def by blast
    from ok True assms(3) es show ?thesis by (simp add: r)
  next
    case False
    with ok assms(1) show ?thesis by (simp add: s'_def dmdhcp_renew_def run_simps)
  qed
qed

end
