(* ===== verification/Dhcp_Invariant.thy ===== *)
theory Dhcp_Invariant
  imports Dhcp_Access
begin

text \<open>
  The contract of the code that drives a lease. Every handler (the two timer callbacks, the
  dispatch of a received message, \<open>dmdhcp_renew()\<close>) preserves the invariant of the lease, obeys
  the lock rules, leaves the timers the lease waits for running, and allocates exactly
  the server entries it stores. The contract is the interface \<open>lease_handler\<close>; the handlers
  are its instances.
\<close>

section \<open>The invariant of a lease\<close>

text \<open>The states that wait for the retransmission timer.\<close>

definition waiting :: "dmdhcp_state_t \<Rightarrow> bool" where
  "waiting st \<longleftrightarrow> st \<notin> {dmdhcp_state_init, dmdhcp_state_init_reboot, dmdhcp_state_bound, dmdhcp_state_failed}"

definition handles_ok :: "lease_ptr \<Rightarrow> 'l lease \<Rightarrow> bool" where
  "handles_ok p l \<longleftrightarrow> magic l = DMDHCP_LEASE_MAGIC \<and> lock l = Some (Lease_lock p)
     \<and> retransmit_timer l = Some (Retransmit_timer p) \<and> lease_timer l = Some (Lease_timer p)
     \<and> dns_servers l \<noteq> None \<and> ntp_servers l \<noteq> None"

definition servers_v4 :: "('l, 't) env \<Rightarrow> 'l option \<Rightarrow> bool" where
  "servers_v4 E c \<longleftrightarrow> list_all (\<lambda>a. family a = dmroute_family_v4) (servers_of E c)"

definition fields_ok :: "('l, 't) env \<Rightarrow> 'l lease \<Rightarrow> bool" where
  "fields_ok E l \<longleftrightarrow> state l \<noteq> dmdhcp_state_init \<and> state l \<noteq> dmdhcp_state_init_reboot
     \<and> (iface_configured l \<longrightarrow> holds_valid_lease l)
     \<and> (default_route l \<noteq> None \<longrightarrow> iface_configured l)
     \<and> (if state l = dmdhcp_state_selecting then offered_ip l = addr_none
        else family (offered_ip l) = dmroute_family_v4)
     \<and> 4000 \<le> unat (retransmit_interval_ms l) \<and> unat (retransmit_interval_ms l) \<le> 64000
     \<and> unat (retransmit_count l) \<le> 4
     \<and> unat (decline_retry_count l) \<le> (if state l = dmdhcp_state_failed then 4 else 3)
     \<and> servers_v4 E (dns_servers l) \<and> servers_v4 E (ntp_servers l)"

definition lease_inv :: "('l, 't) env \<Rightarrow> lease_ptr \<Rightarrow> 'l lease \<Rightarrow> bool" where
  "lease_inv E p l \<longleftrightarrow> handles_ok p l \<and> fields_ok E l"

text \<open>
  The timers a lease waits for are running. \<open>fired\<close> names a timer that has just fired and is about
  to be served, so it does not run.
\<close>

definition timers_ok :: "timer_id option \<Rightarrow> timers \<Rightarrow> lease_ptr \<Rightarrow> 'l lease \<Rightarrow> bool" where
  "timers_ok fired tv p l \<longleftrightarrow>
     (waiting (state l) \<and> fired \<noteq> Some (Retransmit_timer p) \<longrightarrow> snd (tv (Retransmit_timer p)))
   \<and> (holds_valid_lease l \<and> fired \<noteq> Some (Lease_timer p) \<longrightarrow> snd (tv (Lease_timer p)))"

fun timer_owner :: "timer_id \<Rightarrow> lease_ptr" where
  "timer_owner (Retransmit_timer p) = p"
| "timer_owner (Lease_timer p) = p"

section \<open>The contract\<close>

definition keeps :: "('l, 't) env \<Rightarrow> timer_id option \<Rightarrow> 'l lctx \<Rightarrow> 'l lctx \<Rightarrow> bool" where
  "keeps E fired s s' \<longleftrightarrow> self s' = self s \<and> lease_inv E (self s) (cur s')
     \<and> iface (cur s') = iface (cur s) \<and> hostname (cur s') = hostname (cur s)
     \<and> callbacks (cur s') = callbacks (cur s) \<and> user_data (cur s') = user_data (cur s)
     \<and> (\<exists>es. log s' = log s @ es
          \<and> observe lock_step (Some []) es = Some []
          \<and> (\<forall>L. observe live_step L es = L)
          \<and> (\<forall>tv t. timer_owner t \<noteq> self s \<longrightarrow> observe timer_step tv es t = tv t)
          \<and> (\<forall>tv. timers_ok fired tv (self s) (cur s) \<longrightarrow>
               timers_ok None (observe timer_step tv es) (self s) (cur s'))
          \<and> balance Addr_entry es = stored E (cur s') - stored E (cur s)
          \<and> balance Msg_buffer es = 0 \<and> balance Hostname es = 0)"

locale lease_handler =
  fixes E :: "('l, 't) env"
    and handler :: "('l, 'a) lease_monad"
    and fired :: "lease_ptr \<Rightarrow> timer_id option"
  assumes keeps_inv: "env_ok E \<Longrightarrow> lease_inv E (self s) (cur s) \<Longrightarrow> keeps E (fired (self s)) s (exec handler s)"
begin

lemma preserves:
  assumes "env_ok E" and "lease_inv E (self s) (cur s)"
  shows "lease_inv E (self s) (cur (exec handler s))"
  using keeps_inv [OF assms] by (simp add: keeps_def)

text \<open>Locks: a run from a moment when no lock is held breaks no rule and releases everything.\<close>

lemma lock_discipline:
  assumes "env_ok E" and "lease_inv E (self s) (cur s)" and "observe lock_step (Some []) (log s) = Some []"
  shows "observe lock_step (Some []) (log (exec handler s)) = Some []"
  using keeps_inv [OF assms(1,2)] assms(3) by (auto simp: keeps_def)

text \<open>Timers: no handler leaves the lease in a state where nothing would wake it up.\<close>

lemma timers_running:
  assumes "env_ok E" and "lease_inv E (self s) (cur s)"
    and "timers_ok (fired (self s)) (observe timer_step tv (log s)) (self s) (cur s)"
  shows "timers_ok None (observe timer_step tv (log (exec handler s))) (self s) (cur (exec handler s))"
  using keeps_inv [OF assms(1,2)] assms(3) by (auto simp: keeps_def)

text \<open>Memory: the allocated address entries are those in the two lists, before and after.\<close>

lemma entries_balanced:
  assumes "env_ok E" and "lease_inv E (self s) (cur s)"
    and "balance Addr_entry (log s) = stored E (cur s) + n"
  shows "balance Addr_entry (log (exec handler s)) = stored E (cur (exec handler s)) + n"
  using keeps_inv [OF assms(1,2)] assms(3) by (auto simp: keeps_def)

end

section \<open>The retransmission timer keeps the contract\<close>

lemmas inv_defs = lease_inv_def handles_ok_def fields_ok_def holds_valid_lease_def

lemma keepsI:
  assumes "s' = s\<lparr>cur := l, log := log s @ es\<rparr>" and "lease_inv E (self s) l"
    and "iface l = iface (cur s)" "hostname l = hostname (cur s)"
      "callbacks l = callbacks (cur s)" "user_data l = user_data (cur s)"
    and "observe lock_step (Some []) es = Some []"
    and "\<And>L. observe live_step L es = L"
    and "\<And>tv t. timer_owner t \<noteq> self s \<Longrightarrow> observe timer_step tv es t = tv t"
    and "\<And>tv. timers_ok fired tv (self s) (cur s) \<Longrightarrow> timers_ok None (observe timer_step tv es) (self s) l"
    and "balance Addr_entry es = stored E l - stored E (cur s)"
    and "balance Msg_buffer es = 0" "balance Hostname es = 0"
  shows "keeps E fired s s'"
  using assms by (simp add: keeps_def)

lemma heap_only_balance:
  assumes "heap_only n es"
  shows "balance Addr_entry es = n" "balance Msg_buffer es = 0" "balance Hostname es = 0"
    "observe lock_step h es = h" "observe timer_step tv es = tv" "observe live_step L es = L"
  using assms by (simp_all add: heap_only_def)

lemma calm_balance:
  assumes "calm n es"
  shows "balance Addr_entry es = n" "balance Msg_buffer es = 0" "balance Hostname es = 0"
    "observe lock_step h es = h" "observe timer_step tv es = tv" "observe live_step L es = L"
  using assms by (simp_all add: calm_def calm_unobserved [OF assms])

lemma timer_owner_neq:
  "timer_owner t \<noteq> p \<Longrightarrow> t \<noteq> Retransmit_timer p" "timer_owner t \<noteq> p \<Longrightarrow> t \<noteq> Lease_timer p"
  by auto

lemma interval_ok:
  assumes "4000 \<le> unat n" and "unat n \<le> 64000"
  shows "4000 \<le> unat (next_backoff n)" "unat (next_backoff n) \<le> 64000"
  using unat_next_backoff [OF assms(2)] assms by simp_all

text \<open>Sending again with a longer interval.\<close>

lemma retransmit_resend_effect:
  assumes "magic (cur s) = DMDHCP_LEASE_MAGIC"
    and "state (cur s) \<in> {dmdhcp_state_selecting, dmdhcp_state_renewing, dmdhcp_state_rebinding}
        \<and> c = retransmit_count (cur s)
      \<or> state (cur s) \<in> {dmdhcp_state_requesting, dmdhcp_state_rebooting}
        \<and> c = retransmit_count (cur s) + 1 \<and> c \<le> 4"
  shows "\<exists>es. heap_only 0 es \<and> exec (retransmit_timer_callback E) s =
      s\<lparr>cur := (cur s)\<lparr>retransmit_count := c,
           retransmit_interval_ms := next_backoff (retransmit_interval_ms (cur s))\<rparr>,
        log := log s @ Mutex_lock (lock (cur s)) # es
          @ armed (retransmit_timer (cur s)) (next_backoff (retransmit_interval_ms (cur s)))
          @ [Mutex_unlock (lock (cur s))]\<rparr>"
proof -
  let ?s = "s\<lparr>cur := (cur s)\<lparr>retransmit_count := c\<rparr>, log := log s @ [Mutex_lock (lock (cur s))]\<rparr>"
  have same: "c = retransmit_count (cur s) \<Longrightarrow>
      ?s = s\<lparr>log := log s @ [Mutex_lock (lock (cur s))]\<rparr>" by simp
  obtain e1 e2 e3 e4 e5 where es:
    "exec (send_discover E) ?s = ?s\<lparr>log := log ?s @ e1\<rparr>" "heap_only 0 e1"
    "exec (send_request_selecting E) ?s = ?s\<lparr>log := log ?s @ e2\<rparr>" "heap_only 0 e2"
    "exec (send_request_reboot E) ?s = ?s\<lparr>log := log ?s @ e3\<rparr>" "heap_only 0 e3"
    "exec (send_request_renew E) ?s = ?s\<lparr>log := log ?s @ e4\<rparr>" "heap_only 0 e4"
    "exec (send_request_rebind E) ?s = ?s\<lparr>log := log ?s @ e5\<rparr>" "heap_only 0 e5"
    using sender_effects(1-5) by metis
  note run = retransmit_timer_callback_def run_simps assms(1) Let_def time_consts
  consider "state (cur s) = dmdhcp_state_selecting" "c = retransmit_count (cur s)"
    | "state (cur s) = dmdhcp_state_renewing" "c = retransmit_count (cur s)"
    | "state (cur s) = dmdhcp_state_rebinding" "c = retransmit_count (cur s)"
    | "state (cur s) = dmdhcp_state_requesting" "c = retransmit_count (cur s) + 1" "\<not> c > 4"
    | "state (cur s) = dmdhcp_state_rebooting" "c = retransmit_count (cur s) + 1" "\<not> c > 4"
    using assms(2) by (auto simp: not_less)
  then show ?thesis
  proof cases
    case 1
    with es(1,2) show ?thesis by - (rule exI [of _ e1], simp add: run)
  next
    case 2
    with es(7,8) show ?thesis by - (rule exI [of _ e4], simp add: run)
  next
    case 3
    with es(9,10) show ?thesis by - (rule exI [of _ e5], simp add: run)
  next
    case 4
    with es(3,4) show ?thesis by - (rule exI [of _ e2], simp add: run)
  next
    case 5
    with es(5,6) show ?thesis by - (rule exI [of _ e3], simp add: run)
  qed
qed

lemma retransmit_resend_keeps:
  assumes "lease_inv E (self s) (cur s)"
    and "state (cur s) \<in> {dmdhcp_state_selecting, dmdhcp_state_renewing, dmdhcp_state_rebinding}
        \<and> c = retransmit_count (cur s)
      \<or> state (cur s) \<in> {dmdhcp_state_requesting, dmdhcp_state_rebooting}
        \<and> c = retransmit_count (cur s) + 1 \<and> c \<le> 4"
  shows "keeps E (Some (Retransmit_timer (self s))) s (exec (retransmit_timer_callback E) s)"
proof -
  have "magic (cur s) = DMDHCP_LEASE_MAGIC" using assms(1) by (simp add: inv_defs)
  from retransmit_resend_effect [OF this assms(2)] obtain es where es: "heap_only 0 es"
    and run: "exec (retransmit_timer_callback E) s =
      s\<lparr>cur := (cur s)\<lparr>retransmit_count := c,
           retransmit_interval_ms := next_backoff (retransmit_interval_ms (cur s))\<rparr>,
        log := log s @ Mutex_lock (lock (cur s)) # es
          @ armed (retransmit_timer (cur s)) (next_backoff (retransmit_interval_ms (cur s)))
          @ [Mutex_unlock (lock (cur s))]\<rparr>"
    by blast
  have "unat c \<le> 4"
    using assms by (auto simp: inv_defs word_le_nat_alt)
  with assms(1) es interval_ok show ?thesis
    by (intro keepsI [OF run])
      (auto simp: inv_defs heap_only_balance timers_ok_def stored_def dest: timer_owner_neq)
qed

text \<open>Giving up and starting discovery again.\<close>

lemma emptied_servers:
  assumes "emptied E c c'"
  shows "servers_of E c' = []" "servers_v4 E c'" "c' = None \<longleftrightarrow> c = None"
  using assms by (simp_all add: emptied_def servers_v4_def)

lemma restart_keeps:
  assumes E: "env_ok E" and inv: "lease_inv E (self s) (cur s)" and "\<not> iface_configured (cur s)"
    and "state (cur s) \<noteq> dmdhcp_state_failed" and "\<not> holds_valid_lease (cur s)"
  shows "keeps E fired s (exec (handle_lost_restart E) (s\<lparr>cur := (cur s)\<lparr>retransmit_count := c\<rparr>\<rparr>))"
proof -
  let ?s = "s\<lparr>cur := (cur s)\<lparr>retransmit_count := c\<rparr>\<rparr>"
  obtain x es dns ntp where run: "exec (handle_lost_restart E) ?s =
      s\<lparr>cur := (cur s)\<lparr>xid := x, offered_ip := addr_none, server_id := addr_none,
           gateway := addr_none, netmask := addr_none, dns_servers := dns, ntp_servers := ntp,
           retransmit_count := 0, retransmit_interval_ms := 4000, state := dmdhcp_state_selecting\<rparr>,
        log := log s @ Mutex_lock (lock (cur s)) # es @ armed (retransmit_timer (cur s)) 4000
          @ [Mutex_unlock (lock (cur s))]\<rparr>"
    and es: "heap_only (- int (length (servers_of E (dns_servers (cur s))))
                - int (length (servers_of E (ntp_servers (cur s))))) es"
    and empt: "emptied E (dns_servers (cur s)) dns" "emptied E (ntp_servers (cur s)) ntp"
    using handle_lost_restart_effect [OF E, of ?s] by auto
  from inv assms(3-5) es show ?thesis
    by (intro keepsI [OF run])
      (auto simp: inv_defs heap_only_balance [OF es] timers_ok_def stored_def
        emptied_servers [OF empt(1)] emptied_servers [OF empt(2)] dest: timer_owner_neq)
qed

lemma retransmit_restart_effect:
  assumes "magic (cur s) = DMDHCP_LEASE_MAGIC"
  shows "state (cur s) = dmdhcp_state_declining \<Longrightarrow>
      exec (retransmit_timer_callback E) s = exec (handle_lost_restart E) s"
    and "state (cur s) \<in> {dmdhcp_state_requesting, dmdhcp_state_rebooting} \<Longrightarrow> retransmit_count (cur s) + 1 > 4 \<Longrightarrow>
      exec (retransmit_timer_callback E) s = exec (handle_lost_restart E)
        (s\<lparr>cur := (cur s)\<lparr>retransmit_count := retransmit_count (cur s) + 1\<rparr>\<rparr>)"
  using assms
  by (auto simp: retransmit_timer_callback_def handle_lost_restart_def run_simps time_consts)

lemma retransmit_restart_keeps:
  assumes "env_ok E" and inv: "lease_inv E (self s) (cur s)"
    and "state (cur s) = dmdhcp_state_declining
      \<or> state (cur s) \<in> {dmdhcp_state_requesting, dmdhcp_state_rebooting} \<and> retransmit_count (cur s) + 1 > 4"
  shows "keeps E fired s (exec (retransmit_timer_callback E) s)"
proof -
  have m: "magic (cur s) = DMDHCP_LEASE_MAGIC" "\<not> iface_configured (cur s)"
    "state (cur s) \<noteq> dmdhcp_state_failed" "\<not> holds_valid_lease (cur s)"
    using inv assms(3) by (auto simp: inv_defs)
  from assms(3) show ?thesis
    using restart_keeps [OF assms(1) inv m(2-4), of fired "retransmit_count (cur s)"]
      restart_keeps [OF assms(1) inv m(2-4), of fired "retransmit_count (cur s) + 1"]
    by (auto simp: retransmit_restart_effect [OF m(1)])
qed

text \<open>The conflict probe.\<close>

lemma retransmit_probe_effect:
  assumes "magic (cur s) = DMDHCP_LEASE_MAGIC"
    and "state (cur s) \<in> {dmdhcp_state_checking_offer, dmdhcp_state_checking_ack}"
  shows "exec (retransmit_timer_callback E) s = exec unlock_lease
    (exec (run_conflict_probe E) (s\<lparr>log := log s @ [Mutex_lock (lock (cur s))]\<rparr>))"
  using assms by (auto simp: retransmit_timer_callback_def run_simps)

lemma call_observed [simp]:
  "observe lock_step (Some []) (error_call s) = Some []" "observe lock_step (Some []) (bound_call b s) = Some []"
  "observe lock_step (Some []) (expired_call s) = Some []"
  "observe timer_step tv (error_call s) = tv" "observe timer_step tv (bound_call b s) = tv"
  "observe timer_step tv (expired_call s) = tv"
  "observe live_step L (error_call s) = L" "observe live_step L (bound_call b s) = L"
  "observe live_step L (expired_call s) = L"
  "balance k (error_call s) = 0" "balance k (bound_call b s) = 0" "balance k (expired_call s) = 0"
  by (simp_all add: error_call_def bound_call_def expired_call_def split: option.splits)

lemma conflict_keeps:
  assumes inv: "lease_inv E (self s) (cur s)"
    and st: "state (cur s) \<in> {dmdhcp_state_checking_offer, dmdhcp_state_checking_ack}"
    and arp: "\<not> isl (env_arp_resolve E (log s @ [Mutex_lock (lock (cur s))]) (iface (cur s)) (offered_ip (cur s)))"
  shows "keeps E fired s (exec (retransmit_timer_callback E) s)"
proof -
  let ?n = "decline_retry_count (cur s) + 1"
  let ?s = "s\<lparr>log := log s @ [Mutex_lock (lock (cur s))]\<rparr>"
  let ?a = "Arp_resolve (iface (cur s)) (offered_ip (cur s)) 1000 (Inr ())"
  let ?t = "s\<lparr>log := log s @ [Mutex_lock (lock (cur s)), ?a]\<rparr>"
  have m: "magic (cur s) = DMDHCP_LEASE_MAGIC" and n: "unat (decline_retry_count (cur s)) \<le> 3"
    using inv st by (auto simp: inv_defs)
  have un: "unat ?n = unat (decline_retry_count (cur s)) + 1"
    using n by (simp add: unat_word_ariths)
  obtain es where es: "heap_only 0 es" and c: "exec (handle_conflict E) ?t =
     (if ?n > 3
      then ?t\<lparr>cur := (cur ?t)\<lparr>decline_retry_count := ?n, state := dmdhcp_state_failed\<rparr>,
             log := log ?t @ es @ Mutex_unlock (lock (cur ?t)) # error_call ?t @ [Mutex_lock (lock (cur ?t))]\<rparr>
      else ?t\<lparr>cur := (cur ?t)\<lparr>decline_retry_count := ?n, state := dmdhcp_state_declining\<rparr>,
             log := log ?t @ es @ armed (retransmit_timer (cur ?t)) 10000\<rparr>)"
    using handle_conflict_effect [of E ?t] by auto
  have run: "exec (retransmit_timer_callback E) s = exec unlock_lease (exec (handle_conflict E) ?t)"
    using retransmit_probe_effect [OF m st, of E] probe_conflict_effect [of E ?s] arp by simp
  show ?thesis
  proof (cases "?n > 3")
    case True
    then have r: "exec (retransmit_timer_callback E) s =
        s\<lparr>cur := (cur s)\<lparr>decline_retry_count := ?n, state := dmdhcp_state_failed\<rparr>,
          log := log s @ Mutex_lock (lock (cur s)) # ?a # es @ Mutex_unlock (lock (cur s)) # error_call ?t
            @ [Mutex_lock (lock (cur s)), Mutex_unlock (lock (cur s))]\<rparr>"
      by (simp add: run c run_simps)
    show ?thesis
      using inv st un n es
      by (intro keepsI [OF r]) (auto simp: inv_defs heap_only_balance [OF es] timers_ok_def waiting_def stored_def)
  next
    case False
    then have r: "exec (retransmit_timer_callback E) s =
        s\<lparr>cur := (cur s)\<lparr>decline_retry_count := ?n, state := dmdhcp_state_declining\<rparr>,
          log := log s @ Mutex_lock (lock (cur s)) # ?a # es @ armed (retransmit_timer (cur s)) 10000
            @ [Mutex_unlock (lock (cur s))]\<rparr>"
      by (simp add: run c run_simps)
    from False have "unat ?n \<le> 3" by (simp add: word_less_nat_alt)
    with inv st es show ?thesis
      by (intro keepsI [OF r]) (auto simp: inv_defs heap_only_balance [OF es] timers_ok_def stored_def dest: timer_owner_neq)
  qed
qed

lemma probe_offer_keeps:
  assumes inv: "lease_inv E (self s) (cur s)" and st: "state (cur s) = dmdhcp_state_checking_offer"
    and arp: "isl (env_arp_resolve E (log s @ [Mutex_lock (lock (cur s))]) (iface (cur s)) (offered_ip (cur s)))"
  shows "keeps E fired s (exec (retransmit_timer_callback E) s)"
proof -
  let ?s = "s\<lparr>log := log s @ [Mutex_lock (lock (cur s))]\<rparr>"
  have m: "magic (cur s) = DMDHCP_LEASE_MAGIC" using inv by (simp add: inv_defs)
  obtain es where es: "calm 0 es" and p: "exec (run_conflict_probe E) ?s =
      ?s\<lparr>cur := (cur ?s)\<lparr>state := dmdhcp_state_requesting, retransmit_count := 0, retransmit_interval_ms := 4000\<rparr>,
        log := log ?s @ es @ armed (retransmit_timer (cur ?s)) 4000\<rparr>"
    using probe_offer_effect [of E ?s] arp st by auto
  have r: "exec (retransmit_timer_callback E) s =
      s\<lparr>cur := (cur s)\<lparr>state := dmdhcp_state_requesting, retransmit_count := 0, retransmit_interval_ms := 4000\<rparr>,
        log := log s @ Mutex_lock (lock (cur s)) # es @ armed (retransmit_timer (cur s)) 4000
          @ [Mutex_unlock (lock (cur s))]\<rparr>"
    using retransmit_probe_effect [OF m, of E] st p by (simp add: run_simps)
  from inv st show ?thesis
    by (intro keepsI [OF r])
      (auto simp: inv_defs calm_balance [OF es] timers_ok_def stored_def dest: timer_owner_neq)
qed

lemma probe_ack_keeps:
  assumes inv: "lease_inv E (self s) (cur s)" and st: "state (cur s) = dmdhcp_state_checking_ack"
    and arp: "isl (env_arp_resolve E (log s @ [Mutex_lock (lock (cur s))]) (iface (cur s)) (offered_ip (cur s)))"
  shows "keeps E fired s (exec (retransmit_timer_callback E) s)"
proof -
  let ?s = "s\<lparr>log := log s @ [Mutex_lock (lock (cur s))]\<rparr>"
  have m: "magic (cur s) = DMDHCP_LEASE_MAGIC" using inv by (simp add: inv_defs)
  obtain es r ok where es: "calm 0 es"
    and ok: "iface_configured (cur ?s) \<longrightarrow> ok" "r \<noteq> None \<longrightarrow> ok \<or> r = default_route (cur ?s)"
    and p: "exec (run_conflict_probe E) ?s =
      ?s\<lparr>cur := (cur ?s)\<lparr>default_route := r, iface_configured := ok, state := dmdhcp_state_bound, decline_retry_count := 0\<rparr>,
        log := log ?s @ es @ armed (lease_timer (cur ?s)) (t1_period (cur ?s))
          @ Mutex_unlock (lock (cur ?s)) # bound_call False ?s @ [Mutex_lock (lock (cur ?s))]\<rparr>"
    using probe_ack_effect [of E ?s] arp st by auto
  have run: "exec (retransmit_timer_callback E) s =
      s\<lparr>cur := (cur s)\<lparr>default_route := r, iface_configured := ok, state := dmdhcp_state_bound, decline_retry_count := 0\<rparr>,
        log := log s @ Mutex_lock (lock (cur s)) # es @ armed (lease_timer (cur s)) (t1_period (cur s))
          @ Mutex_unlock (lock (cur s)) # bound_call False ?s @ [Mutex_lock (lock (cur s)), Mutex_unlock (lock (cur s))]\<rparr>"
    using retransmit_probe_effect [OF m, of E] st p by (simp add: run_simps)
  have "\<not> iface_configured (cur s)" and "default_route (cur s) = None"
    using inv st by (auto simp: inv_defs)
  with inv st ok show ?thesis
    by (intro keepsI [OF run])
      (auto simp: inv_defs calm_balance [OF es] timers_ok_def waiting_def stored_def dest: timer_owner_neq)
qed

lemma stale_keeps:
  assumes "lease_inv E (self s) (cur s)"
    and "exec m s = s\<lparr>log := log s @ [Mutex_lock (lock (cur s)), Mutex_unlock (lock (cur s))]\<rparr>"
    and "\<And>tv. timers_ok fired tv (self s) (cur s) \<Longrightarrow> timers_ok None tv (self s) (cur s)"
  shows "keeps E fired s (exec m s)"
proof -
  have "exec m s = s\<lparr>cur := cur s, log := log s @ [Mutex_lock (lock (cur s)), Mutex_unlock (lock (cur s))]\<rparr>"
    using assms(2) by simp
  from assms(1,3) show ?thesis
    by (intro keepsI [OF \<open>exec m s = s\<lparr>cur := cur s, log := _\<rparr>\<close>]) (auto simp: inv_defs)
qed

lemma retransmit_timer_keeps:
  assumes E: "env_ok E" and inv: "lease_inv E (self s) (cur s)"
  shows "keeps E (Some (Retransmit_timer (self s))) s (exec (retransmit_timer_callback E) s)"
proof -
  have m: "magic (cur s) = DMDHCP_LEASE_MAGIC" using inv by (simp add: inv_defs)
  consider "state (cur s) \<in> {dmdhcp_state_selecting, dmdhcp_state_renewing, dmdhcp_state_rebinding}"
    | "state (cur s) \<in> {dmdhcp_state_requesting, dmdhcp_state_rebooting}" "retransmit_count (cur s) + 1 \<le> 4"
    | "state (cur s) \<in> {dmdhcp_state_requesting, dmdhcp_state_rebooting}" "retransmit_count (cur s) + 1 > 4"
    | "state (cur s) = dmdhcp_state_declining"
    | "state (cur s) \<in> {dmdhcp_state_checking_offer, dmdhcp_state_checking_ack}"
    | "state (cur s) \<in> {dmdhcp_state_bound, dmdhcp_state_failed, dmdhcp_state_init, dmdhcp_state_init_reboot}"
    by (cases "state (cur s)"; cases "retransmit_count (cur s) + 1 \<le> 4") (auto simp: not_le)
  then show ?thesis
  proof cases
    case 1
    then show ?thesis using retransmit_resend_keeps [OF inv] by blast
  next
    case 2
    then show ?thesis using retransmit_resend_keeps [OF inv] by blast
  next
    case 3
    then show ?thesis using retransmit_restart_keeps [OF E inv] by blast
  next
    case 4
    then show ?thesis using retransmit_restart_keeps [OF E inv] by blast
  next
    case 5
    then show ?thesis
      using conflict_keeps [OF inv] probe_offer_keeps [OF inv] probe_ack_keeps [OF inv] by blast
  next
    case 6
    then have "exec (retransmit_timer_callback E) s
        = s\<lparr>log := log s @ [Mutex_lock (lock (cur s)), Mutex_unlock (lock (cur s))]\<rparr>"
      using m by (auto simp: retransmit_timer_callback_def run_simps)
    then show ?thesis
      using 6 by (intro stale_keeps [OF inv]) (auto simp: timers_ok_def waiting_def)
  qed
qed

interpretation retransmit: lease_handler E "retransmit_timer_callback E" "\<lambda>p. Some (Retransmit_timer p)" for E
  by unfold_locales (rule retransmit_timer_keeps)

section \<open>The lease timer keeps the contract\<close>

lemma lost_keeps:
  assumes E: "env_ok E" and inv: "lease_inv E (self s) (cur s)" and v: "holds_valid_lease (cur s)"
  shows "keeps E fired s (exec (dmdhcp_lifecycle_handle_lost E)
    (s\<lparr>log := log s @ [Mutex_lock (lock (cur s)), Mutex_unlock (lock (cur s))]\<rparr>))"
proof -
  let ?m = "lock (cur s)"
  let ?s = "s\<lparr>log := log s @ [Mutex_lock ?m, Mutex_unlock ?m]\<rparr>"
  obtain x es fs gs dns ntp where run0: "exec (dmdhcp_lifecycle_handle_lost E) ?s =
      ?s\<lparr>cur := (cur ?s)\<lparr>default_route := (if iface_configured (cur ?s) then None else default_route (cur ?s)),
           iface_configured := False, xid := x, offered_ip := addr_none, server_id := addr_none,
           gateway := addr_none, netmask := addr_none, dns_servers := dns, ntp_servers := ntp,
           retransmit_count := 0, retransmit_interval_ms := 4000, state := dmdhcp_state_selecting\<rparr>,
        log := log ?s @ Mutex_lock (lock (cur ?s)) # es @ fs @ Mutex_unlock (lock (cur ?s)) # expired_call ?s
          @ Mutex_lock (lock (cur ?s)) # gs @ armed (retransmit_timer (cur ?s)) 4000
          @ [Mutex_unlock (lock (cur ?s))]\<rparr>"
    and es: "list_all net_call es" and fs: "heap_only (- int (length (servers_of E (ntp_servers (cur ?s))))) fs"
    and gs: "heap_only (- int (length (servers_of E (dns_servers (cur ?s))))) gs"
    and empt: "emptied E (dns_servers (cur ?s)) dns" "emptied E (ntp_servers (cur ?s)) ntp"
    using handle_lost_effect [OF E, of ?s] by blast
  have run: "exec (dmdhcp_lifecycle_handle_lost E) ?s =
      s\<lparr>cur := (cur s)\<lparr>default_route := (if iface_configured (cur s) then None else default_route (cur s)),
           iface_configured := False, xid := x, offered_ip := addr_none, server_id := addr_none,
           gateway := addr_none, netmask := addr_none, dns_servers := dns, ntp_servers := ntp,
           retransmit_count := 0, retransmit_interval_ms := 4000, state := dmdhcp_state_selecting\<rparr>,
        log := log s @ Mutex_lock ?m # Mutex_unlock ?m # Mutex_lock ?m # es @ fs @ Mutex_unlock ?m # expired_call ?s
          @ Mutex_lock ?m # gs @ armed (retransmit_timer (cur s)) 4000 @ [Mutex_unlock ?m]\<rparr>"
    unfolding run0 by simp
  have "default_route (cur s) = None \<or> iface_configured (cur s)"
    using inv by (auto simp: inv_defs)
  with inv v show ?thesis
    by (intro keepsI [OF run])
      (auto simp: inv_defs heap_only_balance [OF fs] heap_only_balance [OF gs] net_calls_unobserved [OF es]
        timers_ok_def stored_def emptied_servers [OF empt(1)] emptied_servers [OF empt(2)]
        dest: timer_owner_neq)
qed

text \<open>The lease timer at T1 and at T2: the next message goes out and the next deadline is armed.\<close>

lemma lease_timer_renew_effect:
  assumes m: "magic (cur s) = DMDHCP_LEASE_MAGIC" and "state (cur s) \<in> {dmdhcp_state_bound, dmdhcp_state_renewing}"
  defines "st \<equiv> if state (cur s) = dmdhcp_state_bound then dmdhcp_state_renewing else dmdhcp_state_rebinding"
  defines "n \<equiv> if state (cur s) = dmdhcp_state_bound then t2_period (cur s) else expiry_period (cur s)"
  shows "\<exists>es. exec (lease_timer_callback E) s =
      s\<lparr>cur := (cur s)\<lparr>xid := env_rand32 E (log s @ [Mutex_lock (lock (cur s))]), retransmit_count := 0, retransmit_interval_ms := 4000, state := st\<rparr>,
        log := log s @ Mutex_lock (lock (cur s)) # es @ armed (retransmit_timer (cur s)) 4000
          @ armed (lease_timer (cur s)) n @ [Mutex_unlock (lock (cur s))]\<rparr>
    \<and> heap_only 0 es"
proof -
  let ?s = "s\<lparr>log := log s @ [Mutex_lock (lock (cur s))]\<rparr>"
  have per: "t2_period (l\<lparr>xid := x, retransmit_count := a, retransmit_interval_ms := b, state := c\<rparr>) = t2_period l"
    "expiry_period (l\<lparr>xid := x, retransmit_count := a, retransmit_interval_ms := b, state := c\<rparr>) = expiry_period l"
    for l :: "'a lease" and x a b c
    by (simp_all add: t2_period_def expiry_period_def)
  from start_renew_effect [of E ?s] start_rebind_effect [of E ?s] assms(2) m show ?thesis
    by (auto simp: lease_timer_callback_def run_simps st_def n_def per)
qed

lemma lease_timer_renew_keeps:
  assumes inv: "lease_inv E (self s) (cur s)"
    and st: "state (cur s) \<in> {dmdhcp_state_bound, dmdhcp_state_renewing}"
  shows "keeps E (Some (Lease_timer (self s))) s (exec (lease_timer_callback E) s)"
proof -
  have m: "magic (cur s) = DMDHCP_LEASE_MAGIC" using inv by (simp add: inv_defs)
  from lease_timer_renew_effect [OF m st, of E] obtain es where es: "heap_only 0 es" and run: "exec (lease_timer_callback E) s =
      s\<lparr>cur := (cur s)\<lparr>xid := env_rand32 E (log s @ [Mutex_lock (lock (cur s))]), retransmit_count := 0, retransmit_interval_ms := 4000,
          state := (if state (cur s) = dmdhcp_state_bound then dmdhcp_state_renewing else dmdhcp_state_rebinding)\<rparr>,
        log := log s @ Mutex_lock (lock (cur s)) # es @ armed (retransmit_timer (cur s)) 4000
          @ armed (lease_timer (cur s)) (if state (cur s) = dmdhcp_state_bound then t2_period (cur s) else expiry_period (cur s))
          @ [Mutex_unlock (lock (cur s))]\<rparr>"
    by (elim exE conjE) (rule that)
  from inv st show ?thesis
    by (intro keepsI [OF run])
      (auto simp: inv_defs heap_only_balance [OF es] timers_ok_def stored_def dest: timer_owner_neq)
qed

lemma lease_timer_keeps:
  assumes E: "env_ok E" and inv: "lease_inv E (self s) (cur s)"
  shows "keeps E (Some (Lease_timer (self s))) s (exec (lease_timer_callback E) s)"
proof -
  have m: "magic (cur s) = DMDHCP_LEASE_MAGIC" using inv by (simp add: inv_defs)
  consider "state (cur s) \<in> {dmdhcp_state_bound, dmdhcp_state_renewing}" | "state (cur s) = dmdhcp_state_rebinding"
    | "\<not> holds_valid_lease (cur s)"
    by (auto simp: holds_valid_lease_def)
  then show ?thesis
  proof cases
    case 1
    then show ?thesis by (rule lease_timer_renew_keeps [OF inv])
  next
    case 2
    then have "exec (lease_timer_callback E) s = exec (dmdhcp_lifecycle_handle_lost E)
        (s\<lparr>log := log s @ [Mutex_lock (lock (cur s)), Mutex_unlock (lock (cur s))]\<rparr>)"
      using m by (simp add: lease_timer_callback_def run_simps)
    with lost_keeps [OF E inv] 2 show ?thesis by (simp add: holds_valid_lease_def)
  next
    case 3
    then have "exec (lease_timer_callback E) s
        = s\<lparr>log := log s @ [Mutex_lock (lock (cur s)), Mutex_unlock (lock (cur s))]\<rparr>"
      using m by (auto simp: lease_timer_callback_def run_simps holds_valid_lease_def)
    then show ?thesis
      using 3 by (intro stale_keeps [OF inv]) (auto simp: timers_ok_def)
  qed
qed

interpretation lease_expiry: lease_handler E "lease_timer_callback E" "\<lambda>p. Some (Lease_timer p)" for E
  by unfold_locales (rule lease_timer_keeps)

section \<open>Received messages and renewal keep the contract\<close>

lemma values_v4: "list_all (\<lambda>a. family a = dmroute_family_v4) (dns_value options)"
  "list_all (\<lambda>a. family a = dmroute_family_v4) (ntp_value options)"
  by (auto simp: dns_value_def ntp_value_def split_addrs_def list_all_iff split: option.splits)

lemma filled_v4:
  assumes "filled E as c es" and "list_all (\<lambda>a. family a = dmroute_family_v4) as"
  shows "servers_v4 E (Some c)"
  using assms unfolding filled_def servers_v4_def list_all_iff
  by (metis in_set_takeD servers_of_simps(2))

lemma populated_simps [simp]:
  "magic (populated m os d n l) = magic l" "lock (populated m os d n l) = lock l"
  "iface (populated m os d n l) = iface l" "state (populated m os d n l) = state l"
  "offered_ip (populated m os d n l) = msg_yiaddr m"
  "dns_servers (populated m os d n l) = Some d" "ntp_servers (populated m os d n l) = Some n"
  "retransmit_interval_ms (populated m os d n l) = retransmit_interval_ms l"
  "retransmit_count (populated m os d n l) = retransmit_count l"
  "decline_retry_count (populated m os d n l) = decline_retry_count l"
  "retransmit_timer (populated m os d n l) = retransmit_timer l"
  "lease_timer (populated m os d n l) = lease_timer l"
  "default_route (populated m os d n l) = default_route l"
  "iface_configured (populated m os d n l) = iface_configured l"
  "hostname (populated m os d n l) = hostname l" "callbacks (populated m os d n l) = callbacks l"
  "user_data (populated m os d n l) = user_data l"
  by (simp_all add: populated_def)

lemma stored_populated: "stored E (populated m os d n l) = int (dmlist_size (alist E) d) + int (dmlist_size (alist E) n)"
  by (simp add: stored_def)

lemma yiaddr_v4 [simp]: "family (msg_yiaddr (wire_view m)) = dmroute_family_v4"
  by (simp add: wire_view_def as_v4_def)

lemma dispatch_offer_keeps:
  assumes E: "env_ok E" and inv: "lease_inv E (self s) (cur s)"
    and branch: "ty = 2 \<and> state (cur s) = dmdhcp_state_selecting \<and> st' = dmdhcp_state_checking_offer
      \<or> ty = 5 \<and> state (cur s) \<in> {dmdhcp_state_requesting, dmdhcp_state_rebooting} \<and> st' = dmdhcp_state_checking_ack"
  shows "keeps E None s (exec (dispatch_message E ty (wire_view m) options) s)"
proof -
  have h: "dns_servers (cur s) \<noteq> None" "ntp_servers (cur s) \<noteq> None"
    using inv by (auto simp: inv_defs)
  obtain es dns ntp where run: "exec (dispatch_message E ty (wire_view m) options) s
      = s\<lparr>cur := (populated (wire_view m) options dns ntp (cur s))\<lparr>state := st'\<rparr>,
          log := log s @ Mutex_lock (lock (cur s)) # es @ armed (retransmit_timer (cur s)) 1
            @ [Mutex_unlock (lock (cur s))]\<rparr>"
    and fill: "filled E (dns_value options) dns es" "filled E (ntp_value options) ntp es"
    and es: "heap_only (stored E (populated (wire_view m) options dns ntp (cur s)) - stored E (cur s)) es"
    using dispatch_offer_effect [OF E h branch] by blast
  note v4 = filled_v4 [OF fill(1) values_v4(1)] filled_v4 [OF fill(2) values_v4(2)]
  have "stored E ((populated (wire_view m) options dns ntp (cur s))\<lparr>state := st'\<rparr>)
      = stored E (populated (wire_view m) options dns ntp (cur s))"
    by (simp add: stored_def)
  with inv branch show ?thesis
    by (intro keepsI [OF run])
      (auto simp: inv_defs heap_only_balance [OF es] v4 timers_ok_def dest: timer_owner_neq)
qed

lemma dispatch_renewed_keeps:
  assumes E: "env_ok E" and inv: "lease_inv E (self s) (cur s)"
    and branch: "state (cur s) \<in> {dmdhcp_state_renewing, dmdhcp_state_rebinding}"
  shows "keeps E None s (exec (dispatch_message E 5 (wire_view m) options) s)"
proof -
  have h: "dns_servers (cur s) \<noteq> None" "ntp_servers (cur s) \<noteq> None"
    using inv by (auto simp: inv_defs)
  obtain es fs dns ntp r ok where run: "exec (dispatch_message E 5 (wire_view m) options) s
      = s\<lparr>cur := (populated (wire_view m) options dns ntp (cur s))\<lparr>default_route := r, iface_configured := ok,
             state := dmdhcp_state_bound, decline_retry_count := 0\<rparr>,
          log := log s @ Mutex_lock (lock (cur s)) # es @ fs
            @ armed (lease_timer (cur s)) (t1_period (populated (wire_view m) options dns ntp (cur s)))
            @ Mutex_unlock (lock (cur s)) # bound_call True s\<rparr>"
    and fill: "filled E (dns_value options) dns es" "filled E (ntp_value options) ntp es"
    and es: "heap_only (stored E (populated (wire_view m) options dns ntp (cur s)) - stored E (cur s)) es"
    and fs: "list_all net_call fs" and ok: "iface_configured (cur s) \<longrightarrow> ok"
      "r \<noteq> None \<longrightarrow> ok \<or> r = default_route (cur s)"
    using dispatch_renewed_effect [OF E h branch] by blast
  note v4 = filled_v4 [OF fill(1) values_v4(1)] filled_v4 [OF fill(2) values_v4(2)]
  have "stored E ((populated (wire_view m) options dns ntp (cur s))\<lparr>default_route := r, iface_configured := ok,
      state := dmdhcp_state_bound, decline_retry_count := 0\<rparr>)
      = stored E (populated (wire_view m) options dns ntp (cur s))"
    by (simp add: stored_def)
  moreover have "r \<noteq> None \<longrightarrow> ok"
    using ok inv by (auto simp: inv_defs)
  ultimately show ?thesis
    using inv branch
    by (intro keepsI [OF run])
      (auto simp: inv_defs heap_only_balance [OF es] net_calls_unobserved [OF fs] v4 timers_ok_def waiting_def
        dest: timer_owner_neq)
qed

lemma dispatch_keeps:
  assumes E: "env_ok E" and inv: "lease_inv E (self s) (cur s)"
  shows "keeps E None s (exec (dispatch_message E ty (wire_view m) options) s)"
proof -
  consider "\<not> expected ty (state (cur s))" | "ty = 2" "state (cur s) = dmdhcp_state_selecting"
    | "ty = 5" "state (cur s) \<in> {dmdhcp_state_requesting, dmdhcp_state_rebooting}"
    | "ty = 6" "state (cur s) \<in> {dmdhcp_state_requesting, dmdhcp_state_rebooting}"
    | "ty = 5" "state (cur s) \<in> {dmdhcp_state_renewing, dmdhcp_state_rebinding}"
    | "ty = 6" "state (cur s) \<in> {dmdhcp_state_renewing, dmdhcp_state_rebinding}"
    by (auto simp: expected_def)
  then show ?thesis
  proof cases
    case 1
    from stale_keeps [OF inv dispatch_ignored_effect [OF 1]] show ?thesis by blast
  next
    case 2
    then show ?thesis using dispatch_offer_keeps [OF E inv] by blast
  next
    case 3
    then show ?thesis using dispatch_offer_keeps [OF E inv] by blast
  next
    case 4
    then have "\<not> iface_configured (cur s)" "state (cur s) \<noteq> dmdhcp_state_failed" "\<not> holds_valid_lease (cur s)"
      using inv by (auto simp: inv_defs)
    from restart_keeps [OF E inv this, of None "retransmit_count (cur s)"] 4 show ?thesis
      by (simp add: dispatch_nak_effect [OF E])
  next
    case 5
    then show ?thesis using dispatch_renewed_keeps [OF E inv] by blast
  next
    case 6
    then have "holds_valid_lease (cur s)" by (auto simp: holds_valid_lease_def)
    from lost_keeps [OF E inv this, of None] 6 show ?thesis by (simp add: dispatch_lost_effect)
  qed
qed

interpretation received: lease_handler E "dispatch_message E ty (wire_view m) options" "\<lambda>_. None" for E ty m options
  by unfold_locales (rule dispatch_keeps)

lemma renew_keeps:
  assumes inv: "lease_inv E (self s) (cur s)"
  shows "keeps E None s (exec (dmdhcp_renew E) s)"
proof (cases "state (cur s) = dmdhcp_state_bound")
  case True
  have m: "magic (cur s) = DMDHCP_LEASE_MAGIC" using inv by (simp add: inv_defs)
  obtain x es where run: "exec (dmdhcp_renew E) s =
      s\<lparr>cur := (cur s)\<lparr>xid := x, retransmit_count := 0, retransmit_interval_ms := 4000,
           state := dmdhcp_state_renewing\<rparr>,
        log := log s @ Mutex_lock (lock (cur s)) # es @ armed (retransmit_timer (cur s)) 4000
          @ [Mutex_unlock (lock (cur s))]\<rparr>" and es: "heap_only 0 es"
    using renew_effect [OF m True] by blast
  from inv True show ?thesis
    by (intro keepsI [OF run])
      (auto simp: inv_defs heap_only_balance [OF es] timers_ok_def stored_def dest: timer_owner_neq)
next
  case False
  then have "exec (dmdhcp_renew E) s
      = s\<lparr>log := log s @ [Mutex_lock (lock (cur s)), Mutex_unlock (lock (cur s))]\<rparr>"
    using inv by (simp add: dmdhcp_renew_def run_simps inv_defs)
  from stale_keeps [OF inv this] show ?thesis by blast
qed

interpretation renewing: lease_handler E "dmdhcp_renew E" "\<lambda>_. None" for E
  by unfold_locales (rule renew_keeps)

section \<open>Properties of the handlers\<close>

text \<open>The four ways in which a live lease is driven.\<close>

datatype trigger =
    Retransmit_fired
  | Lease_timer_fired
  | Received u8 dmdhcp_message_t "u8 list"
  | Renew_called

fun handle :: "('l, 't) env \<Rightarrow> trigger \<Rightarrow> ('l, unit) lease_monad" where
  "handle E Retransmit_fired = do {
     p \<leftarrow> getself;
     emit (Timer_fired (Retransmit_timer p));
     retransmit_timer_callback E }"
| "handle E Lease_timer_fired = do {
     p \<leftarrow> getself;
     emit (Timer_fired (Lease_timer p));
     lease_timer_callback E }"
| "handle E (Received ty m options) = dispatch_message E ty (wire_view m) options"
| "handle E Renew_called = do { dmdhcp_renew E; State_Monad.return () }"

lemma handle_keeps:
  assumes E: "env_ok E" and inv: "lease_inv E (self s) (cur s)"
  shows "keeps E None s (exec (handle E tr) s)"
proof -
  have fire: "keeps E None s (exec m (s\<lparr>log := log s @ [Timer_fired t]\<rparr>))"
    if "timer_owner t = self s"
      and k: "keeps E (Some t) (s\<lparr>log := log s @ [Timer_fired t]\<rparr>) (exec m (s\<lparr>log := log s @ [Timer_fired t]\<rparr>))"
    for t and m :: "('a, unit) lease_monad"
  proof -
    from k obtain es where es: "log (exec m (s\<lparr>log := log s @ [Timer_fired t]\<rparr>)) = log s @ Timer_fired t # es"
        "observe lock_step (Some []) es = Some []" "\<And>L. observe live_step L es = L"
        "\<And>tv u. timer_owner u \<noteq> self s \<Longrightarrow> observe timer_step tv es u = tv u"
        "\<And>tv. timers_ok (Some t) tv (self s) (cur s) \<Longrightarrow>
          timers_ok None (observe timer_step tv es) (self s) (cur (exec m (s\<lparr>log := log s @ [Timer_fired t]\<rparr>)))"
      by (auto simp: keeps_def)
    have "timers_ok (Some t) (tv(t := (n, False))) (self s) (cur s)" if "timers_ok None tv (self s) (cur s)" for tv n
      using that by (auto simp: timers_ok_def)
    with es k \<open>timer_owner t = self s\<close> show ?thesis
      by (auto simp: keeps_def)
  qed
  show ?thesis
  proof (cases tr)
    case Retransmit_fired
    then show ?thesis
      using fire [of "Retransmit_timer (self s)"] retransmit.keeps_inv [OF E, of "s\<lparr>log := _\<rparr>"] inv
      by (simp add: run_simps)
  next
    case Lease_timer_fired
    then show ?thesis
      using fire [of "Lease_timer (self s)"] lease_expiry.keeps_inv [OF E, of "s\<lparr>log := _\<rparr>"] inv
      by (simp add: run_simps)
  next
    case (Received ty m options)
    then show ?thesis using received.keeps_inv [OF E inv] by simp
  next
    case Renew_called
    then show ?thesis using renewing.keeps_inv [OF E inv] by (simp add: run_simps)
  qed
qed

interpretation trigger: lease_handler E "handle E tr" "\<lambda>_. None" for E tr
  by unfold_locales (rule handle_keeps)

end
