(* ===== verification/Dhcp_Protocol.thy ===== *)
theory Dhcp_Protocol
  imports Dhcp_Invariant
begin

text \<open>
  The client state machine of RFC 2131 with the module's conflict probe and decline pause, as an
  abstract specification: the protocol state, the number of unanswered REQUESTs, the number of
  conflicts in a row and the retransmission interval, all as plain numbers. The handlers
  implement it (a functional refinement), and the questions about whole exchanges are
  answered on the specification.
\<close>

section \<open>The specification\<close>

record proto =
  ps_state :: dmdhcp_state_t
  ps_count :: nat
  ps_declines :: nat
  ps_interval :: nat

definition proto_of :: "'l lease \<Rightarrow> proto" where
  "proto_of l = \<lparr>ps_state = state l, ps_count = unat (retransmit_count l),
     ps_declines = unat (decline_retry_count l), ps_interval = unat (retransmit_interval_ms l)\<rparr>"

definition enter :: "dmdhcp_state_t \<Rightarrow> proto \<Rightarrow> proto" where
  "enter st ps = ps\<lparr>ps_state := st, ps_count := 0, ps_interval := 4000\<rparr>"

definition backoff :: "proto \<Rightarrow> proto" where
  "backoff ps = ps\<lparr>ps_interval := min 64000 (2 * ps_interval ps)\<rparr>"

definition retry_request :: "proto \<Rightarrow> proto" where
  "retry_request ps = (if ps_count ps + 1 > 4 then enter dmdhcp_state_selecting ps
     else backoff (ps\<lparr>ps_count := ps_count ps + 1\<rparr>))"

definition decline :: "proto \<Rightarrow> proto" where
  "decline ps = ps\<lparr>ps_declines := ps_declines ps + 1,
     ps_state := (if ps_declines ps + 1 > 3 then dmdhcp_state_failed else dmdhcp_state_declining)\<rparr>"

definition bind_lease :: "proto \<Rightarrow> proto" where
  "bind_lease ps = ps\<lparr>ps_state := dmdhcp_state_bound, ps_declines := 0\<rparr>"

fun on_retransmit :: "bool \<Rightarrow> proto \<Rightarrow> proto" where
  "on_retransmit conflict ps =
     (case ps_state ps of
        dmdhcp_state_requesting \<Rightarrow> retry_request ps
      | dmdhcp_state_rebooting \<Rightarrow> retry_request ps
      | dmdhcp_state_selecting \<Rightarrow> backoff ps
      | dmdhcp_state_renewing \<Rightarrow> backoff ps
      | dmdhcp_state_rebinding \<Rightarrow> backoff ps
      | dmdhcp_state_checking_offer \<Rightarrow> if conflict then decline ps else enter dmdhcp_state_requesting ps
      | dmdhcp_state_checking_ack \<Rightarrow> if conflict then decline ps else bind_lease ps
      | dmdhcp_state_declining \<Rightarrow> enter dmdhcp_state_selecting ps
      | _ \<Rightarrow> ps)"

fun on_lease_timer :: "proto \<Rightarrow> proto" where
  "on_lease_timer ps =
     (case ps_state ps of
        dmdhcp_state_bound \<Rightarrow> enter dmdhcp_state_renewing ps
      | dmdhcp_state_renewing \<Rightarrow> enter dmdhcp_state_rebinding ps
      | dmdhcp_state_rebinding \<Rightarrow> enter dmdhcp_state_selecting ps
      | _ \<Rightarrow> ps)"

fun on_offer :: "proto \<Rightarrow> proto" where
  "on_offer ps = (if ps_state ps = dmdhcp_state_selecting then ps\<lparr>ps_state := dmdhcp_state_checking_offer\<rparr> else ps)"

fun on_ack :: "proto \<Rightarrow> proto" where
  "on_ack ps =
     (if ps_state ps = dmdhcp_state_requesting \<or> ps_state ps = dmdhcp_state_rebooting
      then ps\<lparr>ps_state := dmdhcp_state_checking_ack\<rparr>
      else if ps_state ps = dmdhcp_state_renewing \<or> ps_state ps = dmdhcp_state_rebinding
      then bind_lease ps else ps)"

fun on_nak :: "proto \<Rightarrow> proto" where
  "on_nak ps =
     (if ps_state ps \<in> {dmdhcp_state_requesting, dmdhcp_state_rebooting, dmdhcp_state_renewing, dmdhcp_state_rebinding}
      then enter dmdhcp_state_selecting ps else ps)"

fun spec_step :: "bool \<Rightarrow> trigger \<Rightarrow> proto \<Rightarrow> proto" where
  "spec_step conflict Retransmit_fired ps = on_retransmit conflict ps"
| "spec_step conflict Lease_timer_fired ps = on_lease_timer ps"
| "spec_step conflict (Received ty m options) ps =
     (if ty = 2 then on_offer ps else if ty = 5 then on_ack ps else if ty = 6 then on_nak ps else ps)"
| "spec_step conflict Renew_called ps =
     (if ps_state ps = dmdhcp_state_bound then enter dmdhcp_state_renewing ps else ps)"

section \<open>Refinement\<close>

text \<open>The answer of the ARP probe that the retransmission callback would start from this state.\<close>

definition probe_answered :: "('l, 't) env \<Rightarrow> 'l lctx \<Rightarrow> bool" where
  "probe_answered E s \<longleftrightarrow> \<not> isl (env_arp_resolve E
     (log s @ [Timer_fired (Retransmit_timer (self s)), Mutex_lock (lock (cur s))]) (iface (cur s)) (offered_ip (cur s)))"

lemmas spec_defs = enter_def backoff_def retry_request_def decline_def bind_lease_def proto_of_def

lemma inv_numbers:
  assumes "lease_inv E p l"
  shows "unat (retransmit_interval_ms l) \<le> 64000"
    "unat (retransmit_count l + 1) = unat (retransmit_count l) + 1"
    "unat (decline_retry_count l + 1) = unat (decline_retry_count l) + 1"
    "magic l = DMDHCP_LEASE_MAGIC" "dns_servers l \<noteq> None" "ntp_servers l \<noteq> None"
    "lock l = Some (Lease_lock p)"
  using assms by (auto simp: inv_defs unat_word_ariths split: if_splits)

lemma restart_proto:
  assumes "env_ok E"
  shows "proto_of (cur (exec (handle_lost_restart E) s)) = enter dmdhcp_state_selecting (proto_of (cur s))"
  using handle_lost_restart_effect [OF assms, of s] by (auto simp: spec_defs)

lemma lost_proto:
  assumes "env_ok E"
  shows "proto_of (cur (exec (dmdhcp_lifecycle_handle_lost E) s)) = enter dmdhcp_state_selecting (proto_of (cur s))"
  using handle_lost_effect [OF assms, of s] by (auto simp: spec_defs)

lemma conflict_proto:
  assumes "lease_inv E p (cur s)"
  shows "proto_of (cur (exec (handle_conflict E) s)) = decline (proto_of (cur s))"
proof -
  note n = inv_numbers(3) [OF assms]
  have "3 < decline_retry_count (cur s) + 1 \<longleftrightarrow> 3 < unat (decline_retry_count (cur s)) + 1"
    using n by (simp add: word_less_nat_alt)
  with handle_conflict_effect [of E s] n show ?thesis
    by (auto simp: spec_defs)
qed

lemma resend_proto:
  assumes inv: "lease_inv E p (cur s)"
  shows "state (cur s) \<in> {dmdhcp_state_selecting, dmdhcp_state_renewing, dmdhcp_state_rebinding} \<Longrightarrow>
      proto_of (cur (exec (retransmit_timer_callback E) s)) = backoff (proto_of (cur s))"
    and "state (cur s) \<in> {dmdhcp_state_requesting, dmdhcp_state_rebooting} \<Longrightarrow> retransmit_count (cur s) + 1 \<le> 4 \<Longrightarrow>
      proto_of (cur (exec (retransmit_timer_callback E) s))
        = backoff ((proto_of (cur s))\<lparr>ps_count := ps_count (proto_of (cur s)) + 1\<rparr>)"
proof -
  note n = inv_numbers [OF inv] and b = unat_next_backoff [OF inv_numbers(1) [OF inv]]
  {
    assume "state (cur s) \<in> {dmdhcp_state_selecting, dmdhcp_state_renewing, dmdhcp_state_rebinding}"
    with retransmit_resend_effect [OF n(4), of "retransmit_count (cur s)" E] b
    show "proto_of (cur (exec (retransmit_timer_callback E) s)) = backoff (proto_of (cur s))"
      by (auto simp: spec_defs)
  next
    assume "state (cur s) \<in> {dmdhcp_state_requesting, dmdhcp_state_rebooting}" "retransmit_count (cur s) + 1 \<le> 4"
    with retransmit_resend_effect [OF n(4), of "retransmit_count (cur s) + 1" E] b n(2)
    show "proto_of (cur (exec (retransmit_timer_callback E) s))
        = backoff ((proto_of (cur s))\<lparr>ps_count := ps_count (proto_of (cur s)) + 1\<rparr>)"
      by (auto simp: spec_defs)
  }
qed

lemma probe_proto:
  assumes inv: "lease_inv E p (cur s)"
    and st: "state (cur s) \<in> {dmdhcp_state_checking_offer, dmdhcp_state_checking_ack}"
  defines "conflict \<equiv> \<not> isl (env_arp_resolve E (log s @ [Mutex_lock (lock (cur s))]) (iface (cur s)) (offered_ip (cur s)))"
  shows "proto_of (cur (exec (retransmit_timer_callback E) s)) = on_retransmit conflict (proto_of (cur s))"
proof -
  let ?s = "s\<lparr>log := log s @ [Mutex_lock (lock (cur s))]\<rparr>"
  have unlock: "cur (exec unlock_lease t) = cur t" for t :: "'a lctx"
    by (simp add: run_simps)
  have run: "cur (exec (retransmit_timer_callback E) s) = cur (exec (run_conflict_probe E) ?s)"
    using retransmit_probe_effect [OF inv_numbers(4) [OF inv] st] unlock by metis
  show ?thesis
  proof (cases conflict)
    case True
    let ?t = "?s\<lparr>log := log ?s @ [Arp_resolve (iface (cur s)) (offered_ip (cur s)) 1000 (Inr ())]\<rparr>"
    have "exec (run_conflict_probe E) ?s = exec (handle_conflict E) ?t"
      using probe_conflict_effect [of E ?s] True by (simp add: conflict_def)
    moreover have "proto_of (cur (exec (handle_conflict E) ?t)) = decline (proto_of (cur s))"
      using conflict_proto [of E p ?t] inv by simp
    ultimately show ?thesis using st True by (auto simp: run proto_of_def)
  next
    case False
    then have arp: "isl (env_arp_resolve E (log ?s) (iface (cur ?s)) (offered_ip (cur ?s)))"
      by (simp add: conflict_def)
    from st show ?thesis
    proof (elim insertE emptyE)
      assume "state (cur s) = dmdhcp_state_checking_offer"
      with probe_offer_effect [OF arp] False show ?thesis by (auto simp: run spec_defs)
    next
      assume "state (cur s) = dmdhcp_state_checking_ack"
      with probe_ack_effect [OF arp] False show ?thesis by (auto simp: run spec_defs)
    qed
  qed
qed

lemma retransmit_proto:
  assumes E: "env_ok E" and inv: "lease_inv E p (cur s)"
  defines "conflict \<equiv> \<not> isl (env_arp_resolve E (log s @ [Mutex_lock (lock (cur s))]) (iface (cur s)) (offered_ip (cur s)))"
  shows "proto_of (cur (exec (retransmit_timer_callback E) s)) = on_retransmit conflict (proto_of (cur s))"
proof -
  note n = inv_numbers [OF inv]
  have ps: "ps_state (proto_of (cur s)) = state (cur s)" "ps_count (proto_of (cur s)) = unat (retransmit_count (cur s))"
    by (simp_all add: proto_of_def)
  consider "state (cur s) \<in> {dmdhcp_state_selecting, dmdhcp_state_renewing, dmdhcp_state_rebinding}"
    | "state (cur s) \<in> {dmdhcp_state_requesting, dmdhcp_state_rebooting}" "retransmit_count (cur s) + 1 \<le> 4"
    | "state (cur s) \<in> {dmdhcp_state_requesting, dmdhcp_state_rebooting}" "retransmit_count (cur s) + 1 > 4"
    | "state (cur s) = dmdhcp_state_declining"
    | "state (cur s) \<in> {dmdhcp_state_checking_offer, dmdhcp_state_checking_ack}"
    | "state (cur s) \<in> {dmdhcp_state_bound, dmdhcp_state_failed, dmdhcp_state_init, dmdhcp_state_init_reboot}"
    by (cases "state (cur s)"; cases "retransmit_count (cur s) + 1 \<le> 4") (auto simp: not_le)
  then show ?thesis
  proof cases
    case 1
    with resend_proto(1) [OF inv] show ?thesis by (auto simp: ps)
  next
    case 2
    then have "\<not> unat (retransmit_count (cur s)) + 1 > 4"
      using n(2) by (simp add: word_le_nat_alt)
    with 2 resend_proto(2) [OF inv] show ?thesis by (auto simp: ps retry_request_def)
  next
    case 3
    then have "unat (retransmit_count (cur s)) + 1 > 4"
      using n(2) by (simp add: word_less_nat_alt)
    with 3 retransmit_restart_effect(2) [OF n(4), of E]
      restart_proto [OF E, of "s\<lparr>cur := (cur s)\<lparr>retransmit_count := retransmit_count (cur s) + 1\<rparr>\<rparr>"]
    show ?thesis by (auto simp: ps retry_request_def enter_def proto_of_def)
  next
    case 4
    with retransmit_restart_effect(1) [OF n(4), of E] restart_proto [OF E, of s] show ?thesis
      by (simp add: ps)
  next
    case 5
    then show ?thesis unfolding conflict_def by (rule probe_proto [OF inv])
  next
    case 6
    then have "cur (exec (retransmit_timer_callback E) s) = cur s"
      using n(4) by (auto simp: retransmit_timer_callback_def run_simps)
    with 6 show ?thesis by (auto simp: ps)
  qed
qed

lemma lease_timer_proto:
  assumes E: "env_ok E" and inv: "lease_inv E p (cur s)"
  shows "proto_of (cur (exec (lease_timer_callback E) s)) = on_lease_timer (proto_of (cur s))"
proof -
  note m = inv_numbers(4) [OF inv]
  let ?s = "s\<lparr>log := log s @ [Mutex_lock (lock (cur s))]\<rparr>"
  show ?thesis
  proof (cases "state (cur s)")
    case dmdhcp_state_bound
    with m start_renew_effect [of E ?s] show ?thesis
      by (auto simp: lease_timer_callback_def run_simps spec_defs)
  next
    case dmdhcp_state_renewing
    with m start_rebind_effect [of E ?s] show ?thesis
      by (auto simp: lease_timer_callback_def run_simps spec_defs)
  next
    case dmdhcp_state_rebinding
    then have "exec (lease_timer_callback E) s = exec (dmdhcp_lifecycle_handle_lost E)
        (s\<lparr>log := log s @ [Mutex_lock (lock (cur s)), Mutex_unlock (lock (cur s))]\<rparr>)"
      using m by (simp add: lease_timer_callback_def run_simps)
    with dmdhcp_state_rebinding show ?thesis by (simp add: lost_proto [OF E]) (simp add: proto_of_def)
  qed (simp_all add: m lease_timer_callback_def run_simps proto_of_def)
qed

lemma received_proto:
  assumes E: "env_ok E" and inv: "lease_inv E p (cur s)"
  shows "proto_of (cur (exec (dispatch_message E ty (wire_view m) options) s))
    = spec_step b (Received ty m options) (proto_of (cur s))"
proof -
  note h = inv_numbers(5,6) [OF inv]
  have ps: "ps_state (proto_of (cur s)) = state (cur s)" by (simp add: proto_of_def)
  consider "\<not> expected ty (state (cur s))" | "ty = 2" "state (cur s) = dmdhcp_state_selecting"
    | "ty = 5" "state (cur s) \<in> {dmdhcp_state_requesting, dmdhcp_state_rebooting}"
    | "ty = 6" "state (cur s) \<in> {dmdhcp_state_requesting, dmdhcp_state_rebooting}"
    | "ty = 5" "state (cur s) \<in> {dmdhcp_state_renewing, dmdhcp_state_rebinding}"
    | "ty = 6" "state (cur s) \<in> {dmdhcp_state_renewing, dmdhcp_state_rebinding}"
    by (auto simp: expected_def)
  then show ?thesis
  proof cases
    case 1
    then show ?thesis
      by (subst dispatch_ignored_effect [OF 1]) (auto simp: ps expected_def)
  next
    case 2
    with dispatch_offer_effect [OF E h, of ty dmdhcp_state_checking_offer "wire_view m" options] show ?thesis
      by (auto simp: proto_of_def)
  next
    case 3
    with dispatch_offer_effect [OF E h, of ty dmdhcp_state_checking_ack "wire_view m" options] show ?thesis
      by (auto simp: proto_of_def)
  next
    case 4
    then show ?thesis by (auto simp: dispatch_nak_effect [OF E] restart_proto [OF E] ps)
  next
    case 5
    with dispatch_renewed_effect [OF E h 5(2), of "wire_view m" options] show ?thesis by (auto simp: spec_defs)
  next
    case 6
    then show ?thesis by (auto simp: dispatch_lost_effect lost_proto [OF E] ps)
  qed
qed

lemma handle_refines:
  assumes "env_ok E" and "lease_inv E (self s) (cur s)"
  shows "proto_of (cur (exec (handle E tr) s)) = spec_step (probe_answered E s) tr (proto_of (cur s))"
proof (cases tr)
  case Retransmit_fired
  let ?s = "s\<lparr>log := log s @ [Timer_fired (Retransmit_timer (self s))]\<rparr>"
  from retransmit_proto [OF assms(1), of "self s" ?s] assms(2) Retransmit_fired show ?thesis
    by (simp add: run_simps probe_answered_def)
next
  case Lease_timer_fired
  with lease_timer_proto [OF assms(1), of "self s" "s\<lparr>log := log s @ [Timer_fired (Lease_timer (self s))]\<rparr>"] assms(2)
  show ?thesis by (simp add: run_simps)
next
  case (Received ty m options)
  with received_proto [OF assms, of ty m options] show ?thesis by simp
next
  case Renew_called
  note m = inv_numbers(4) [OF assms(2)]
  show ?thesis
  proof (cases "state (cur s) = dmdhcp_state_bound")
    case True
    with renew_effect [OF m True, of E] Renew_called show ?thesis by (auto simp: run_simps spec_defs)
  next
    case False
    with m Renew_called show ?thesis by (simp add: dmdhcp_renew_def run_simps proto_of_def)
  qed
qed

definition sample_selecting :: "(dmroute_addr_t list) lctx" where
  "sample_selecting = sample_state\<lparr>cur := (cur sample_state)\<lparr>state := dmdhcp_state_selecting,
     retransmit_interval_ms := 4000\<rparr>\<rparr>"

text \<open>
  C4. The handlers implement the state machine: for every lease in its invariant and every
  trigger, what the code makes of the protocol state, the retry and conflict counters and
  the interval is what the specification says, with the outcome of the ARP probe as the
  platform gives it. In particular words never wrap where the specification counts in numbers.
\<close>

theorem handlers_refine_protocol:
  assumes "env_ok E" and "lease_inv E (self s) (cur s)"
  shows "proto_of (cur (exec (handle E tr) s)) = spec_step (probe_answered E s) tr (proto_of (cur s))"
  by (rule handle_refines [OF assms])

lemma sample_selecting_inv: "lease_inv sample_env 7 (cur sample_selecting)"
  by (simp add: sample_selecting_def sample_state_def inv_defs servers_v4_def zero_lease_def DMDHCP_LEASE_MAGIC_def)

theorem handlers_refine_protocol_witness:
  "ps_interval (proto_of (cur (exec (handle sample_env Retransmit_fired) sample_selecting))) = 8000"
  using handlers_refine_protocol [OF sample_env_ok, of sample_selecting Retransmit_fired] sample_selecting_inv
  by (simp add: sample_selecting_def sample_state_def spec_defs)

section \<open>Runs\<close>

definition run_lease :: "('l, 't) env \<Rightarrow> trigger list \<Rightarrow> 'l lctx \<Rightarrow> 'l lctx" where
  "run_lease E trs s = fold (\<lambda>tr. exec (handle E tr)) trs s"

lemma run_lease_simps [simp]:
  "run_lease E [] s = s" "run_lease E (tr # trs) s = run_lease E trs (exec (handle E tr) s)"
  "run_lease E (trs @ trs') s = run_lease E trs' (run_lease E trs s)"
  by (simp_all add: run_lease_def)

lemma run_lease_Suc: "run_lease E (replicate (Suc k) tr) s = exec (handle E tr) (run_lease E (replicate k tr) s)"
  by (metis replicate_append_same replicate_Suc run_lease_simps)

lemma handle_self:
  assumes "env_ok E" and "lease_inv E (self s) (cur s)"
  shows "self (exec (handle E tr) s) = self s" "lease_inv E (self (exec (handle E tr) s)) (cur (exec (handle E tr) s))"
  using trigger.keeps_inv [OF assms, of tr] by (auto simp: keeps_def)

lemma run_lease_inv:
  assumes "env_ok E" and "lease_inv E (self s) (cur s)"
  shows "self (run_lease E trs s) = self s \<and> lease_inv E (self s) (cur (run_lease E trs s))"
  using assms(2)
proof (induction trs arbitrary: s)
  case Nil
  then show ?case by simp
next
  case (Cons tr trs)
  from Cons.IH [OF handle_self(2) [OF assms(1) Cons.prems]] handle_self [OF assms(1) Cons.prems]
  show ?case by simp
qed

text \<open>
  C26. A REQUEST without an answer: with the retry counter at 0, the first four timeouts leave the
  lease in requesting (or rebooting) with the intervals doubling from 4 to 64 seconds; the
  fifth gives up and starts discovery again.
\<close>

theorem request_gives_up:
  assumes "env_ok E" and "lease_inv E (self s) (cur s)"
    and "state (cur s) = dmdhcp_state_requesting \<or> state (cur s) = dmdhcp_state_rebooting"
    and "retransmit_count (cur s) = 0" and "retransmit_interval_ms (cur s) = DMDHCP_RETRANSMIT_INITIAL_MS"
    and "n \<le> 5"
  shows "state (cur (run_lease E (replicate n Retransmit_fired) s))
      = (if n \<le> 4 then state (cur s) else dmdhcp_state_selecting)
    \<and> unat (retransmit_interval_ms (cur (run_lease E (replicate n Retransmit_fired) s)))
      = (if n \<le> 4 then 4000 * 2 ^ n else 4000)"
proof -
  let ?run = "\<lambda>k. run_lease E (replicate k Retransmit_fired) s"
  have step: "proto_of (cur (?run (Suc k))) = spec_step (probe_answered E (?run k)) Retransmit_fired (proto_of (cur (?run k)))" for k
  proof -
    show ?thesis
      unfolding run_lease_Suc using handle_refines [OF assms(1), of "?run k" Retransmit_fired] run_lease_inv [OF assms(1,2)] by simp
  qed
  have ps: "proto_of (cur (?run k)) = \<lparr>ps_state = state (cur s), ps_count = k,
      ps_declines = unat (decline_retry_count (cur s)), ps_interval = 4000 * 2 ^ k\<rparr>" if "k \<le> 4" for k
    using that
  proof (induction k)
    case 0
    with assms(4,5) show ?case by (simp add: proto_of_def time_consts)
  next
    case (Suc k)
    then have IH: "proto_of (cur (?run k)) = \<lparr>ps_state = state (cur s), ps_count = k,
      ps_declines = unat (decline_retry_count (cur s)), ps_interval = 4000 * 2 ^ k\<rparr>" by simp
    have "(2 :: nat) ^ Suc k \<le> 2 ^ 4" using Suc.prems by (intro power_increasing) simp_all
    then have "min 64000 (2 * (4000 * 2 ^ k)) = 4000 * (2 :: nat) ^ Suc k" by (simp add: min_def)
    then show ?case
      using step [of k] IH assms(3) Suc.prems
      by (auto simp: retry_request_def backoff_def enter_def simp del: run_lease_simps replicate.simps)
  qed
  show ?thesis
  proof (cases "n \<le> 4")
    case True
    from arg_cong [OF ps [OF True], of ps_state] arg_cong [OF ps [OF True], of ps_interval] True
    show ?thesis by (simp add: proto_of_def)
  next
    case False
    with assms(6) have n: "n = Suc 4" by simp
    have "proto_of (cur (?run (Suc 4))) = enter dmdhcp_state_selecting (proto_of (cur (?run 4)))"
      using step [of 4] ps [of 4] assms(3) by (auto simp: retry_request_def simp del: run_lease_simps replicate.simps)
    from arg_cong [OF this, of ps_state] arg_cong [OF this, of ps_interval] False show ?thesis
      unfolding n by (simp add: proto_of_def enter_def del: run_lease_simps replicate.simps)
  qed
qed

definition sample_requesting :: "(dmroute_addr_t list) lctx" where
  "sample_requesting = sample_selecting\<lparr>cur := (cur sample_selecting)\<lparr>state := dmdhcp_state_requesting,
     offered_ip := addr_v4 (192, 168, 1, 42), server_id := addr_v4 (192, 168, 1, 1)\<rparr>\<rparr>"

lemma sample_requesting_inv: "lease_inv sample_env 7 (cur sample_requesting)"
  by (simp add: sample_requesting_def sample_selecting_def sample_state_def inv_defs servers_v4_def zero_lease_def
      DMDHCP_LEASE_MAGIC_def)

theorem request_gives_up_witness:
  "state (cur (run_lease sample_env (replicate 4 Retransmit_fired) sample_requesting)) = dmdhcp_state_requesting
   \<and> state (cur (run_lease sample_env (replicate 5 Retransmit_fired) sample_requesting)) = dmdhcp_state_selecting"
  using request_gives_up [OF sample_env_ok, of sample_requesting 4] request_gives_up [OF sample_env_ok, of sample_requesting 5]
    sample_requesting_inv
  by (simp add: sample_requesting_def sample_selecting_def sample_state_def zero_lease_def time_consts
      del: run_lease_simps replicate.simps)

section \<open>Acquiring a lease\<close>

text \<open>Committing an acknowledged lease on a platform whose interface calls succeed.\<close>

lemma commit_effect:
  assumes up: "netif_up E" and inv: "lease_inv E (self s) (cur s)" and st: "state (cur s) = dmdhcp_state_checking_ack"
    and arp: "\<not> probe_answered E s"
  shows "\<exists>r a. exec (handle E Retransmit_fired) s =
      s\<lparr>cur := (cur s)\<lparr>default_route := r, iface_configured := True, state := dmdhcp_state_bound, decline_retry_count := 0\<rparr>,
        log := log s @ Timer_fired (Retransmit_timer (self s)) # Mutex_lock (lock (cur s))
          # Arp_resolve (iface (cur s)) (offered_ip (cur s)) 1000 a # apply_calls E (cur s) r
          @ armed (lease_timer (cur s)) (t1_period (cur s))
          @ Mutex_unlock (lock (cur s)) # bound_call False s @ [Mutex_lock (lock (cur s)), Mutex_unlock (lock (cur s))]\<rparr>
    \<and> (r \<noteq> None \<longleftrightarrow> family (gateway (cur s)) = dmroute_family_v4)"
proof -
  define a where "a = env_arp_resolve E (log s @ [Timer_fired (Retransmit_timer (self s)), Mutex_lock (lock (cur s))])
    (iface (cur s)) (offered_ip (cur s))"
  let ?t = "s\<lparr>log := log s @ [Timer_fired (Retransmit_timer (self s)), Mutex_lock (lock (cur s)),
    Arp_resolve (iface (cur s)) (offered_ip (cur s)) 1000 a]\<rparr>"
  obtain r where ap: "exec (dmdhcp_lifecycle_apply E) ?t =
      ?t\<lparr>cur := (cur ?t)\<lparr>default_route := r, iface_configured := True\<rparr>, log := log ?t @ apply_calls E (cur ?t) r\<rparr>"
    and r: "r \<noteq> None \<longleftrightarrow> family (gateway (cur ?t)) = dmroute_family_v4"
    using apply_up [OF up] by blast
  have t1: "t1_period (l\<lparr>default_route := r, iface_configured := b, state := st', decline_retry_count := n\<rparr>) = t1_period l"
    for l :: "'a lease" and b st' n
    by (simp add: t1_period_def)
  have m: "magic (cur s) = DMDHCP_LEASE_MAGIC" using inv by (simp add: inv_defs)
  have "isl a" using arp by (simp add: a_def probe_answered_def)
  with st m ap r show ?thesis
    by - (rule exI [of _ r], rule exI [of _ a], cases "on_bound (callbacks (cur s))",
      simp_all add: retransmit_timer_callback_def run_conflict_probe_def run_simps time_consts
        a_def [symmetric] bound_call_def t1)
qed

end
