(* ===== verification/Dhcp_Messages.thy ===== *)
theory Dhcp_Messages
  imports Dhcp_Protocol
begin

text \<open>
  The messages a waiting lease repeats, as the server reads them from the wire, and the times at which it repeats them.
\<close>

section \<open>The form of the messages\<close>

text \<open>
  The messages of RFC 2131 (tables 4 and 5) by the state of the client: the type, the field ciaddr, the
  options 50 (requested address) and 54 (server), and whether the message goes to the server alone.
\<close>

definition client_message ::
  "'l lease \<Rightarrow> (dmdhcp_msg_type_t \<times> dmroute_addr_t option \<times> dmroute_addr_t option \<times> dmroute_addr_t option \<times> bool) option" where
  "client_message l =
     (case state l of
        dmdhcp_state_selecting \<Rightarrow> Some (dmdhcp_msg_discover, None, None, None, False)
      | dmdhcp_state_requesting \<Rightarrow> Some (dmdhcp_msg_request, None, Some (offered_ip l), Some (server_id l), False)
      | dmdhcp_state_rebooting \<Rightarrow> Some (dmdhcp_msg_request, None, Some (offered_ip l), None, False)
      | dmdhcp_state_renewing \<Rightarrow> Some (dmdhcp_msg_request, Some (offered_ip l), None, None, True)
      | dmdhcp_state_rebinding \<Rightarrow> Some (dmdhcp_msg_request, Some (offered_ip l), None, None, False)
      | _ \<Rightarrow> None)"

text \<open>A datagram handed to dmudp: the interface when one is named, destination, ports and payload.\<close>

type_synonym datagram = "dmnetif_iface_t option \<times> dmroute_addr_t \<times> u16 \<times> u16 \<times> u8 list"

fun sending :: "event \<Rightarrow> datagram option" where
  "sending (Udp_send_on_iface ifc dst sport dport d _ _) = Some (Some ifc, dst, sport, dport, d)"
| "sending (Udp_send dst sport dport d _ _) = Some (None, dst, sport, dport, d)"
| "sending _ = None"

definition sendings :: "history \<Rightarrow> datagram list" where
  "sendings es = List.map_filter sending es"

lemma sendings_simps [simp]:
  "sendings [] = []" "sendings (e # es) = (case sending e of None \<Rightarrow> sendings es | Some d \<Rightarrow> d # sendings es)"
  "sendings (es @ fs) = sendings es @ sendings fs" "sendings (armed t n) = []" "sendings (map (\<lambda>_. Free k) xs) = []"
  by (simp_all add: sendings_def map_filter_def split: option.splits)

text \<open>Between two states exactly these datagrams were handed to dmudp.\<close>

definition sends :: "'l lctx \<Rightarrow> 'l lctx \<Rightarrow> datagram list \<Rightarrow> bool" where
  "sends s s' ds \<longleftrightarrow> (\<exists>es. log s' = log s @ es \<and> sendings es = ds)"

lemma sends_refl [simp]: "sends s s []"
  by (simp add: sends_def)

lemma sends_trans: "sends s t ds \<Longrightarrow> sends t u fs \<Longrightarrow> sends s u (ds @ fs)"
  unfolding sends_def by (metis append.assoc sendings_simps(3))

text \<open>From the history \<open>h\<close> on, the platform has a message buffer and knows the MAC address of the interface.\<close>

definition supplied :: "('l, 't) env \<Rightarrow> history \<Rightarrow> dmnetif_iface_t \<Rightarrow> dmnetif_mac_addr_t \<Rightarrow> bool" where
  "supplied E h ifc mac \<longleftrightarrow>
     (\<forall>g. env_malloc_buffer E (h @ g) 576 \<noteq> None \<and> env_get_mac_address E (h @ g) ifc = Some mac)"

lemma supplied_later: "supplied E h ifc mac \<Longrightarrow> supplied E (h @ g) ifc mac"
  by (simp add: supplied_def)

text \<open>The datagram that carries a message of the lease.\<close>

fun client_datagram ::
  "'l lease \<Rightarrow> dmnetif_mac_addr_t
     \<Rightarrow> dmdhcp_msg_type_t \<times> dmroute_addr_t option \<times> dmroute_addr_t option \<times> dmroute_addr_t option \<times> bool \<Rightarrow> datagram" where
  "client_datagram l mac (ty, ci, req, sid, unicast) =
     (if unicast then None else Some (iface l), if unicast then server_id l else limited_broadcast, 68, 67,
      wire_image (xid l) mac ty ci req sid (hostname l))"

abbreviation a_discover :: "dmdhcp_msg_type_t \<times> dmroute_addr_t option \<times> dmroute_addr_t option \<times> dmroute_addr_t option \<times> bool" where
  "a_discover \<equiv> (dmdhcp_msg_discover, None, None, None, False)"

lemma message_sent:
  assumes E: "env_ok E" and ci: "\<forall>a. ci = Some a \<longrightarrow> family a \<noteq> dmroute_family_v6"
    and sup: "supplied E (log s) (iface (cur s)) mac"
  shows "\<exists>es. exec (send_message E ty ci req sid dst via) s = s\<lparr>log := log s @ es\<rparr>
    \<and> sendings es = [(if via then Some (iface (cur s)) else None, dst, 68, 67,
        wire_image (xid (cur s)) mac ty ci req sid (hostname (cur s)))]"
proof -
  obtain b where b: "env_malloc_buffer E (log s @ [Get_mac_address (iface (cur s))]) 576 = Some b"
    using sup unfolding supplied_def by blast
  have mac: "env_get_mac_address E (log s) (iface (cur s)) = Some mac"
    using sup unfolding supplied_def by (metis append_Nil2)
  from send_message_run [OF E ci b, of ty req sid dst via] mac show ?thesis
    by (intro exI [of _ "drop (length (log s)) (log (exec (send_message E ty ci req sid dst via) s))"])
      (simp add: exec_def message_datagram_image)
qed

section \<open>Starting over\<close>

lemma clear_silent:
  "\<exists>es c. exec (dmdhcp_lease_table_clear_dns_servers E) s = s\<lparr>cur := (cur s)\<lparr>dns_servers := c\<rparr>, log := log s @ es\<rparr>
     \<and> sendings es = []"
  "\<exists>es c. exec (dmdhcp_lease_table_clear_ntp_servers E) s = s\<lparr>cur := (cur s)\<lparr>ntp_servers := c\<rparr>, log := log s @ es\<rparr>
     \<and> sendings es = []"
proof -
  let ?pop = "\<lambda>c. pop_all (alist E) (Suc (dmlist_size (alist E) c)) c"
  show "\<exists>es c. exec (dmdhcp_lease_table_clear_dns_servers E) s = s\<lparr>cur := (cur s)\<lparr>dns_servers := c\<rparr>, log := log s @ es\<rparr>
     \<and> sendings es = []"
    by (rule exI [of _ "case dns_servers (cur s) of None \<Rightarrow> [] | Some c \<Rightarrow> map (\<lambda>_. Free Addr_entry) (fst (?pop c))"],
        rule exI [of _ "map_option (\<lambda>c. snd (?pop c)) (dns_servers (cur s))"], cases "dns_servers (cur s)")
      (simp_all add: dmdhcp_lease_table_clear_dns_servers_def run_simps case_prod_beta del: pop_all.simps)
  show "\<exists>es c. exec (dmdhcp_lease_table_clear_ntp_servers E) s = s\<lparr>cur := (cur s)\<lparr>ntp_servers := c\<rparr>, log := log s @ es\<rparr>
     \<and> sendings es = []"
    by (rule exI [of _ "case ntp_servers (cur s) of None \<Rightarrow> [] | Some c \<Rightarrow> map (\<lambda>_. Free Addr_entry) (fst (?pop c))"],
        rule exI [of _ "map_option (\<lambda>c. snd (?pop c)) (ntp_servers (cur s))"], cases "ntp_servers (cur s)")
      (simp_all add: dmdhcp_lease_table_clear_ntp_servers_def run_simps case_prod_beta del: pop_all.simps)
qed

text \<open>A new discovery broadcasts a DISCOVER with the new transaction id.\<close>

lemma restart_sends:
  assumes E: "env_ok E" and sup: "supplied E (log s) (iface (cur s)) mac"
  defines "s' \<equiv> exec (handle_lost_restart E) s"
  shows "sends s s' [client_datagram (cur s') mac a_discover]" "state (cur s') = dmdhcp_state_selecting"
proof -
  define x where "x = env_rand32 E (log s @ [Mutex_lock (lock (cur s))])"
  define s1 where "s1 = s\<lparr>cur := (cur s)\<lparr>xid := x, offered_ip := addr_none, server_id := addr_none,
      gateway := addr_none, netmask := addr_none\<rparr>, log := log s @ [Mutex_lock (lock (cur s)), Rand32 x]\<rparr>"
  obtain e1 d where d: "exec (dmdhcp_lease_table_clear_dns_servers E) s1
      = s1\<lparr>cur := (cur s1)\<lparr>dns_servers := d\<rparr>, log := log s1 @ e1\<rparr>" "sendings e1 = []"
    using clear_silent(1) by blast
  define s2 where "s2 = s1\<lparr>cur := (cur s1)\<lparr>dns_servers := d\<rparr>, log := log s1 @ e1\<rparr>"
  obtain e2 n where n: "exec (dmdhcp_lease_table_clear_ntp_servers E) s2
      = s2\<lparr>cur := (cur s2)\<lparr>ntp_servers := n\<rparr>, log := log s2 @ e2\<rparr>" "sendings e2 = []"
    using clear_silent(2) by blast
  define s3 where "s3 = s2\<lparr>cur := (cur s2)\<lparr>ntp_servers := n, retransmit_count := 0,
      retransmit_interval_ms := 4000\<rparr>, log := log s2 @ e2\<rparr>"
  have l3: "log s3 = log s @ [Mutex_lock (lock (cur s)), Rand32 x] @ e1 @ e2" "iface (cur s3) = iface (cur s)"
    "hostname (cur s3) = hostname (cur s)" "xid (cur s3) = x"
    by (simp_all add: s1_def s2_def s3_def)
  have "supplied E (log s3) (iface (cur s3)) mac" unfolding l3 by (rule supplied_later [OF sup])
  then obtain e3 where m: "exec (send_discover E) s3 = s3\<lparr>log := log s3 @ e3\<rparr>"
      "sendings e3 = [(Some (iface (cur s3)), limited_broadcast, 68, 67,
        wire_image (xid (cur s3)) mac dmdhcp_msg_discover None None None (hostname (cur s3)))]"
    using message_sent [OF E _ \<open>supplied E (log s3) (iface (cur s3)) mac\<close>, of None dmdhcp_msg_discover None None limited_broadcast True]
    by (auto simp: send_discover_def)
  have run: "s' = s3\<lparr>cur := (cur s3)\<lparr>state := dmdhcp_state_selecting\<rparr>,
      log := log s3 @ e3 @ armed (retransmit_timer (cur s)) 4000 @ [Mutex_unlock (lock (cur s))]\<rparr>"
    using d(1) n(1) m(1)
    by (simp add: s'_def handle_lost_restart_def dmdhcp_output_start_discovery_def run_simps time_consts x_def s1_def s2_def s3_def)
  then show "state (cur s') = dmdhcp_state_selecting" by simp
  show "sends s s' [client_datagram (cur s') mac a_discover]"
    unfolding sends_def
    by (rule exI [of _ "[Mutex_lock (lock (cur s)), Rand32 x] @ e1 @ e2 @ e3 @ armed (retransmit_timer (cur s)) 4000 @ [Mutex_unlock (lock (cur s))]"])
      (simp add: run l3 m(2) d(2) n(2))
qed

section \<open>Retransmissions\<close>

text \<open>The message that the next timeout sends: the fifth one of a REQUEST gives up and starts over.\<close>

definition gives_up :: "'l lease \<Rightarrow> bool" where
  "gives_up l \<longleftrightarrow> state l \<in> {dmdhcp_state_requesting, dmdhcp_state_rebooting} \<and> retransmit_count l = 4"

definition next_message ::
  "'l lease \<Rightarrow> (dmdhcp_msg_type_t \<times> dmroute_addr_t option \<times> dmroute_addr_t option \<times> dmroute_addr_t option \<times> bool) option" where
  "next_message l = (if gives_up l then Some a_discover else client_message l)"

lemma resend_sends:
  assumes E: "env_ok E" and inv: "lease_inv E p (cur s)" and sup: "supplied E (log s) (iface (cur s)) mac"
    and form: "client_message (cur s) = Some msg" and more: "\<not> gives_up (cur s)"
  shows "sends s (exec (retransmit_timer_callback E) s) [client_datagram (cur s) mac msg]"
    and "xid (cur (exec (retransmit_timer_callback E) s)) = xid (cur s)"
    and "state (cur (exec (retransmit_timer_callback E) s)) = state (cur s)"
proof -
  have m: "magic (cur s) = DMDHCP_LEASE_MAGIC" and ip: "state (cur s) \<noteq> dmdhcp_state_selecting \<Longrightarrow> family (offered_ip (cur s)) = dmroute_family_v4"
    using inv by (auto simp: inv_defs)
  have "unat (retransmit_count (cur s)) \<le> 4" using inv by (simp add: inv_defs)
  then have n: "\<not> 4 < retransmit_count (cur s) + 1" if "state (cur s) \<in> {dmdhcp_state_requesting, dmdhcp_state_rebooting}"
    using that more by (auto simp: gives_up_def word_less_nat_alt unat_word_ariths word_unat_eq_iff)
  let ?c = "if state (cur s) \<in> {dmdhcp_state_requesting, dmdhcp_state_rebooting} then retransmit_count (cur s) + 1 else retransmit_count (cur s)"
  let ?s = "s\<lparr>cur := (cur s)\<lparr>retransmit_count := ?c\<rparr>, log := log s @ [Mutex_lock (lock (cur s))]\<rparr>"
  have "supplied E (log ?s) (iface (cur ?s)) mac" using supplied_later [OF sup] by simp
  note sent = message_sent [OF E _ this]
  note run = retransmit_timer_callback_def run_simps send_discover_def send_request_selecting_def send_request_reboot_def
    send_request_renew_def send_request_rebind_def m time_consts Let_def
  show "sends s (exec (retransmit_timer_callback E) s) [client_datagram (cur s) mac msg]"
    unfolding sends_def
  proof (cases "state (cur s)")
    case dmdhcp_state_selecting
    with form sent [of None dmdhcp_msg_discover None None limited_broadcast True]
    show "\<exists>es. log (exec (retransmit_timer_callback E) s) = log s @ es \<and> sendings es = [client_datagram (cur s) mac msg]"
      by (auto simp: client_message_def run)
  next
    case dmdhcp_state_requesting
    with form n sent [of None dmdhcp_msg_request "Some (offered_ip (cur s))" "Some (server_id (cur s))" limited_broadcast True]
    show "\<exists>es. log (exec (retransmit_timer_callback E) s) = log s @ es \<and> sendings es = [client_datagram (cur s) mac msg]"
      by (auto simp: client_message_def run)
  next
    case dmdhcp_state_rebooting
    with form n sent [of None dmdhcp_msg_request "Some (offered_ip (cur s))" None limited_broadcast True]
    show "\<exists>es. log (exec (retransmit_timer_callback E) s) = log s @ es \<and> sendings es = [client_datagram (cur s) mac msg]"
      by (auto simp: client_message_def run)
  next
    case dmdhcp_state_renewing
    with form ip sent [of "Some (offered_ip (cur s))" dmdhcp_msg_request None None "server_id (cur s)" False]
    show "\<exists>es. log (exec (retransmit_timer_callback E) s) = log s @ es \<and> sendings es = [client_datagram (cur s) mac msg]"
      by (auto simp: client_message_def run)
  next
    case dmdhcp_state_rebinding
    with form ip sent [of "Some (offered_ip (cur s))" dmdhcp_msg_request None None limited_broadcast True]
    show "\<exists>es. log (exec (retransmit_timer_callback E) s) = log s @ es \<and> sendings es = [client_datagram (cur s) mac msg]"
      by (auto simp: client_message_def run)
  qed (use form in \<open>simp_all add: client_message_def\<close>)
  have "state (cur s) \<in> {dmdhcp_state_selecting, dmdhcp_state_renewing, dmdhcp_state_rebinding} \<and> ?c = retransmit_count (cur s)
      \<or> state (cur s) \<in> {dmdhcp_state_requesting, dmdhcp_state_rebooting} \<and> ?c = retransmit_count (cur s) + 1 \<and> ?c \<le> 4"
    using form n by (auto simp: client_message_def not_less split: dmdhcp_state_t.splits)
  from retransmit_resend_effect [OF m this, of E]
  show "xid (cur (exec (retransmit_timer_callback E) s)) = xid (cur s)"
    "state (cur (exec (retransmit_timer_callback E) s)) = state (cur s)" by auto
qed

lemma give_up_sends:
  assumes E: "env_ok E" and inv: "lease_inv E p (cur s)" and sup: "supplied E (log s) (iface (cur s)) mac" and up: "gives_up (cur s)"
  defines "s' \<equiv> exec (retransmit_timer_callback E) s"
  shows "sends s s' [client_datagram (cur s') mac a_discover]" "state (cur s') = dmdhcp_state_selecting"
proof -
  let ?s = "s\<lparr>cur := (cur s)\<lparr>retransmit_count := retransmit_count (cur s) + 1\<rparr>\<rparr>"
  have m: "magic (cur s) = DMDHCP_LEASE_MAGIC" using inv by (simp add: inv_defs)
  have run: "s' = exec (handle_lost_restart E) ?s"
    unfolding s'_def using retransmit_restart_effect(2) [OF m, of E] up by (auto simp: gives_up_def)
  have "supplied E (log ?s) (iface (cur ?s)) mac" using sup by simp
  from restart_sends [OF E this] show "sends s s' [client_datagram (cur s') mac a_discover]" "state (cur s') = dmdhcp_state_selecting"
    unfolding run by (simp_all add: sends_def)
qed

lemma timeout_sends:
  assumes E: "env_ok E" and inv: "lease_inv E (self s) (cur s)" and sup: "supplied E (log s) (iface (cur s)) mac"
    and form: "next_message (cur s) = Some msg"
  defines "s' \<equiv> exec (handle E Retransmit_fired) s"
  shows "sends s s' [client_datagram (if gives_up (cur s) then cur s' else cur s) mac msg]
    \<and> (if gives_up (cur s) then state (cur s') = dmdhcp_state_selecting
       else state (cur s') = state (cur s) \<and> xid (cur s') = xid (cur s))"
proof -
  let ?s = "s\<lparr>log := log s @ [Timer_fired (Retransmit_timer (self s))]\<rparr>"
  have s': "s' = exec (retransmit_timer_callback E) ?s" by (simp add: s'_def run_simps)
  have sup': "supplied E (log ?s) (iface (cur ?s)) mac" using supplied_later [OF sup] by simp
  have inv': "lease_inv E (self s) (cur ?s)" using inv by simp
  have fire: "sends s s' ds" if "sends ?s s' ds" for ds
    using that unfolding sends_def by (elim exE conjE) (rule exI [of _ "Timer_fired (Retransmit_timer (self s)) # _"], simp)
  show ?thesis
  proof (cases "gives_up (cur s)")
    case True
    then have "msg = a_discover" using form by (simp add: next_message_def)
    with True give_up_sends [OF E inv' sup'] fire show ?thesis unfolding s' by simp
  next
    case False
    then have "client_message (cur ?s) = Some msg" using form by (simp add: next_message_def)
    with False resend_sends [OF E inv' sup'] fire show ?thesis unfolding s' by simp
  qed
qed

text \<open>
  C22. What a waiting client sends (RFC 2131, tables 4 and 5). When the retransmission timer fires for a lease that is selecting,
  requesting, rebooting, renewing or rebinding, and from then on the
  platform has a message buffer and the MAC address of the lease's interface, exactly one datagram leaves, from port 68 to
  port 67, and read back from its
  bytes it is the message of the lease's state, with the lease's xid: DISCOVER while selecting, REQUEST with options 50 and 54
  while requesting, with option 50 alone while rebooting, with the address in ciaddr and neither option while renewing and
  rebinding; to the server alone while renewing, else broadcast on the lease's interface. The one exception is the
  timeout after four repeated REQUESTs while requesting or rebooting, which broadcasts a DISCOVER and goes back to selecting.
\<close>

theorem retransmission_form:
  assumes E: "env_ok E" and inv: "lease_inv E (self s) (cur s)" and sup: "supplied E (log s) (iface (cur s)) mac"
    and form: "next_message (cur s) = Some (ty, ci, req, sid, unicast)"
  defines "s' \<equiv> exec (handle E Retransmit_fired) s"
  shows "\<exists>d m. sends s s' [(if unicast then None else Some (iface (cur s)), if unicast then server_id (cur s) else limited_broadcast, 68, 67, d)]
    \<and> dmdhcp_parse_message (Some d) True True = Inr (m, 240)
    \<and> msg_op m = dmdhcp_op_bootrequest \<and> msg_xid m = xid (cur s') \<and> take 6 (msg_chaddr m) = mac_bytes mac
    \<and> msg_ciaddr m = (case ci of Some a \<Rightarrow> as_v4 a | None \<Rightarrow> addr_v4 (0, 0, 0, 0))
    \<and> found_bytes (drop 240 d) 53 = Some [msg_type_code ty]
    \<and> found_bytes (drop 240 d) 50 = map_option (\<lambda>a. ipv4_bytes (v4 a)) req
    \<and> found_bytes (drop 240 d) 54 = map_option (\<lambda>a. ipv4_bytes (v4 a)) sid
    \<and> (if gives_up (cur s) then ty = dmdhcp_msg_discover \<and> state (cur s') = dmdhcp_state_selecting
       else state (cur s') = state (cur s) \<and> xid (cur s') = xid (cur s))"
proof -
  let ?d = "message_datagram (xid (cur s')) mac ty ci req sid (hostname (cur s))"
  have k: "iface (cur s') = iface (cur s)" "hostname (cur s') = hostname (cur s)"
    using handle_keeps [OF E inv, of Retransmit_fired] by (simp_all add: s'_def keeps_def)
  note t = timeout_sends [OF E inv sup form, folded s'_def]
  have u: "gives_up (cur s) \<Longrightarrow> \<not> unicast \<and> ty = dmdhcp_msg_discover" using form by (simp add: next_message_def)
  have "sends s s' [(if unicast then None else Some (iface (cur s)), if unicast then server_id (cur s) else limited_broadcast, 68, 67, ?d)]"
    using t u k by (cases "gives_up (cur s)") (simp_all add: message_datagram_image)
  moreover have "length (mac_bytes mac) = 6" by simp
  ultimately show ?thesis
    using message_datagram_parses [of "xid (cur s')" mac ty ci req sid "hostname (cur s)"] t u
    by - (rule exI [of _ ?d], rule exI [of _ "wire_view (message_header (xid (cur s')) mac ci)"],
      simp add: option_value_def wire_view_def message_header_def as_v4_def wire_consts split: option.splits if_splits)
qed

lemma sample_supplied: "supplied sample_env h ifc (Mac 2 0 0 0 0 1)"
  by (simp add: supplied_def sample_env_def)

theorem retransmission_form_witness:
  "\<exists>d. sends sample_requesting (exec (handle sample_env Retransmit_fired) sample_requesting)
        [(Some (Some 1), limited_broadcast, 68, 67, d)] \<and> found_bytes (drop 240 d) 53 = Some [3]
     \<and> found_bytes (drop 240 d) 50 = Some [192, 168, 1, 42] \<and> found_bytes (drop 240 d) 54 = Some [192, 168, 1, 1]"
proof -
  have "next_message (cur sample_requesting) = Some (dmdhcp_msg_request, None, Some (addr_v4 (192, 168, 1, 42)),
      Some (addr_v4 (192, 168, 1, 1)), False)"
    by (simp add: next_message_def gives_up_def client_message_def sample_requesting_def sample_selecting_def sample_state_def zero_lease_def)
  moreover have "self sample_requesting = 7" "iface (cur sample_requesting) = Some 1"
    by (simp_all add: sample_requesting_def sample_selecting_def sample_state_def)
  ultimately show ?thesis
    using retransmission_form [OF sample_env_ok _ sample_supplied, of sample_requesting dmdhcp_msg_request None
      "Some (addr_v4 (192, 168, 1, 42))" "Some (addr_v4 (192, 168, 1, 1))" False] sample_requesting_inv
    by (auto simp del: handle.simps)
qed

section \<open>The times\<close>

lemma resend_armed:
  assumes inv: "lease_inv E (self s) (cur s)"
    and st: "state (cur s) \<in> {dmdhcp_state_selecting, dmdhcp_state_renewing, dmdhcp_state_rebinding}"
  defines "s' \<equiv> exec (handle E Retransmit_fired) s"
  shows "cur s' = (cur s)\<lparr>retransmit_interval_ms := next_backoff (retransmit_interval_ms (cur s))\<rparr>"
    and "observe timer_step tv (log s') (Retransmit_timer (self s)) = (next_backoff (retransmit_interval_ms (cur s)), True)"
proof -
  let ?s = "s\<lparr>log := log s @ [Timer_fired (Retransmit_timer (self s))]\<rparr>"
  have m: "magic (cur ?s) = DMDHCP_LEASE_MAGIC" "retransmit_timer (cur s) = Some (Retransmit_timer (self s))"
    using inv by (simp_all add: inv_defs)
  obtain es where es: "heap_only 0 es" "exec (retransmit_timer_callback E) ?s =
      ?s\<lparr>cur := (cur ?s)\<lparr>retransmit_count := retransmit_count (cur ?s),
           retransmit_interval_ms := next_backoff (retransmit_interval_ms (cur ?s))\<rparr>,
        log := log ?s @ Mutex_lock (lock (cur ?s)) # es
          @ armed (retransmit_timer (cur ?s)) (next_backoff (retransmit_interval_ms (cur ?s))) @ [Mutex_unlock (lock (cur ?s))]\<rparr>"
    using retransmit_resend_effect [OF m(1), of "retransmit_count (cur ?s)" E] st by auto
  then show "cur s' = (cur s)\<lparr>retransmit_interval_ms := next_backoff (retransmit_interval_ms (cur s))\<rparr>"
    and "observe timer_step tv (log s') (Retransmit_timer (self s)) = (next_backoff (retransmit_interval_ms (cur s)), True)"
    by (simp_all add: s'_def run_simps m(2))
qed

text \<open>
  C28. Exponential backoff. Take a lease that is selecting, renewing or rebinding, with the initial interval, on a platform that from then on has
  a message buffer and the MAC address of the interface. As long as nothing but its retransmission timer fires (no answer comes and, while
  renewing and rebinding, the lease timer does not end the state), it repeats its message without end: \<open>n\<close> timeouts send
  exactly \<open>n\<close> datagrams, all with the same bytes, the message of its state. After them it is the same lease but for the
  interval, which is \<open>4000 * 2 ^ n\<close> milliseconds, capped at 64000,
  without wrap-around, and its timer is armed for that interval.
\<close>

theorem retransmission_schedule:
  fixes n :: nat
  assumes E: "env_ok E" and inv: "lease_inv E (self s) (cur s)" and sup: "supplied E (log s) (iface (cur s)) mac"
    and st: "state (cur s) \<in> {dmdhcp_state_selecting, dmdhcp_state_renewing, dmdhcp_state_rebinding}"
    and start: "retransmit_interval_ms (cur s) = DMDHCP_RETRANSMIT_INITIAL_MS"
  defines "s' \<equiv> run_lease E (replicate n Retransmit_fired) s"
  shows "sends s s' (replicate n (client_datagram (cur s) mac (the (client_message (cur s)))))
    \<and> cur s' = (cur s)\<lparr>retransmit_interval_ms := retransmit_interval_ms (cur s')\<rparr>
    \<and> unat (retransmit_interval_ms (cur s')) = min 64000 (4000 * 2 ^ n)
    \<and> (0 < n \<longrightarrow> observe timer_step tv (log s') (Retransmit_timer (self s)) = (retransmit_interval_ms (cur s'), True))"
  unfolding s'_def
proof (induction n)
  case 0
  with start show ?case by (simp add: time_consts)
next
  case (Suc n)
  let ?r = "run_lease E (replicate n Retransmit_fired) s"
  have inv': "lease_inv E (self ?r) (cur ?r)" and self: "self ?r = self s" using run_lease_inv [OF E inv] by simp_all
  define k where "k = retransmit_interval_ms (cur ?r)"
  have IH: "cur ?r = (cur s)\<lparr>retransmit_interval_ms := k\<rparr>" "unat k = min 64000 (4000 * 2 ^ n)"
      "sends s ?r (replicate n (client_datagram (cur s) mac (the (client_message (cur s)))))"
    using Suc.IH by (simp_all only: k_def)
  then have st': "state (cur ?r) \<in> {dmdhcp_state_selecting, dmdhcp_state_renewing, dmdhcp_state_rebinding}" using st by simp
  have "unat (next_backoff k) = min 64000 (4000 * 2 ^ Suc n)" using IH(2) by (simp add: unat_next_backoff)
  have "client_message (cur s) \<noteq> None" using st by (auto simp: client_message_def)
  then obtain msg where m: "client_message (cur s) = Some msg" by blast
  then have msg: "next_message (cur ?r) = Some msg" "\<not> gives_up (cur ?r)" "client_datagram (cur ?r) mac msg = client_datagram (cur s) mac msg"
    using st IH(1) by (cases msg; auto simp: client_message_def next_message_def gives_up_def)+
  moreover have "supplied E (log ?r) (iface (cur ?r)) mac"
    using IH(1,3) supplied_later [OF sup] by (auto simp: sends_def)
  ultimately have "sends ?r (exec (handle E Retransmit_fired) ?r) [client_datagram (cur s) mac (the (client_message (cur s)))]"
    using timeout_sends [OF E inv' _ msg(1), of mac] m msg(2,3) by (simp del: handle.simps)
  from sends_trans [OF IH(3) this] have "sends s (exec (handle E Retransmit_fired) ?r)
      (replicate (Suc n) (client_datagram (cur s) mac (the (client_message (cur s)))))"
    by (simp add: replicate_append_same del: handle.simps)
  with \<open>unat (next_backoff k) = min 64000 (4000 * 2 ^ Suc n)\<close> resend_armed [OF inv' st'] self IH(1) show ?case
    unfolding run_lease_Suc by (simp del: handle.simps)
qed

theorem retransmission_schedule_witness:
  "unat (retransmit_interval_ms (cur (run_lease sample_env (replicate 3 Retransmit_fired) sample_selecting))) = 32000
   \<and> (\<exists>d. sends sample_selecting (run_lease sample_env (replicate 3 Retransmit_fired) sample_selecting) [d, d, d])"
proof -
  have "lease_inv sample_env (self sample_selecting) (cur sample_selecting)"
    "state (cur sample_selecting) \<in> {dmdhcp_state_selecting, dmdhcp_state_renewing, dmdhcp_state_rebinding}"
    "retransmit_interval_ms (cur sample_selecting) = DMDHCP_RETRANSMIT_INITIAL_MS"
    using sample_selecting_inv by (simp_all add: sample_selecting_def sample_state_def time_consts)
  from retransmission_schedule [OF sample_env_ok this(1) sample_supplied this(2,3), of 3]
  have "sends sample_selecting (run_lease sample_env (replicate 3 Retransmit_fired) sample_selecting)
      (replicate 3 (client_datagram (cur sample_selecting) (Mac 2 0 0 0 0 1) (the (client_message (cur sample_selecting)))))"
    and "unat (retransmit_interval_ms (cur (run_lease sample_env (replicate 3 Retransmit_fired) sample_selecting))) = min 64000 (4000 * 2 ^ 3)"
    by blast+
  moreover have "replicate 3 d = [d, d, d]" for d :: datagram by (simp add: numeral_eq_Suc)
  ultimately show ?thesis by (intro conjI exI [of _ "client_datagram (cur sample_selecting) (Mac 2 0 0 0 0 1) (the (client_message (cur sample_selecting)))"]) (simp_all del: run_lease_simps replicate.simps)
qed

section \<open>Conflicts\<close>
















end
