(* ===== verification/Dhcp_Table.thy ===== *)
theory Dhcp_Table
  imports Dhcp_Protocol
begin

text \<open>
  The lease table and the life of a lease, \<open>src/dmdhcp_lease_table.c\<close>: the heap of leases, the list
  of tracked leases, creation and destruction, lookup, and the two visitors. An
  operation of this level maps the module's state to a result and a new state; \<open>None\<close> is
  undefined behaviour, that is the use of a lease that was freed, or of the list before
  \<open>dmdhcp_lease_table_init()\<close>.
\<close>

section \<open>State\<close>

record ('l, 't) sys =
  heap :: "lease_ptr \<Rightarrow> 'l lease option"
  g_leases :: "'t option"
  g_leases_mutex :: "mutex_id option"
  slog :: history

type_synonym ('l, 't, 'a) sys_result = "('a \<times> ('l, 't) sys) option"

definition sys_emit :: "event \<Rightarrow> ('l, 't) sys \<Rightarrow> ('l, 't) sys" where
  "sys_emit e s = s\<lparr>slog := slog s @ [e]\<rparr>"

text \<open>Running code on the lease a pointer points to.\<close>

definition on_lease :: "lease_ptr \<Rightarrow> ('l, 'a) lease_monad \<Rightarrow> ('l, 't) sys \<Rightarrow> ('l, 't, 'a) sys_result" where
  "on_lease p m s =
     (case heap s p of
        None \<Rightarrow> None
      | Some l \<Rightarrow>
          (case run_state m \<lparr>self = p, cur = l, log = slog s\<rparr> of
             (x, c) \<Rightarrow> Some (x, s\<lparr>heap := (heap s)(p := Some (cur c)), slog := log c\<rparr>)))"

text \<open>A handle of the API: NULL gives the fallback result.\<close>

definition with_handle ::
  "lease_ptr option \<Rightarrow> 'a \<Rightarrow> ('l, 'a) lease_monad \<Rightarrow> ('l, 't) sys \<Rightarrow> ('l, 't, 'a) sys_result" where
  "with_handle h fallback m s = (case h of None \<Rightarrow> Some (fallback, s) | Some p \<Rightarrow> on_lease p m s)"

section \<open>The table itself\<close>

definition dmdhcp_lease_table_init :: "('l, 't) env \<Rightarrow> ('l, 't) sys \<Rightarrow> result \<times> ('l, 't) sys" where
  "dmdhcp_lease_table_init E s =
     (let list = env_lease_list_create E (slog s);
          s = sys_emit (List_create Lease_list (list \<noteq> None)) (s\<lparr>g_leases := list\<rparr>);
          ok = env_mutex_create E (slog s) Table_mutex;
          s = sys_emit (Mutex_create Table_mutex ok)
                (s\<lparr>g_leases_mutex := (if ok then Some Table_mutex else None)\<rparr>)
      in (if list \<noteq> None \<and> ok then Inr () else Inl (Eother 1), s))"

text \<open>
  A search reads the fields of the entries it visits; an entry that points to a freed lease counts
  as undefined behaviour wherever it is in the list, also behind the entry that is found, where the
  code would not look any more: the absence of undefined behaviour is shown for the stricter reading.
\<close>

definition entries_live :: "('l, 't) env \<Rightarrow> ('l, 't) sys \<Rightarrow> 't \<Rightarrow> bool" where
  "entries_live E s t \<longleftrightarrow> (\<forall>p \<in> set (elems (tlist E) t). heap s p \<noteq> None)"

definition compare_by_iface :: "('l, 't) sys \<Rightarrow> dmnetif_iface_t \<Rightarrow> lease_ptr \<Rightarrow> bool" where
  "compare_by_iface s ifc p = (iface (the (heap s p)) = ifc)"

definition compare_by_xid :: "('l, 't) sys \<Rightarrow> dmnetif_iface_t \<times> u32 \<Rightarrow> lease_ptr \<Rightarrow> bool" where
  "compare_by_xid s key p = (iface (the (heap s p)) = fst key \<and> xid (the (heap s p)) = snd key)"

definition compare_pointer :: "lease_ptr \<Rightarrow> lease_ptr \<Rightarrow> bool" where
  "compare_pointer key data = (data = key)"

definition dmdhcp_lease_table_find_by_iface ::
  "('l, 't) env \<Rightarrow> dmnetif_iface_t \<Rightarrow> ('l, 't) sys \<Rightarrow> ('l, 't, lease_ptr option) sys_result" where
  "dmdhcp_lease_table_find_by_iface E ifc s =
     (case g_leases s of
        None \<Rightarrow> None
      | Some t \<Rightarrow>
          if \<not> entries_live E s t then None
          else
            (let s1 = sys_emit (Mutex_lock (g_leases_mutex s)) s;
                 lease = dmlist_find (tlist E) t (compare_by_iface s1 ifc)
             in Some (lease, sys_emit (Mutex_unlock (g_leases_mutex s)) s1)))"

definition dmdhcp_lease_table_find_by_xid ::
  "('l, 't) env \<Rightarrow> dmnetif_iface_t \<Rightarrow> u32 \<Rightarrow> ('l, 't) sys \<Rightarrow> ('l, 't, lease_ptr option) sys_result" where
  "dmdhcp_lease_table_find_by_xid E ifc x s =
     (case g_leases s of
        None \<Rightarrow> None
      | Some t \<Rightarrow>
          if \<not> entries_live E s t then None
          else
            (let s1 = sys_emit (Mutex_lock (g_leases_mutex s)) s;
                 lease = dmlist_find (tlist E) t (compare_by_xid s1 (ifc, x))
             in Some (lease, sys_emit (Mutex_unlock (g_leases_mutex s)) s1)))"

definition dmdhcp_lease_table_insert ::
  "('l, 't) env \<Rightarrow> lease_ptr \<Rightarrow> ('l, 't) sys \<Rightarrow> ('l, 't, result) sys_result" where
  "dmdhcp_lease_table_insert E lease s =
     (case (g_leases s, heap s lease) of
        (Some t, Some l) \<Rightarrow>
          if \<not> entries_live E s t then None
          else
            (let s1 = sys_emit (Mutex_lock (g_leases_mutex s)) s;
                 (result, t') =
                   (if dmlist_find (tlist E) t (compare_by_iface s1 (iface l)) \<noteq> None
                    then (Inl EEXIST, t)
                    else (case dmlist_push_back (tlist E) t lease of
                            (ok, t') \<Rightarrow> (if ok then Inr () else Inl ENOMEM, t')))
             in Some (result, sys_emit (Mutex_unlock (g_leases_mutex s)) (s1\<lparr>g_leases := Some t'\<rparr>)))
      | _ \<Rightarrow> None)"

definition dmdhcp_lease_table_remove ::
  "('l, 't) env \<Rightarrow> lease_ptr \<Rightarrow> ('l, 't) sys \<Rightarrow> ('l, 't, unit) sys_result" where
  "dmdhcp_lease_table_remove E lease s =
     (case g_leases s of
        None \<Rightarrow> None
      | Some t \<Rightarrow>
          (let s1 = sys_emit (Mutex_lock (g_leases_mutex s)) s;
               t' = dmlist_remove (tlist E) t (compare_pointer lease)
           in Some ((), sys_emit (Mutex_unlock (g_leases_mutex s)) (s1\<lparr>g_leases := Some t'\<rparr>))))"

section \<open>Creation and destruction\<close>

text \<open>The part of \<open>destroy_with_context()\<close> that works on the lease, up to its \<open>Dmod_Free()\<close>.\<close>

definition destroy_timer :: "bool \<Rightarrow> timer_id option \<Rightarrow> ('l, unit) lease_monad" where
  "destroy_timer own t =
     (case t of
        None \<Rightarrow> State_Monad.return ()
      | Some t \<Rightarrow> do {
          emit (Timer_stop t);
          if \<not> own then emit (Timer_destroy t) else State_Monad.return () })"

definition destroy_fields ::
  "('l, 't) env \<Rightarrow> dmdhcp_teardown_context_t \<Rightarrow> ('l, unit) lease_monad" where
  "destroy_fields E context = do {
     p \<leftarrow> getself;
     modl (\<lambda>l. l\<lparr>magic := 0\<rparr>);
     rt \<leftarrow> getl retransmit_timer;
     destroy_timer (context = dmdhcp_teardown_context_retransmit_timer) rt;
     lt \<leftarrow> getl lease_timer;
     destroy_timer (context = dmdhcp_teardown_context_lease_timer) lt;
     dmdhcp_lease_table_clear_dns_servers E;
     dns \<leftarrow> getl dns_servers;
     (if dns \<noteq> None then emit (List_destroy (Dns_list p)) else State_Monad.return ());
     dmdhcp_lease_table_clear_ntp_servers E;
     ntp \<leftarrow> getl ntp_servers;
     (if ntp \<noteq> None then emit (List_destroy (Ntp_list p)) else State_Monad.return ());
     name \<leftarrow> getl hostname;
     emit (if name = None then Free_null else Free Hostname);
     m \<leftarrow> getl lock;
     (if m \<noteq> None then emit (Mutex_destroy m) else State_Monad.return ());
     emit (Free_lease p) }"

definition dmdhcp_lease_table_destroy_with_context ::
  "('l, 't) env \<Rightarrow> lease_ptr option \<Rightarrow> dmdhcp_teardown_context_t \<Rightarrow> ('l, 't) sys \<Rightarrow> ('l, 't, unit) sys_result" where
  "dmdhcp_lease_table_destroy_with_context E lease context s =
     (case lease of
        None \<Rightarrow> Some ((), s)
      | Some p \<Rightarrow> do {
          (_, s) \<leftarrow> on_lease p (destroy_fields E context) s;
          Some ((), s\<lparr>heap := (heap s)(p := None)\<rparr>) })"

definition dmdhcp_lease_table_destroy ::
  "('l, 't) env \<Rightarrow> lease_ptr option \<Rightarrow> ('l, 't) sys \<Rightarrow> ('l, 't, unit) sys_result" where
  "dmdhcp_lease_table_destroy E lease s =
     dmdhcp_lease_table_destroy_with_context E lease dmdhcp_teardown_context_normal s"

text \<open>
  The constructor's work on the zeroed lease, one definition per assignment; the result says whether
  every part was created.
\<close>

definition create_lock :: "('l, 't) env \<Rightarrow> ('l, unit) lease_monad" where
  "create_lock E = do {
     p \<leftarrow> getself;
     ok \<leftarrow> call (\<lambda>h. env_mutex_create E h (Lease_lock p)) (Mutex_create (Lease_lock p));
     modl (\<lambda>l. l\<lparr>lock := (if ok then Some (Lease_lock p) else None)\<rparr>) }"

definition create_dns_list :: "('l, 't) env \<Rightarrow> ('l, unit) lease_monad" where
  "create_dns_list E = do {
     p \<leftarrow> getself;
     c \<leftarrow> call (env_addr_list_create E) (\<lambda>c. List_create (Dns_list p) (c \<noteq> None));
     modl (\<lambda>l. l\<lparr>dns_servers := c\<rparr>) }"

definition create_ntp_list :: "('l, 't) env \<Rightarrow> ('l, unit) lease_monad" where
  "create_ntp_list E = do {
     p \<leftarrow> getself;
     c \<leftarrow> call (env_addr_list_create E) (\<lambda>c. List_create (Ntp_list p) (c \<noteq> None));
     modl (\<lambda>l. l\<lparr>ntp_servers := c\<rparr>) }"

definition create_timers :: "('l, 't) env \<Rightarrow> ('l, unit) lease_monad" where
  "create_timers E = do {
     rt \<leftarrow> dmdhcp_output_create_retransmit_timer E;
     modl (\<lambda>l. l\<lparr>retransmit_timer := rt\<rparr>);
     lt \<leftarrow> dmdhcp_lifecycle_create_lease_timer E;
     modl (\<lambda>l. l\<lparr>lease_timer := lt\<rparr>) }"

definition create_fields :: "('l, 't) env \<Rightarrow> dmnetif_iface_t \<Rightarrow> ('l, bool) lease_monad" where
  "create_fields E ifc = do {
     create_lock E;
     create_dns_list E;
     create_ntp_list E;
     create_timers E;
     failed \<leftarrow> getl (\<lambda>l. lock l = None \<or> dns_servers l = None \<or> ntp_servers l = None
       \<or> retransmit_timer l = None \<or> lease_timer l = None);
     if failed then State_Monad.return False
     else do {
       modl (\<lambda>l. l\<lparr>iface := ifc\<rparr>);
       modl (\<lambda>l. l\<lparr>magic := DMDHCP_LEASE_MAGIC\<rparr>);
       State_Monad.return True } }"

definition dmdhcp_lease_table_create ::
  "('l, 't) env \<Rightarrow> dmnetif_iface_t \<Rightarrow> ('l, 't) sys \<Rightarrow> ('l, 't, lease_ptr option) sys_result" where
  "dmdhcp_lease_table_create E ifc s =
     (let lease = env_malloc_lease E (slog s);
          s = sys_emit (Malloc_lease lease) s
      in case lease of
           None \<Rightarrow> Some (None, s)
         | Some p \<Rightarrow> do {
             (ok, s) \<leftarrow> on_lease p (create_fields E ifc) (s\<lparr>heap := (heap s)(p := Some zero_lease)\<rparr>);
             if \<not> ok then do {
               (_, s) \<leftarrow> dmdhcp_lease_table_destroy E (Some p) s;
               Some (None, s) }
             else Some (Some p, s) })"

text \<open>The loop and the rest of \<open>dmdhcp_lease_table_deinit()\<close>.\<close>

definition unapply_locked :: "('l, 't) env \<Rightarrow> ('l, unit) lease_monad" where
  "unapply_locked E = do {
     lock_lease;
     configured \<leftarrow> getl iface_configured;
     (if configured then dmdhcp_lifecycle_unapply E else State_Monad.return ());
     unlock_lease }"

fun deinit_loop :: "('l, 't) env \<Rightarrow> nat \<Rightarrow> ('l, 't) sys \<Rightarrow> ('l, 't, unit) sys_result" where
  "deinit_loop E 0 s = Some ((), s)"
| "deinit_loop E (Suc n) s =
     (case g_leases s of
        None \<Rightarrow> None
      | Some t \<Rightarrow>
          (case dmlist_pop_front (tlist E) t of
             (None, _) \<Rightarrow> None
           | (Some p, t') \<Rightarrow> do {
               (_, s) \<leftarrow> on_lease p (unapply_locked E) (s\<lparr>g_leases := Some t'\<rparr>);
               (_, s) \<leftarrow> dmdhcp_lease_table_destroy E (Some p) s;
               deinit_loop E n s }))"

definition dmdhcp_lease_table_deinit :: "('l, 't) env \<Rightarrow> ('l, 't) sys \<Rightarrow> ('l, 't, unit) sys_result" where
  "dmdhcp_lease_table_deinit E s =
     (case g_leases s of
        None \<Rightarrow> None
      | Some t \<Rightarrow> do {
          (_, s) \<leftarrow> deinit_loop E (dmlist_size (tlist E) t) s;
          Some ((), sys_emit (Mutex_destroy (g_leases_mutex s))
                 (sys_emit (List_destroy Lease_list) s)\<lparr>g_leases := None, g_leases_mutex := None\<rparr>) })"

lemma compare_pointer_eq [simp]: "compare_pointer lease = (\<lambda>data. data = lease)"
  by (simp add: fun_eq_iff compare_pointer_def)

end
