(* ===== verification/Dhcp_Visit.thy ===== *)
theory Dhcp_Visit
  imports Dhcp_Table
begin

text \<open>
  The readers of the whole table, \<open>src/dmdhcp_lease_table.c\<close>: \<open>dmdhcp_get_ntp_servers()\<close> and
  the visitors behind the DNS and NTP providers of \<open>src/dmdhcp_registrations.c\<close>. A visitor is
  a function of the platform: it maps its context to a new context (and, for NTP, a
  stop flag). \<open>dmdhcp_get_ntp_servers()\<close> returns here the list it wrote, where the C code
  returns its length as an \<open>int\<close>; that cast is not modelled.
\<close>

section \<open>Definitions\<close>

text \<open>
  What one pass of the loops reads of a lease in the table: nothing when the magic is wrong. The
  lock of the lease is held while its list is read.
\<close>

definition read_lease :: "lease_ptr \<Rightarrow> ('l lease \<Rightarrow> 'a \<Rightarrow> 'a) \<Rightarrow> 'a \<Rightarrow> ('l, 't) sys \<Rightarrow> ('l, 't, 'a) sys_result" where
  "read_lease p f acc s =
     (case heap s p of
        None \<Rightarrow> None
      | Some l \<Rightarrow>
          if magic l \<noteq> DMDHCP_LEASE_MAGIC then Some (acc, s)
          else Some (f l acc, sys_emit (Mutex_unlock (lock l)) (sys_emit (Mutex_lock (lock l)) s)))"

fun ntp_copy_loop :: "('l, 't) env \<Rightarrow> 'l \<Rightarrow> nat \<Rightarrow> nat list \<Rightarrow> dmroute_addr_t list \<Rightarrow> dmroute_addr_t list" where
  "ntp_copy_loop E c max_count [] written = written"
| "ntp_copy_loop E c max_count (j # js) written =
     (if length written < max_count
      then (case dmlist_get (alist E) c j of
              Some entry \<Rightarrow> ntp_copy_loop E c max_count js (written @ [entry])
            | None \<Rightarrow> ntp_copy_loop E c max_count js written)
      else written)"

definition copy_ntp :: "('l, 't) env \<Rightarrow> nat \<Rightarrow> 'l lease \<Rightarrow> dmroute_addr_t list \<Rightarrow> dmroute_addr_t list" where
  "copy_ntp E max_count l written =
     (if state l = dmdhcp_state_bound \<or> state l = dmdhcp_state_renewing \<or> state l = dmdhcp_state_rebinding
      then ntp_copy_loop E (the (ntp_servers l)) max_count
             [0..<dmlist_size (alist E) (the (ntp_servers l))] written
      else written)"

fun ntp_servers_loop ::
  "('l, 't) env \<Rightarrow> 't \<Rightarrow> nat \<Rightarrow> nat list \<Rightarrow> dmroute_addr_t list \<Rightarrow> ('l, 't) sys
     \<Rightarrow> ('l, 't, dmroute_addr_t list) sys_result" where
  "ntp_servers_loop E t max_count [] written s = Some (written, s)"
| "ntp_servers_loop E t max_count (i # is) written s =
     (if length written < max_count
      then (case dmlist_get (tlist E) t i of
              None \<Rightarrow> ntp_servers_loop E t max_count is written s
            | Some p \<Rightarrow> do {
                (written, s) \<leftarrow> read_lease p (copy_ntp E max_count) written s;
                ntp_servers_loop E t max_count is written s })
      else Some (written, s))"

definition dmdhcp_get_ntp_servers ::
  "('l, 't) env \<Rightarrow> bool \<Rightarrow> nat \<Rightarrow> ('l, 't) sys \<Rightarrow> ('l, 't, errno + dmroute_addr_t list) sys_result" where
  "dmdhcp_get_ntp_servers E out max_count s =
     (if \<not> out \<or> max_count = 0 then Some (Inl EINVAL, s)
      else
        (case g_leases s of
           None \<Rightarrow> None
         | Some t \<Rightarrow> do {
             (written, s) \<leftarrow> ntp_servers_loop E t max_count [0..<dmlist_size (tlist E) t] []
               (sys_emit (Mutex_lock (g_leases_mutex s)) s);
             Some (Inr written, sys_emit (Mutex_unlock (g_leases_mutex s)) s) }))"

fun visit_list :: "('l, 't) env \<Rightarrow> 'l \<Rightarrow> ('c \<Rightarrow> dmroute_addr_t \<Rightarrow> 'c) \<Rightarrow> nat list \<Rightarrow> 'c \<Rightarrow> 'c" where
  "visit_list E c visit [] ctx = ctx"
| "visit_list E c visit (i # is) ctx =
     (case dmlist_get (alist E) c i of
        Some server \<Rightarrow> visit_list E c visit is (visit ctx server)
      | None \<Rightarrow> visit_list E c visit is ctx)"

definition visit_lease_dns_servers ::
  "('l, 't) env \<Rightarrow> ('c \<Rightarrow> dmroute_addr_t \<Rightarrow> 'c) \<Rightarrow> 'l lease \<Rightarrow> 'c \<Rightarrow> 'c" where
  "visit_lease_dns_servers E visit l ctx =
     (if \<not> holds_valid_lease l then ctx
      else visit_list E (the (dns_servers l)) visit [0..<dmlist_size (alist E) (the (dns_servers l))] ctx)"

fun visit_leases ::
  "('l, 't) env \<Rightarrow> 't \<Rightarrow> ('l lease \<Rightarrow> 'c \<Rightarrow> 'c) \<Rightarrow> nat list \<Rightarrow> 'c \<Rightarrow> ('l, 't) sys \<Rightarrow> ('l, 't, 'c) sys_result" where
  "visit_leases E t f [] ctx s = Some (ctx, s)"
| "visit_leases E t f (i # is) ctx s =
     (case dmlist_get (tlist E) t i of
        None \<Rightarrow> visit_leases E t f is ctx s
      | Some p \<Rightarrow> do {
          (ctx, s) \<leftarrow> read_lease p f ctx s;
          visit_leases E t f is ctx s })"

definition dmdhcp_lease_table_visit_dns_servers ::
  "('l, 't) env \<Rightarrow> ('c \<Rightarrow> dmroute_addr_t \<Rightarrow> 'c) option \<Rightarrow> 'c \<Rightarrow> ('l, 't) sys \<Rightarrow> ('l, 't, 'c) sys_result" where
  "dmdhcp_lease_table_visit_dns_servers E visit ctx s =
     (case visit of
        None \<Rightarrow> Some (ctx, s)
      | Some visit \<Rightarrow>
          if g_leases_mutex s = None then Some (ctx, s)
          else
            (case g_leases s of
               None \<Rightarrow> None
             | Some t \<Rightarrow> do {
                 (ctx, s) \<leftarrow> visit_leases E t (visit_lease_dns_servers E visit) [0..<dmlist_size (tlist E) t] ctx
                   (sys_emit (Mutex_lock (g_leases_mutex s)) s);
                 Some (ctx, sys_emit (Mutex_unlock (g_leases_mutex s)) s) }))"

text \<open>The \<open>break\<close> of the NTP visitor leaves the loop over one lease's servers only.\<close>

fun visit_ntp_list :: "('l, 't) env \<Rightarrow> 'l \<Rightarrow> ('c \<Rightarrow> ipv4 \<Rightarrow> bool \<times> 'c) \<Rightarrow> nat list \<Rightarrow> 'c \<Rightarrow> 'c" where
  "visit_ntp_list E c visit [] ctx = ctx"
| "visit_ntp_list E c visit (j # js) ctx =
     (case dmlist_get (alist E) c j of
        None \<Rightarrow> visit_ntp_list E c visit js ctx
      | Some address \<Rightarrow>
          if family address = dmroute_family_v4
          then (case visit ctx (v4 address) of
                  (stop, ctx) \<Rightarrow> if stop then ctx else visit_ntp_list E c visit js ctx)
          else visit_ntp_list E c visit js ctx)"

definition visit_lease_ntp_servers ::
  "('l, 't) env \<Rightarrow> ('c \<Rightarrow> ipv4 \<Rightarrow> bool \<times> 'c) \<Rightarrow> 'l lease \<Rightarrow> 'c \<Rightarrow> 'c" where
  "visit_lease_ntp_servers E visit l ctx =
     (if holds_valid_lease l
      then visit_ntp_list E (the (ntp_servers l)) visit [0..<dmlist_size (alist E) (the (ntp_servers l))] ctx
      else ctx)"

definition dmdhcp_lease_table_visit_ntp_servers ::
  "('l, 't) env \<Rightarrow> ('c \<Rightarrow> ipv4 \<Rightarrow> bool \<times> 'c) option \<Rightarrow> 'c \<Rightarrow> ('l, 't) sys \<Rightarrow> ('l, 't, 'c) sys_result" where
  "dmdhcp_lease_table_visit_ntp_servers E visit ctx s =
     (case visit of
        None \<Rightarrow> Some (ctx, s)
      | Some visit \<Rightarrow>
          (case g_leases s of
             None \<Rightarrow> None
           | Some t \<Rightarrow> do {
               (ctx, s) \<leftarrow> visit_leases E t (visit_lease_ntp_servers E visit) [0..<dmlist_size (tlist E) t] ctx
                 (sys_emit (Mutex_lock (g_leases_mutex s)) s);
               Some (ctx, sys_emit (Mutex_unlock (g_leases_mutex s)) s) }))"

text \<open>The two discovery interfaces that dmdns and dmntp call.\<close>

definition dmdns_provide_servers ::
  "('l, 't) env \<Rightarrow> ('c \<Rightarrow> dmroute_addr_t \<Rightarrow> 'c) option \<Rightarrow> 'c \<Rightarrow> ('l, 't) sys \<Rightarrow> ('l, 't, 'c) sys_result" where
  "dmdns_provide_servers E add sink_ctx s =
     (if add \<noteq> None then dmdhcp_lease_table_visit_dns_servers E add sink_ctx s else Some (sink_ctx, s))"

definition dmntp_provide_servers ::
  "('l, 't) env \<Rightarrow> ('c \<Rightarrow> ipv4 \<Rightarrow> bool \<times> 'c) option \<Rightarrow> 'c \<Rightarrow> ('l, 't) sys \<Rightarrow> ('l, 't, 'c) sys_result" where
  "dmntp_provide_servers E add sink_ctx s = dmdhcp_lease_table_visit_ntp_servers E add sink_ctx s"

end
