(* ===== verification/Dhcp_Api.thy ===== *)
theory Dhcp_Api
  imports Dhcp_Visit
begin

text \<open>
  The module's entry points: \<open>src/dmdhcp.c\<close>, the receive path of \<open>src/dmdhcp_input.c\<close> from the raw
  datagram on, and the command \<open>tools/dhcpc/src/dhcpc.c\<close>.
\<close>

section \<open>Definitions\<close>

definition seed_lease ::
  "('l, 't) env \<Rightarrow> dmdhcp_callbacks_t option \<Rightarrow> void_ptr \<Rightarrow> dmdhcp_options_t option \<Rightarrow> ('l, unit) lease_monad" where
  "seed_lease E cbs ud options = do {
     (case cbs of None \<Rightarrow> State_Monad.return () | Some c \<Rightarrow> modl (\<lambda>l. l\<lparr>callbacks := c\<rparr>));
     modl (\<lambda>l. l\<lparr>user_data := ud\<rparr>);
     (case options of
        None \<Rightarrow> State_Monad.return ()
      | Some o' \<Rightarrow>
          (case start_hostname o' of
             None \<Rightarrow> State_Monad.return ()
           | Some name \<Rightarrow> do {
               ok \<leftarrow> call (\<lambda>h. env_malloc E h Hostname) (Malloc Hostname);
               modl (\<lambda>l. l\<lparr>hostname := (if ok then Some name else None)\<rparr>) })) }"

definition begin_acquire :: "('l, 't) env \<Rightarrow> dmdhcp_options_t option \<Rightarrow> ('l, unit) lease_monad" where
  "begin_acquire E options = do {
     lock_lease;
     (case options of
        Some o' \<Rightarrow>
          if family (start_requested_ip o') = dmroute_family_v4
          then do {
            modl (\<lambda>l. l\<lparr>offered_ip := start_requested_ip o'\<rparr>);
            dmdhcp_output_start_reboot E }
          else dmdhcp_output_start_discovery E
      | None \<Rightarrow> dmdhcp_output_start_discovery E);
     unlock_lease }"

definition dmdhcp_start ::
  "('l, 't) env \<Rightarrow> dmnetif_iface_t \<Rightarrow> dmdhcp_callbacks_t option \<Rightarrow> void_ptr \<Rightarrow> dmdhcp_options_t option
     \<Rightarrow> ('l, 't) sys \<Rightarrow> ('l, 't, lease_ptr option) sys_result" where
  "dmdhcp_start E ifc cbs ud options s =
     (if ifc = None then Some (None, s)
      else do {
        (lease, s) \<leftarrow> dmdhcp_lease_table_create E ifc s;
        (case lease of
           None \<Rightarrow> Some (None, s)
         | Some p \<Rightarrow> do {
             (_, s) \<leftarrow> on_lease p (seed_lease E cbs ud options) s;
             (result, s) \<leftarrow> dmdhcp_lease_table_insert E p s;
             (if isl result
              then do {
                (_, s) \<leftarrow> dmdhcp_lease_table_destroy E (Some p) s;
                Some (None, s) }
              else do {
                (_, s) \<leftarrow> on_lease p (begin_acquire E options) s;
                Some (Some p, s) }) }) })"

text \<open>The magic of a lease that a handle points to; \<open>None\<close> for a freed lease.\<close>

definition valid_handle :: "lease_ptr option \<Rightarrow> ('l, 't) sys \<Rightarrow> bool option" where
  "valid_handle h s =
     (case h of
        None \<Rightarrow> Some False
      | Some p \<Rightarrow> map_option (\<lambda>l. magic l = DMDHCP_LEASE_MAGIC) (heap s p))"

definition release_locked :: "('l, 't) env \<Rightarrow> ('l, unit) lease_monad" where
  "release_locked E = do {
     lock_lease;
     ip \<leftarrow> getl offered_ip;
     sid \<leftarrow> getl server_id;
     (if family ip = dmroute_family_v4 \<and> family sid = dmroute_family_v4
      then do { dmdhcp_output_send_release E; State_Monad.return () }
      else State_Monad.return ());
     configured \<leftarrow> getl iface_configured;
     (if configured then dmdhcp_lifecycle_unapply E else State_Monad.return ());
     unlock_lease }"

definition dmdhcp_release ::
  "('l, 't) env \<Rightarrow> lease_ptr option \<Rightarrow> ('l, 't) sys \<Rightarrow> ('l, 't, result) sys_result" where
  "dmdhcp_release E lease s = do {
     ok \<leftarrow> valid_handle lease s;
     if \<not> ok then Some (Inl EINVAL, s)
     else do {
       (_, s) \<leftarrow> dmdhcp_lease_table_remove E (the lease) s;
       (_, s) \<leftarrow> on_lease (the lease) (release_locked E) s;
       (_, s) \<leftarrow> dmdhcp_lease_table_destroy E lease s;
       Some (Inr (), s) } }"

definition dmdhcp_stop ::
  "('l, 't) env \<Rightarrow> lease_ptr option \<Rightarrow> ('l, 't) sys \<Rightarrow> ('l, 't, unit) sys_result" where
  "dmdhcp_stop E lease s = do {
     ok \<leftarrow> valid_handle lease s;
     if \<not> ok then Some ((), s)
     else do {
       (_, s) \<leftarrow> dmdhcp_lease_table_remove E (the lease) s;
       (_, s) \<leftarrow> on_lease (the lease) (unapply_locked E) s;
       (_, s) \<leftarrow> dmdhcp_lease_table_destroy E lease s;
       Some ((), s) } }"

definition dmdhcp_input_register :: "('l, 't) env \<Rightarrow> ('l, 't) sys \<Rightarrow> result \<times> ('l, 't) sys" where
  "dmdhcp_input_register E s =
     (let result = env_udp_bind E (slog s) in (result, sys_emit (Udp_bind DMDHCP_CLIENT_PORT result) s))"

definition dmdhcp_input_unregister :: "('l, 't) sys \<Rightarrow> ('l, 't) sys" where
  "dmdhcp_input_unregister s = sys_emit (Udp_unbind DMDHCP_CLIENT_PORT) s"

definition dmod_init :: "('l, 't) env \<Rightarrow> ('l, 't) sys \<Rightarrow> result \<times> ('l, 't) sys" where
  "dmod_init E s =
     (case dmdhcp_lease_table_init E s of
        (Inl _, s) \<Rightarrow> (Inl (Eother 1), s)
      | (Inr _, s) \<Rightarrow>
          (case dmdhcp_input_register E s of
             (Inl _, s) \<Rightarrow> (Inl (Eother 1), s)
           | (Inr _, s) \<Rightarrow> (Inr (), s)))"

definition dmod_deinit :: "('l, 't) env \<Rightarrow> ('l, 't) sys \<Rightarrow> ('l, 't, result) sys_result" where
  "dmod_deinit E s = do {
     (_, s) \<leftarrow> dmdhcp_lease_table_deinit E (dmdhcp_input_unregister s);
     Some (Inr (), s) }"

definition dmdhcp_handle_datagram ::
  "('l, 't) env \<Rightarrow> dmnetif_iface_t \<Rightarrow> u8 list option \<Rightarrow> ('l, 't) sys \<Rightarrow> ('l, 't, unit) sys_result" where
  "dmdhcp_handle_datagram E ifc payload s =
     (case dmdhcp_parse_message payload True True of
        Inl _ \<Rightarrow> Some ((), s)
      | Inr (msg, options_offset) \<Rightarrow>
          if msg_op msg \<noteq> dmdhcp_op_bootreply then Some ((), s)
          else do {
            (lease, s) \<leftarrow> dmdhcp_lease_table_find_by_xid E ifc (msg_xid msg) s;
            (case lease of
               None \<Rightarrow> Some ((), s)
             | Some p \<Rightarrow>
                 (let options = drop options_offset (the payload)
                  in case dmdhcp_options_find (Some options) DMDHCP_OPT_MSG_TYPE True of
                       Inl _ \<Rightarrow> Some ((), s)
                     | Inr type_opt \<Rightarrow>
                         if opt_length type_opt \<noteq> 1 then Some ((), s)
                         else on_lease p (dispatch_message E (the (opt_data type_opt) ! 0) msg options) s)) })"

text \<open>The command \<open>dhcpc <interface>\<close>.\<close>

definition dhcpc_main ::
  "('l, 't) env \<Rightarrow> nat \<Rightarrow> string option list \<Rightarrow> ('l, 't) sys \<Rightarrow> ('l, 't, result) sys_result" where
  "dhcpc_main E argc argv s =
     (if argc < 2 \<or> argv ! 1 = None \<or> argv ! 1 = Some [] then Some (Inl EINVAL, s)
      else
        (let name = the (argv ! 1);
             ifc = env_find_by_name E (slog s) name
         in if ifc = None then Some (Inl ENODEV, s)
            else do {
              (lease, s) \<leftarrow> dmdhcp_start E ifc None None None s;
              Some (if lease = None then Inl EALREADY else Inr (), s) }))"

end
