(* ===== verification/Dhcp_System.thy ===== *)
theory Dhcp_System
  imports Dhcp_Api
begin

text \<open>
  The invariant of the whole module and the lemmas that carry it through the operations on the table
  and on a lease in the table: every allocated lease is tracked, at most one lease per
  interface, every tracked lease in its own invariant with its timers running, no lock
  held between two operations, and memory allocated for exactly what is stored.
\<close>

section \<open>The invariant\<close>

definition leases :: "('l, 't) env \<Rightarrow> ('l, 't) sys \<Rightarrow> lease_ptr list" where
  "leases E s = (case g_leases s of None \<Rightarrow> [] | Some t \<Rightarrow> elems (tlist E) t)"

definition iface_of :: "('l, 't) sys \<Rightarrow> lease_ptr \<Rightarrow> dmnetif_iface_t" where
  "iface_of s p = iface (the (heap s p))"

definition named :: "'l lease \<Rightarrow> int" where
  "named l = (if hostname l = None then 0 else 1)"

abbreviation timer_view :: "('l, 't) sys \<Rightarrow> timers" where
  "timer_view s \<equiv> observe timer_step (\<lambda>_. (0, False)) (slog s)"

text \<open>
  \<open>X\<close> is the set of tracked leases whose construction is not finished; their fields may still be
  those of a fresh lease.
\<close>

definition core_inv :: "('l, 't) env \<Rightarrow> lease_ptr set \<Rightarrow> ('l, 't) sys \<Rightarrow> bool" where
  "core_inv E X s \<longleftrightarrow> g_leases s \<noteq> None \<and> g_leases_mutex s = Some Table_mutex
     \<and> finite (dom (heap s)) \<and> dom (heap s) = observe live_step {} (slog s)
     \<and> set (leases E s) \<subseteq> dom (heap s) \<and> distinct (map (iface_of s) (leases E s))
     \<and> observe lock_step (Some []) (slog s) = Some []
     \<and> (\<forall>p \<in> set (leases E s) - X. \<exists>l. heap s p = Some l \<and> lease_inv E p l \<and> timers_ok None (timer_view s) p l)
     \<and> balance Addr_entry (slog s) = (\<Sum>p \<in> dom (heap s). stored E (the (heap s p)))
     \<and> balance Hostname (slog s) = (\<Sum>p \<in> dom (heap s). named (the (heap s p)))
     \<and> balance Msg_buffer (slog s) = 0
     \<and> (\<forall>t. snd (timer_view s t) \<longrightarrow> timer_owner t \<in> dom (heap s))"

definition sys_inv :: "('l, 't) env \<Rightarrow> ('l, 't) sys \<Rightarrow> bool" where
  "sys_inv E s \<longleftrightarrow> core_inv E {} s \<and> dom (heap s) = set (leases E s)"

lemma core_invD:
  assumes "core_inv E X s"
  shows "g_leases s \<noteq> None" "g_leases_mutex s = Some Table_mutex" "finite (dom (heap s))"
    "dom (heap s) = observe live_step {} (slog s)" "set (leases E s) \<subseteq> dom (heap s)"
    "distinct (map (iface_of s) (leases E s))" "observe lock_step (Some []) (slog s) = Some []"
    "p \<in> set (leases E s) \<Longrightarrow> p \<notin> X \<Longrightarrow>
      \<exists>l. heap s p = Some l \<and> lease_inv E p l \<and> timers_ok None (timer_view s) p l"
    "balance Addr_entry (slog s) = (\<Sum>p \<in> dom (heap s). stored E (the (heap s p)))"
    "balance Hostname (slog s) = (\<Sum>p \<in> dom (heap s). named (the (heap s p)))"
    "balance Msg_buffer (slog s) = 0" "snd (timer_view s t) \<Longrightarrow> timer_owner t \<in> dom (heap s)"
  using assms unfolding core_inv_def by blast+

lemma core_invI:
  assumes "g_leases s \<noteq> None" "g_leases_mutex s = Some Table_mutex" "finite (dom (heap s))"
    "dom (heap s) = observe live_step {} (slog s)" "set (leases E s) \<subseteq> dom (heap s)"
    "distinct (map (iface_of s) (leases E s))" "observe lock_step (Some []) (slog s) = Some []"
    "\<And>p. p \<in> set (leases E s) - X \<Longrightarrow>
      \<exists>l. heap s p = Some l \<and> lease_inv E p l \<and> timers_ok None (timer_view s) p l"
    "balance Addr_entry (slog s) = (\<Sum>p \<in> dom (heap s). stored E (the (heap s p)))"
    "balance Hostname (slog s) = (\<Sum>p \<in> dom (heap s). named (the (heap s p)))"
    "balance Msg_buffer (slog s) = 0" "\<And>t. snd (timer_view s t) \<Longrightarrow> timer_owner t \<in> dom (heap s)"
  shows "core_inv E X s"
  using assms unfolding core_inv_def by blast

lemma sum_update:
  assumes "finite (dom h)" and "h p = Some l"
  shows "(\<Sum>q \<in> dom h. f (the ((h(p := Some l')) q))) = (\<Sum>q \<in> dom h. f (the (h q))) - f l + (f l' :: int)"
proof -
  have p: "p \<in> dom h" using assms(2) by auto
  have "(\<Sum>q \<in> dom h - {p}. f (the ((h(p := Some l')) q))) = (\<Sum>q \<in> dom h - {p}. f (the (h q)))"
    by (rule sum.cong) auto
  then show ?thesis
    using sum.remove [OF assms(1) p, of "\<lambda>q. f (the ((h(p := Some l')) q))"]
      sum.remove [OF assms(1) p, of "\<lambda>q. f (the (h q))"] assms(2)
    by simp
qed

text \<open>An operation on one lease: what its calls must satisfy for the module's invariant.\<close>

lemma core_update:
  assumes core: "core_inv E X s" and p: "heap s p = Some l"
    and ifc: "p \<in> set (leases E s) \<Longrightarrow> iface l' = iface l"
    and es: "observe lock_step (Some []) es = Some []" "\<And>L. observe live_step L es = L"
      "\<And>tv t. timer_owner t \<noteq> p \<Longrightarrow> observe timer_step tv es t = tv t"
      "balance Addr_entry es = stored E l' - stored E l" "balance Hostname es = named l' - named l"
      "balance Msg_buffer es = 0"
    and X: "X - {p} \<subseteq> X'"
    and l': "p \<in> set (leases E s) - X' \<Longrightarrow> lease_inv E p l' \<and> timers_ok None (observe timer_step (timer_view s) es) p l'"
  shows "core_inv E X' (s\<lparr>heap := (heap s)(p := Some l'), slog := slog s @ es\<rparr>)"
proof -
  let ?s = "s\<lparr>heap := (heap s)(p := Some l'), slog := slog s @ es\<rparr>"
  note c = core_invD [OF core]
  have dom: "dom (heap ?s) = dom (heap s)" using p by auto
  have ls: "leases E ?s = leases E s" by (simp add: leases_def)
  have ifs: "map (iface_of ?s) (leases E s) = map (iface_of s) (leases E s)"
    using p ifc by (auto simp: iface_of_def)
  have "\<exists>k. heap ?s q = Some k \<and> lease_inv E q k \<and> timers_ok None (timer_view ?s) q k"
    if "q \<in> set (leases E s) - X'" for q
  proof (cases "q = p")
    case True
    with l' that show ?thesis by simp
  next
    case False
    with that X c(8) [of q] obtain k where "heap s q = Some k" "lease_inv E q k" "timers_ok None (timer_view s) q k"
      by blast
    with False es(3) show ?thesis by (simp add: timers_ok_def)
  qed
  note tracked = this
  show ?thesis
  proof (rule core_invI)
    show "balance Addr_entry (slog ?s) = (\<Sum>q \<in> dom (heap ?s). stored E (the (heap ?s q)))"
      unfolding dom using c(9) es(4) sum_update [OF c(3) p, of "stored E" l'] by simp
    show "balance Hostname (slog ?s) = (\<Sum>q \<in> dom (heap ?s). named (the (heap ?s q)))"
      unfolding dom using c(10) es(5) sum_update [OF c(3) p, of named l'] by simp
    show "finite (dom (heap ?s))" using c(3) by simp
    show "dom (heap ?s) = observe live_step {} (slog ?s)" unfolding dom using c(4) es(2) by simp
    show "set (leases E ?s) \<subseteq> dom (heap ?s)" unfolding dom ls by (rule c(5))
    show "distinct (map (iface_of ?s) (leases E ?s))" unfolding ls ifs by (rule c(6))
    show "\<exists>k. heap ?s q = Some k \<and> lease_inv E q k \<and> timers_ok None (timer_view ?s) q k"
      if "q \<in> set (leases E ?s) - X'" for q
      using tracked that unfolding ls by blast
    show "timer_owner t \<in> dom (heap ?s)" if "snd (timer_view ?s t)" for t
      using that c(12) [of t] es(3) [of t] p unfolding dom by (cases "timer_owner t = p") auto
  qed (use c es in simp_all)
qed

lemma on_lease_eq:
  assumes "heap s p = Some l"
  shows "on_lease p m s = (let c = \<lparr>self = p, cur = l, log = slog s\<rparr>
    in Some (fst (run_state m c), s\<lparr>heap := (heap s)(p := Some (cur (exec m c))), slog := log (exec m c)\<rparr>))"
  using assms by (simp add: on_lease_def exec_def split: prod.splits)

text \<open>Every handler of a lease preserves the invariant of the module.\<close>

lemma sys_inv_lease:
  assumes "sys_inv E s" and "p \<in> set (leases E s)"
  obtains l where "heap s p = Some l" "lease_inv E p l" "timers_ok None (timer_view s) p l"
  using assms by (auto simp: sys_inv_def core_inv_def)

lemma keeps_sys_inv:
  assumes inv: "sys_inv E s" and p: "heap s p = Some l"
    and k: "keeps E None \<lparr>self = p, cur = l, log = slog s\<rparr> (exec m \<lparr>self = p, cur = l, log = slog s\<rparr>)"
  shows "\<exists>x s'. on_lease p m s = Some (x, s') \<and> sys_inv E s' \<and> leases E s' = leases E s"
proof -
  let ?c = "\<lparr>self = p, cur = l, log = slog s\<rparr>"
  let ?l = "cur (exec m ?c)"
  from k obtain es where es: "log (exec m ?c) = slog s @ es" "observe lock_step (Some []) es = Some []"
      "\<And>L. observe live_step L es = L" "\<And>tv t. timer_owner t \<noteq> p \<Longrightarrow> observe timer_step tv es t = tv t"
      "\<And>tv. timers_ok None tv p l \<Longrightarrow> timers_ok None (observe timer_step tv es) p ?l"
      "balance Addr_entry es = stored E ?l - stored E l" "balance Msg_buffer es = 0" "balance Hostname es = 0"
    and l: "lease_inv E p ?l" "iface ?l = iface l" "hostname ?l = hostname l"
    by (auto simp: keeps_def)
  have "p \<in> set (leases E s)" using inv p by (auto simp: sys_inv_def)
  then have "timers_ok None (timer_view s) p l"
    using sys_inv_lease [OF inv] p by (metis option.inject)
  then have "core_inv E {} (s\<lparr>heap := (heap s)(p := Some ?l), slog := slog s @ es\<rparr>)"
    using inv p es l by (intro core_update [of E "{}" s p l]) (auto simp: sys_inv_def named_def)
  with inv p have "sys_inv E (s\<lparr>heap := (heap s)(p := Some ?l), slog := slog s @ es\<rparr>)"
    by (auto simp: sys_inv_def leases_def)
  with p es(1) show ?thesis by (simp add: on_lease_eq Let_def leases_def)
qed

section \<open>Lookup and received datagrams\<close>

lemma core_log:
  assumes core: "core_inv E X s" and es: "observe lock_step (Some []) es = Some []" "\<And>L. observe live_step L es = L"
    "\<And>tv. observe timer_step tv es = tv" "\<And>k. balance k es = 0"
  shows "core_inv E X (s\<lparr>slog := slog s @ es\<rparr>)"
proof -
  note c = core_invD [OF core]
  have same: "leases E (s\<lparr>slog := slog s @ es\<rparr>) = leases E s" "iface_of (s\<lparr>slog := slog s @ es\<rparr>) = iface_of s"
    by (auto simp: leases_def iface_of_def fun_eq_iff)
  show ?thesis
    by (rule core_invI) (use c(1-7,9-12) es c(8) in \<open>simp_all add: same\<close>)
qed

abbreviation table_section :: history where
  "table_section \<equiv> [Mutex_lock (Some Table_mutex), Mutex_unlock (Some Table_mutex)]"

lemma core_entries_live:
  assumes "core_inv E X s" and "g_leases s = Some t"
  shows "entries_live E s t" and "leases E s = elems (tlist E) t"
  using core_invD(5) [OF assms(1)] assms(2) by (auto simp: entries_live_def leases_def)

lemma find_by_xid_eq:
  assumes E: "env_ok E" and core: "core_inv E X s"
  shows "dmdhcp_lease_table_find_by_xid E ifc x s =
    Some (List.find (\<lambda>p. iface_of s p = ifc \<and> xid (the (heap s p)) = x) (leases E s),
          s\<lparr>slog := slog s @ table_section\<rparr>)"
proof -
  obtain t where t: "g_leases s = Some t" using core_invD(1) [OF core] by blast
  have "compare_by_xid (sys_emit e s) (ifc, x) = (\<lambda>p. iface_of s p = ifc \<and> xid (the (heap s p)) = x)" for e
    by (auto simp: compare_by_xid_def sys_emit_def iface_of_def)
  with t core_entries_live [OF core t] core_invD(2) [OF core] show ?thesis
    by (simp add: dmdhcp_lease_table_find_by_xid_def find_elems [OF env_ok_tlist [OF E]] Let_def) (simp add: sys_emit_def)
qed

lemma find_by_iface_eq:
  assumes E: "env_ok E" and core: "core_inv E X s"
  shows "dmdhcp_lease_table_find_by_iface E ifc s =
    Some (List.find (\<lambda>p. iface_of s p = ifc) (leases E s), s\<lparr>slog := slog s @ table_section\<rparr>)"
proof -
  obtain t where t: "g_leases s = Some t" using core_invD(1) [OF core] by blast
  have "compare_by_iface (sys_emit e s) ifc = (\<lambda>p. iface_of s p = ifc)" for e
    by (auto simp: compare_by_iface_def sys_emit_def iface_of_def)
  with t core_entries_live [OF core t] core_invD(2) [OF core] show ?thesis
    by (simp add: dmdhcp_lease_table_find_by_iface_def find_elems [OF env_ok_tlist [OF E]] Let_def) (simp add: sys_emit_def)
qed

lemma sys_inv_log:
  assumes "sys_inv E s" "observe lock_step (Some []) es = Some []" "\<And>L. observe live_step L es = L"
    "\<And>tv. observe timer_step tv es = tv" "\<And>k. balance k es = 0"
  shows "sys_inv E (s\<lparr>slog := slog s @ es\<rparr>)"
  using assms core_log [of E "{}" s es] by (simp add: sys_inv_def leases_def)

lemma as_v4_read: "as_v4 (read_addr x) = read_addr x"
  by (simp add: as_v4_def read_addr_def)

lemma parsed_wire_view:
  assumes "dmdhcp_parse_message (Some b) True True = Inr (m, off)"
  shows "wire_view m = m"
  using assms
  by (auto simp: dmdhcp_parse_message_def wire_view_def as_v4_read split: if_splits)

lemma datagram_inv:
  assumes E: "env_ok E" and inv: "sys_inv E s"
  shows "\<exists>s'. dmdhcp_handle_datagram E ifc payload s = Some ((), s') \<and> sys_inv E s' \<and> leases E s' = leases E s"
proof (cases "dmdhcp_parse_message payload True True")
  case (Inl e)
  with inv show ?thesis by (simp add: dmdhcp_handle_datagram_def)
next
  case (Inr r)
  obtain msg off where r: "r = (msg, off)" by (cases r)
  from Inr obtain b where b: "payload = Some b" by (cases payload) (simp_all add: dmdhcp_parse_message_def)
  let ?s = "s\<lparr>slog := slog s @ table_section\<rparr>"
  let ?p = "List.find (\<lambda>p. iface_of s p = ifc \<and> xid (the (heap s p)) = msg_xid msg) (leases E s)"
  have core: "core_inv E {} s" using inv by (simp add: sys_inv_def)
  have inv1: "sys_inv E ?s" by (rule sys_inv_log [OF inv]) simp_all
  have ls: "leases E ?s = leases E s" by (simp add: leases_def)
  note run = dmdhcp_handle_datagram_def Inr [unfolded b r] find_by_xid_eq [OF E core] b
  show ?thesis
  proof (cases ?p)
    case None
    with inv inv1 ls show ?thesis by (simp add: run)
  next
    case (Some p)
    then have "p \<in> set (leases E ?s)" using ls by (auto simp: find_Some_iff)
    then obtain l where l: "heap ?s p = Some l" "lease_inv E p l" by (rule sys_inv_lease [OF inv1])
    have view: "wire_view msg = msg" using Inr r b by (auto intro: parsed_wire_view)
    have "\<exists>x s'. on_lease p (dispatch_message E ty msg os) ?s = Some (x, s') \<and> sys_inv E s' \<and> leases E s' = leases E ?s" for ty os
      using keeps_sys_inv [OF inv1 l(1), of "dispatch_message E ty msg os"]
        received.keeps_inv [OF E, of "\<lparr>self = p, cur = l, log = slog ?s\<rparr>" ty msg os] l(2) view
      by simp
    with Some inv inv1 ls show ?thesis by (simp add: run Let_def split: sum.splits)
  qed
qed

section \<open>Removal and destruction\<close>

lemma distinct_leases: "core_inv E X s \<Longrightarrow> distinct (leases E s)"
  using core_invD(6) by (metis distinct_map)

lemma remove_eq:
  assumes E: "env_ok E" and core: "core_inv E X s"
  shows "\<exists>t'. dmdhcp_lease_table_remove E p s = Some ((), s\<lparr>g_leases := Some t', slog := slog s @ table_section\<rparr>)
    \<and> elems (tlist E) t' = filter (\<lambda>q. q \<noteq> p) (leases E s)"
proof -
  obtain t where t: "g_leases s = Some t" using core_invD(1) [OF core] by blast
  have ls: "leases E s = elems (tlist E) t" using t by (simp add: leases_def)
  have "length (filter (\<lambda>q. q = p) (leases E s)) \<le> 1"
    using distinct_leases [OF core] by (simp add: distinct_length_filter card_le_Suc0_iff_eq)
  then have "elems (tlist E) (dmlist_remove (tlist E) t (\<lambda>q. q = p)) = filter (\<lambda>q. q \<noteq> p) (leases E s)"
    unfolding ls by (rule elems_remove [OF env_ok_tlist [OF E]])
  with t core_invD(2) [OF core] show ?thesis
    by (intro exI [of _ "dmlist_remove (tlist E) t (\<lambda>q. q = p)"])
      (simp add: dmdhcp_lease_table_remove_def sys_emit_def Let_def)
qed

lemma core_drop:
  assumes core: "core_inv E X s" and t': "elems (tlist E) t' = filter (\<lambda>q. q \<noteq> p) (leases E s)"
  shows "core_inv E X (s\<lparr>g_leases := Some t'\<rparr>)"
    and "leases E (s\<lparr>g_leases := Some t'\<rparr>) = filter (\<lambda>q. q \<noteq> p) (leases E s)"
proof -
  let ?s = "s\<lparr>g_leases := Some t'\<rparr>"
  note c = core_invD [OF core]
  show ls: "leases E ?s = filter (\<lambda>q. q \<noteq> p) (leases E s)" using t' by (simp add: leases_def)
  have ifs: "iface_of ?s = iface_of s" by (auto simp: iface_of_def fun_eq_iff)
  show "core_inv E X ?s"
  proof (rule core_invI)
    show "distinct (map (iface_of ?s) (leases E ?s))"
      unfolding ls ifs using c(6) by (rule distinct_map_filter)
    show "set (leases E ?s) \<subseteq> dom (heap ?s)" unfolding ls using c(5) by auto
    show "\<exists>l. heap ?s q = Some l \<and> lease_inv E q l \<and> timers_ok None (timer_view ?s) q l"
      if "q \<in> set (leases E ?s) - X" for q
      using c(8) [of q] that unfolding ls by simp
  qed (use c in simp_all)
qed

lemma core_remove:
  assumes core: "core_inv E X s" and t': "elems (tlist E) t' = filter (\<lambda>q. q \<noteq> p) (leases E s)"
  shows "core_inv E X (s\<lparr>g_leases := Some t', slog := slog s @ table_section\<rparr>)"
    and "leases E (s\<lparr>g_leases := Some t', slog := slog s @ table_section\<rparr>) = filter (\<lambda>q. q \<noteq> p) (leases E s)"
  using core_log [OF core_drop(1) [OF assms], of table_section] core_drop(2) [OF assms]
  by (simp_all add: leases_def)

text \<open>The calls that destroy a lease, whatever was created of it.\<close>

lemma destroy_timer_effect:
  "exec (destroy_timer own t) s = s\<lparr>log := log s @
     (case t of None \<Rightarrow> [] | Some t \<Rightarrow> Timer_stop t # (if own then [] else [Timer_destroy t]))\<rparr>"
  by (simp add: destroy_timer_def run_simps split: option.splits)

definition own_timers :: "lease_ptr \<Rightarrow> 'l lease \<Rightarrow> bool" where
  "own_timers p l \<longleftrightarrow> retransmit_timer l \<in> {None, Some (Retransmit_timer p)}
     \<and> lease_timer l \<in> {None, Some (Lease_timer p)}"

definition timer_teardown :: "bool \<Rightarrow> timer_id option \<Rightarrow> history" where
  "timer_teardown own t = (case t of None \<Rightarrow> [] | Some t \<Rightarrow> Timer_stop t # (if own then [] else [Timer_destroy t]))"

lemma destroy_fields_run:
  assumes E: "env_ok E"
  shows "\<exists>e1 e2. log (exec (destroy_fields E context) s) = log s
      @ timer_teardown (context = dmdhcp_teardown_context_retransmit_timer) (retransmit_timer (cur s))
      @ timer_teardown (context = dmdhcp_teardown_context_lease_timer) (lease_timer (cur s))
      @ e1 @ (if dns_servers (cur s) \<noteq> None then [List_destroy (Dns_list (self s))] else [])
      @ e2 @ (if ntp_servers (cur s) \<noteq> None then [List_destroy (Ntp_list (self s))] else [])
      @ [if hostname (cur s) = None then Free_null else Free Hostname]
      @ (if lock (cur s) \<noteq> None then [Mutex_destroy (lock (cur s))] else []) @ [Free_lease (self s)]
    \<and> heap_only (- int (length (servers_of E (dns_servers (cur s))))) e1
    \<and> heap_only (- int (length (servers_of E (ntp_servers (cur s))))) e2"
proof -
  let ?l = "cur s"
  let ?a = "timer_teardown (context = dmdhcp_teardown_context_retransmit_timer) (retransmit_timer ?l)"
  let ?b = "timer_teardown (context = dmdhcp_teardown_context_lease_timer) (lease_timer ?l)"
  define s1 where "s1 = s\<lparr>cur := ?l\<lparr>magic := 0\<rparr>, log := log s @ ?a @ ?b\<rparr>"
  obtain e1 d where d: "exec (dmdhcp_lease_table_clear_dns_servers E) s1
      = s1\<lparr>cur := (cur s1)\<lparr>dns_servers := d\<rparr>, log := log s1 @ e1\<rparr>" "emptied E (dns_servers (cur s1)) d"
      "heap_only (- int (length (servers_of E (dns_servers (cur s1))))) e1"
    using clear_dns_effect [OF E] by blast
  define c1 where "c1 = (if d \<noteq> None then [List_destroy (Dns_list (self s))] else [])"
  define s2 where "s2 = s1\<lparr>cur := (cur s1)\<lparr>dns_servers := d\<rparr>, log := log s1 @ e1 @ c1\<rparr>"
  obtain e2 n where n: "exec (dmdhcp_lease_table_clear_ntp_servers E) s2
      = s2\<lparr>cur := (cur s2)\<lparr>ntp_servers := n\<rparr>, log := log s2 @ e2\<rparr>" "emptied E (ntp_servers (cur s2)) n"
      "heap_only (- int (length (servers_of E (ntp_servers (cur s2))))) e2"
    using clear_ntp_effect [OF E] by blast
  define c2 where "c2 = (if n \<noteq> None then [List_destroy (Ntp_list (self s))] else [])
    @ [if hostname ?l = None then Free_null else Free Hostname]
    @ (if lock ?l \<noteq> None then [Mutex_destroy (lock ?l)] else []) @ [Free_lease (self s)]"
  have run: "log (exec (destroy_fields E context) s) = log s @ ?a @ ?b @ e1 @ c1 @ e2 @ c2"
    using d(1) n(1)
    by (cases d; cases n; cases "hostname ?l"; cases "lock ?l")
      (simp_all add: destroy_fields_def run_simps destroy_timer_effect timer_teardown_def [symmetric]
        s1_def s2_def c1_def c2_def)
  have same: "dns_servers (cur s1) = dns_servers ?l" "ntp_servers (cur s2) = ntp_servers ?l"
    by (simp_all add: s1_def s2_def)
  then have "(d \<noteq> None) = (dns_servers ?l \<noteq> None)" "(n \<noteq> None) = (ntp_servers ?l \<noteq> None)"
    using d(2) n(2) by (simp_all add: emptied_def)
  with run d(3) n(3) same show ?thesis
    unfolding c1_def c2_def by - (rule exI [of _ e1], rule exI [of _ e2], simp only: append_assoc simp_thms)
qed

lemma destroy_fields_effect:
  assumes E: "env_ok E" and own: "own_timers (self s) (cur s)"
  shows "\<exists>es. log (exec (destroy_fields E context) s) = log s @ es
    \<and> observe lock_step (Some []) es = Some [] \<and> (\<forall>L. observe live_step L es = L - {self s})
    \<and> (\<forall>tv t. timer_owner t \<noteq> self s \<longrightarrow> observe timer_step tv es t = tv t)
    \<and> balance Addr_entry es = - stored E (cur s) \<and> balance Hostname es = - named (cur s)
    \<and> balance Msg_buffer es = 0
    \<and> (\<forall>tv t. snd (observe timer_step tv es t) \<longrightarrow> snd (tv t) \<and> Some t \<notin> {retransmit_timer (cur s), lease_timer (cur s)})"
proof -
  let ?l = "cur s"
  define a where "a = timer_teardown (context = dmdhcp_teardown_context_retransmit_timer) (retransmit_timer ?l)"
  define b where "b = timer_teardown (context = dmdhcp_teardown_context_lease_timer) (lease_timer ?l)"
  define c1 where "c1 = (if dns_servers ?l \<noteq> None then [List_destroy (Dns_list (self s))] else [])"
  define c2 where "c2 = (if ntp_servers ?l \<noteq> None then [List_destroy (Ntp_list (self s))] else [])
    @ [if hostname ?l = None then Free_null else Free Hostname]
    @ (if lock ?l \<noteq> None then [Mutex_destroy (lock ?l)] else []) @ [Free_lease (self s)]"
  obtain e1 e2 where run: "log (exec (destroy_fields E context) s) = log s @ a @ b @ e1 @ c1 @ e2 @ c2"
      and e: "heap_only (- int (length (servers_of E (dns_servers ?l)))) e1" "heap_only (- int (length (servers_of E (ntp_servers ?l)))) e2"
    using destroy_fields_run [OF E, of "context" s] unfolding a_def b_def c1_def c2_def by blast
  have ab: "observe lock_step (Some []) a = Some []" "observe lock_step (Some []) b = Some []"
      "observe live_step L a = L" "observe live_step L b = L" "balance k a = 0" "balance k b = 0"
      "timer_owner t \<noteq> self s \<Longrightarrow> observe timer_step tv a t = tv t"
      "timer_owner t \<noteq> self s \<Longrightarrow> observe timer_step tv b t = tv t" for L k tv t
    using own by (auto simp: a_def b_def own_timers_def timer_teardown_def split: if_splits)
  have stopped: "snd (observe timer_step (observe timer_step tv a) b t) \<Longrightarrow>
      snd (tv t) \<and> Some t \<notin> {retransmit_timer ?l, lease_timer ?l}" for tv t
    using own by (auto simp: a_def b_def own_timers_def timer_teardown_def split: if_splits)
  have c: "observe lock_step (Some []) c1 = Some []" "observe lock_step (Some []) c2 = Some []"
      "observe live_step L c1 = L" "observe live_step L c2 = L - {self s}" "observe timer_step tv c1 = tv"
      "observe timer_step tv c2 = tv" "balance k c1 = 0" "balance k c2 = (if k = Hostname then - named ?l else 0)" for L k tv
    by (simp_all add: c1_def c2_def named_def)
  from e run ab stopped c show ?thesis
    by (intro exI [of _ "a @ b @ e1 @ c1 @ e2 @ c2"]) (simp add: heap_only_balance stored_def)
qed

lemma sum_delete:
  assumes "finite (dom h)" and "h p = Some l"
  shows "(\<Sum>q \<in> dom (h(p := None)). f (the ((h(p := None)) q))) = (\<Sum>q \<in> dom h. f (the (h q))) - (f l :: int)"
proof -
  have p: "p \<in> dom h" using assms(2) by auto
  have "(\<Sum>q \<in> dom h - {p}. f (the ((h(p := None)) q))) = (\<Sum>q \<in> dom h - {p}. f (the (h q)))"
    by (rule sum.cong) auto
  then show ?thesis
    using sum.remove [OF assms(1) p, of "\<lambda>q. f (the (h q))"] assms(2) by simp
qed

lemma destroy_core:
  assumes E: "env_ok E" and core: "core_inv E X s" and p: "heap s p = Some l" "p \<notin> set (leases E s)"
    and own: "own_timers p l"
    and runs: "\<And>t. timer_owner t = p \<Longrightarrow> snd (timer_view s t) \<Longrightarrow> Some t \<in> {retransmit_timer l, lease_timer l}"
  shows "\<exists>s'. dmdhcp_lease_table_destroy_with_context E (Some p) context s = Some ((), s')
    \<and> core_inv E X s' \<and> leases E s' = leases E s \<and> heap s' = (heap s)(p := None)"
proof -
  note c = core_invD [OF core]
  let ?c = "\<lparr>self = p, cur = l, log = slog s\<rparr>"
  obtain es where es: "log (exec (destroy_fields E context) ?c) = slog s @ es"
      "observe lock_step (Some []) es = Some []" "\<And>L. observe live_step L es = L - {p}"
      "\<And>tv t. timer_owner t \<noteq> p \<Longrightarrow> observe timer_step tv es t = tv t"
      "balance Addr_entry es = - stored E l" "balance Hostname es = - named l" "balance Msg_buffer es = 0"
      "\<And>tv t. snd (observe timer_step tv es t) \<Longrightarrow> snd (tv t) \<and> Some t \<notin> {retransmit_timer l, lease_timer l}"
    using destroy_fields_effect [OF E, of ?c "context"] own by auto
  let ?s = "s\<lparr>heap := (heap s)(p := None), slog := slog s @ es\<rparr>"
  have run: "dmdhcp_lease_table_destroy_with_context E (Some p) context s = Some ((), ?s)"
    using p(1) es(1) by (simp add: dmdhcp_lease_table_destroy_with_context_def on_lease_eq Let_def)
  have ls: "leases E ?s = leases E s" by (simp add: leases_def)
  have ifs: "map (iface_of ?s) (leases E s) = map (iface_of s) (leases E s)"
    using p(2) by (auto simp: iface_of_def)
  have "core_inv E X ?s"
  proof (rule core_invI)
    show "finite (dom (heap ?s))" using c(3) by simp
    show "dom (heap ?s) = observe live_step {} (slog ?s)" using c(4) es(3) by simp
    show "set (leases E ?s) \<subseteq> dom (heap ?s)" unfolding ls using c(5) p(2) by auto
    show "distinct (map (iface_of ?s) (leases E ?s))" unfolding ls ifs by (rule c(6))
    show "\<exists>k. heap ?s q = Some k \<and> lease_inv E q k \<and> timers_ok None (timer_view ?s) q k"
      if "q \<in> set (leases E ?s) - X" for q
    proof -
      have "q \<noteq> p" and "q \<in> set (leases E s)" "q \<notin> X" using that p(2) ls by auto
      with c(8) [of q] es(4) show ?thesis by (auto simp: timers_ok_def)
    qed
    show "balance Addr_entry (slog ?s) = (\<Sum>q \<in> dom (heap ?s). stored E (the (heap ?s q)))"
      using c(9) es(5) sum_delete [OF c(3) p(1), of "stored E"] by simp
    show "balance Hostname (slog ?s) = (\<Sum>q \<in> dom (heap ?s). named (the (heap ?s q)))"
      using c(10) es(6) sum_delete [OF c(3) p(1), of named] by simp
    show "timer_owner t \<in> dom (heap ?s)" if "snd (timer_view ?s t)" for t
      using that c(12) [of t] runs [of t] es(8) [of "timer_view s" t] by auto
  qed (use c es in simp_all)
  with run ls show ?thesis by auto
qed

text \<open>The last section under the lease's lock before it is destroyed.\<close>

lemma unapply_locked_effect:
  "\<exists>es r. exec (unapply_locked E) s =
      s\<lparr>cur := (cur s)\<lparr>default_route := r, iface_configured := False\<rparr>,
        log := log s @ Mutex_lock (lock (cur s)) # es @ [Mutex_unlock (lock (cur s))]\<rparr>
    \<and> calm 0 es"
proof -
  let ?s = "s\<lparr>log := log s @ [Mutex_lock (lock (cur s))]\<rparr>"
  have keep: "iface_configured l = c \<Longrightarrow> l\<lparr>default_route := default_route l, iface_configured := c\<rparr> = l" for l :: "'a lease" and c
    by simp
  show ?thesis
  proof (cases "iface_configured (cur s)")
    case True
    with unapply_effect [of E ?s] show ?thesis
      by (auto simp: unapply_locked_def run_simps net_call_calm)
  next
    case False
    with keep [of "cur s" False] show ?thesis
      by - (rule exI [of _ "[]"], rule exI [of _ "default_route (cur s)"], simp add: unapply_locked_def run_simps calm_def)
  qed
qed

lemma release_locked_effect:
  "\<exists>es r. exec (release_locked E) s =
      s\<lparr>cur := (cur s)\<lparr>default_route := r, iface_configured := False\<rparr>,
        log := log s @ Mutex_lock (lock (cur s)) # es @ [Mutex_unlock (lock (cur s))]\<rparr>
    \<and> calm 0 es"
proof -
  let ?s = "s\<lparr>log := log s @ [Mutex_lock (lock (cur s))]\<rparr>"
  obtain e1 where e1: "exec (dmdhcp_output_send_release E) ?s = ?s\<lparr>log := log ?s @ e1\<rparr>" "heap_only 0 e1"
    using sender_effects(7) by blast
  define e where "e = (if family (offered_ip (cur s)) = dmroute_family_v4 \<and> family (server_id (cur s)) = dmroute_family_v4 then e1 else [])"
  have "calm 0 []" by (simp add: calm_def)
  then have e: "calm 0 e" using heap_only_calm [OF e1(2)] by (simp add: e_def)
  let ?t = "s\<lparr>log := log s @ Mutex_lock (lock (cur s)) # e\<rparr>"
  have keep: "iface_configured l = c \<Longrightarrow> l\<lparr>default_route := default_route l, iface_configured := c\<rparr> = l" for l :: "'a lease" and c
    by simp
  show ?thesis
  proof (cases "iface_configured (cur s)")
    case True
    obtain es where u: "exec (dmdhcp_lifecycle_unapply E) ?t =
        s\<lparr>cur := (cur s)\<lparr>default_route := None, iface_configured := False\<rparr>, log := log s @ Mutex_lock (lock (cur s)) # e @ es\<rparr>"
      "list_all net_call es"
      using unapply_effect [of E ?t] True by auto
    have "calm 0 (e @ es)" using calm_append [OF e net_call_calm [OF u(2)]] by simp
    with u(1) e1(1) True show ?thesis
      by - (rule exI [of _ "e @ es"], rule exI [of _ None], auto simp: release_locked_def run_simps e_def split: if_splits)
  next
    case False
    with keep [of "cur s" False] e e1(1) show ?thesis
      by - (rule exI [of _ e], rule exI [of _ "default_route (cur s)"], auto simp: release_locked_def run_simps e_def split: if_splits)
  qed
qed

text \<open>Removal, a last locked section and destruction, as \<open>dmdhcp_stop()\<close> and \<open>dmdhcp_release()\<close> do it.\<close>

lemma final_and_destroy:
  assumes E: "env_ok E" and core: "core_inv E {} s" and p: "heap s p = Some l" "p \<notin> set (leases E s)"
    and l: "lease_inv E p l"
    and final: "\<And>c. \<exists>es r. exec final c =
      c\<lparr>cur := (cur c)\<lparr>default_route := r, iface_configured := False\<rparr>,
        log := log c @ Mutex_lock (lock (cur c)) # es @ [Mutex_unlock (lock (cur c))]\<rparr> \<and> calm 0 es"
  shows "\<exists>s2 s3. on_lease p (final :: ('l, unit) lease_monad) s = Some ((), s2)
    \<and> dmdhcp_lease_table_destroy E (Some p) s2 = Some ((), s3)
    \<and> core_inv E {} s3 \<and> leases E s3 = leases E s \<and> heap s3 = (heap s)(p := None)"
proof -
  have lock: "lock l = Some (Lease_lock p)" using l by (simp add: inv_defs)
  let ?c = "\<lparr>self = p, cur = l, log = slog s\<rparr>"
  obtain es rt where last1: "exec final ?c = ?c\<lparr>cur := (cur ?c)\<lparr>default_route := rt, iface_configured := False\<rparr>,
        log := log ?c @ Mutex_lock (lock (cur ?c)) # es @ [Mutex_unlock (lock (cur ?c))]\<rparr>" and es: "calm 0 es"
    using final by blast
  let ?l = "l\<lparr>default_route := rt, iface_configured := False\<rparr>"
  let ?es = "Mutex_lock (lock l) # es @ [Mutex_unlock (lock l)]"
  define s2 where "s2 = s\<lparr>heap := (heap s)(p := Some ?l), slog := slog s @ ?es\<rparr>"
  have o: "on_lease p final s = Some ((), s2)"
    using p(1) last1 by (simp add: on_lease_eq Let_def s2_def)
  have "core_inv E {} s2"
    unfolding s2_def
    by (rule core_update [OF core p(1)]) (use p(2) lock calm_balance [OF es] in \<open>auto simp: stored_def named_def\<close>)
  moreover have h2: "heap s2 p = Some ?l" "p \<notin> set (leases E s2)"
    using p(2) by (simp_all add: s2_def leases_def)
  moreover have "own_timers p ?l" using l by (simp add: inv_defs own_timers_def)
  moreover have "Some t \<in> {retransmit_timer ?l, lease_timer ?l}" if "timer_owner t = p" for t
    using that l by (cases t) (simp_all add: inv_defs)
  ultimately obtain s3 where d: "dmdhcp_lease_table_destroy E (Some p) s2 = Some ((), s3)" "core_inv E {} s3"
      "leases E s3 = leases E s2" "heap s3 = (heap s2)(p := None)"
    using destroy_core [OF E] unfolding dmdhcp_lease_table_destroy_def by blast
  have "leases E s3 = leases E s" "heap s3 = (heap s)(p := None)"
    using d(3,4) by (simp_all add: s2_def leases_def)
  with o d(1,2) show ?thesis by blast
qed

lemma remove_and_destroy:
  assumes E: "env_ok E" and inv: "sys_inv E s" and p: "p \<in> set (leases E s)"
    and final: "\<And>c. \<exists>es r. exec final c =
      c\<lparr>cur := (cur c)\<lparr>default_route := r, iface_configured := False\<rparr>,
        log := log c @ Mutex_lock (lock (cur c)) # es @ [Mutex_unlock (lock (cur c))]\<rparr> \<and> calm 0 es"
  shows "\<exists>s'. do {
       (_, s) \<leftarrow> dmdhcp_lease_table_remove E p s;
       (_, s) \<leftarrow> on_lease p (final :: ('l, unit) lease_monad) s;
       (_, s) \<leftarrow> dmdhcp_lease_table_destroy E (Some p) s;
       Some (x, s) } = Some (x, s')
    \<and> sys_inv E s' \<and> leases E s' = filter (\<lambda>q. q \<noteq> p) (leases E s) \<and> heap s' = (heap s)(p := None)"
proof -
  have core: "core_inv E {} s" and dom: "dom (heap s) = set (leases E s)"
    using inv by (simp_all add: sys_inv_def)
  obtain t' where r: "dmdhcp_lease_table_remove E p s = Some ((), s\<lparr>g_leases := Some t', slog := slog s @ table_section\<rparr>)"
    and t': "elems (tlist E) t' = filter (\<lambda>q. q \<noteq> p) (leases E s)"
    using remove_eq [OF E core] by blast
  define s1 where "s1 = s\<lparr>g_leases := Some t', slog := slog s @ table_section\<rparr>"
  have core1: "core_inv E {} s1" and ls1: "leases E s1 = filter (\<lambda>q. q \<noteq> p) (leases E s)"
    unfolding s1_def by (rule core_remove [OF core t'])+
  obtain l where l: "heap s p = Some l" "lease_inv E p l" by (rule sys_inv_lease [OF inv p])
  then have l1: "heap s1 p = Some l" "p \<notin> set (leases E s1)" using ls1 by (simp_all add: s1_def)
  obtain s2 s3 where o: "on_lease p final s1 = Some ((), s2)" "dmdhcp_lease_table_destroy E (Some p) s2 = Some ((), s3)"
    and s3: "core_inv E {} s3" "leases E s3 = leases E s1" "heap s3 = (heap s1)(p := None)"
    using final_and_destroy [OF E core1 l1 l(2) final] by blast
  have ls: "leases E s3 = filter (\<lambda>q. q \<noteq> p) (leases E s)" and hp: "heap s3 = (heap s)(p := None)"
    using s3 ls1 by (simp_all add: s1_def)
  have "dom (heap s3) = set (leases E s3)" unfolding ls hp using dom by auto
  with s3 ls hp r o show ?thesis
    by (simp add: s1_def [symmetric] sys_inv_def)
qed

lemma valid_handle_live:
  assumes "sys_inv E s" and "p \<in> set (leases E s)"
  shows "valid_handle (Some p) s = Some True"
proof -
  obtain l where "heap s p = Some l" "lease_inv E p l" by (rule sys_inv_lease [OF assms])
  then show ?thesis by (simp add: valid_handle_def inv_defs)
qed

lemma stop_inv:
  assumes "env_ok E" and "sys_inv E s" and "p \<in> set (leases E s)"
  shows "\<exists>s'. dmdhcp_stop E (Some p) s = Some ((), s') \<and> sys_inv E s'
    \<and> leases E s' = filter (\<lambda>q. q \<noteq> p) (leases E s) \<and> heap s' = (heap s)(p := None)"
  using remove_and_destroy [OF assms unapply_locked_effect [of E], of "()"] valid_handle_live [OF assms(2,3)]
  by (simp add: dmdhcp_stop_def)

lemma release_inv:
  assumes "env_ok E" and "sys_inv E s" and "p \<in> set (leases E s)"
  shows "\<exists>s'. dmdhcp_release E (Some p) s = Some (Inr (), s') \<and> sys_inv E s'
    \<and> leases E s' = filter (\<lambda>q. q \<noteq> p) (leases E s) \<and> heap s' = (heap s)(p := None)"
  using remove_and_destroy [OF assms release_locked_effect [of E], of "Inr ()"] valid_handle_live [OF assms(2,3)]
  by (simp add: dmdhcp_release_def)

end
