(* ===== verification/Dhcp_Start.thy ===== *)
theory Dhcp_Start
  imports Dhcp_System
begin

text \<open>
  Creation of a lease, \<open>dmdhcp_start()\<close> and the set-up and tear-down of the module, on the module's
  invariant.
\<close>

section \<open>Creation\<close>

text \<open>The allocator never returns a lease that is still allocated.\<close>

definition fresh_malloc :: "('l, 't) env \<Rightarrow> bool" where
  "fresh_malloc E \<longleftrightarrow> (\<forall>h p. env_malloc_lease E h = Some p \<longrightarrow> p \<notin> observe live_step {} h)"

definition fresh_lease :: "('l, 't) env \<Rightarrow> lease_ptr \<Rightarrow> dmnetif_iface_t \<Rightarrow> 'l lease \<Rightarrow> bool" where
  "fresh_lease E p ifc l \<longleftrightarrow> handles_ok p l \<and> iface l = ifc \<and> state l = dmdhcp_state_init
     \<and> \<not> iface_configured l \<and> default_route l = None \<and> decline_retry_count l = 0
     \<and> servers_of E (dns_servers l) = [] \<and> servers_of E (ntp_servers l) = []"

text \<open>Every allocation and creation a start needs succeeds.\<close>

definition resources :: "('l, 't) env \<Rightarrow> bool" where
  "resources E \<longleftrightarrow> (\<forall>h. env_malloc_lease E h \<noteq> None) \<and> (\<forall>h m. env_mutex_create E h m)
     \<and> (\<forall>h t. env_timer_create E h t) \<and> (\<forall>h. env_addr_list_create E h \<noteq> None)
     \<and> (\<forall>c p. fst (dmlist_push_back (tlist E) c p))"

lemma fresh_own:
  assumes "fresh_lease E p ifc l"
  shows "own_timers p l" and "timer_owner t = p \<Longrightarrow> Some t \<in> {retransmit_timer l, lease_timer l}"
  using assms by (auto simp: fresh_lease_def handles_ok_def own_timers_def) (cases t; simp)

text \<open>Calls of the constructor: nothing is locked, allocated or started.\<close>

definition no_start :: "history \<Rightarrow> bool" where
  "no_start es \<longleftrightarrow> (\<forall>tv t. snd (observe timer_step tv es t) \<longrightarrow> snd (tv t))"

definition creating :: "lease_ptr \<Rightarrow> history \<Rightarrow> bool" where
  "creating p es \<longleftrightarrow> observe lock_step (Some []) es = Some [] \<and> (\<forall>L. observe live_step L es = L)
     \<and> (\<forall>tv t. timer_owner t \<noteq> p \<longrightarrow> observe timer_step tv es t = tv t) \<and> (\<forall>k. balance k es = 0)
     \<and> no_start es"

lemma no_start_append: "no_start es \<Longrightarrow> no_start fs \<Longrightarrow> no_start (es @ fs)"
  unfolding no_start_def observe_simps(3) by blast

lemma creating_append: "creating p es \<Longrightarrow> creating p fs \<Longrightarrow> creating p (es @ fs)"
  by (simp add: creating_def no_start_append)

lemma create_part_effects:
  "\<exists>es a. exec (create_lock E) s = s\<lparr>cur := (cur s)\<lparr>lock := a\<rparr>, log := log s @ es\<rparr>
     \<and> a \<in> {None, Some (Lease_lock (self s))} \<and> creating (self s) es \<and> (resources E \<longrightarrow> a \<noteq> None)"
  "\<exists>es c. exec (create_dns_list E) s = s\<lparr>cur := (cur s)\<lparr>dns_servers := c\<rparr>, log := log s @ es\<rparr>
     \<and> (env_ok E \<longrightarrow> servers_of E c = []) \<and> creating (self s) es \<and> (resources E \<longrightarrow> c \<noteq> None)"
  "\<exists>es c. exec (create_ntp_list E) s = s\<lparr>cur := (cur s)\<lparr>ntp_servers := c\<rparr>, log := log s @ es\<rparr>
     \<and> (env_ok E \<longrightarrow> servers_of E c = []) \<and> creating (self s) es \<and> (resources E \<longrightarrow> c \<noteq> None)"
  "\<exists>es a b. exec (create_timers E) s = s\<lparr>cur := (cur s)\<lparr>retransmit_timer := a, lease_timer := b\<rparr>, log := log s @ es\<rparr>
     \<and> a \<in> {None, Some (Retransmit_timer (self s))} \<and> b \<in> {None, Some (Lease_timer (self s))} \<and> creating (self s) es
     \<and> (resources E \<longrightarrow> a \<noteq> None \<and> b \<noteq> None)"
proof -
  show "\<exists>es a. exec (create_lock E) s = s\<lparr>cur := (cur s)\<lparr>lock := a\<rparr>, log := log s @ es\<rparr>
     \<and> a \<in> {None, Some (Lease_lock (self s))} \<and> creating (self s) es \<and> (resources E \<longrightarrow> a \<noteq> None)"
    by (rule exI [of _ "[Mutex_create (Lease_lock (self s)) (env_mutex_create E (log s) (Lease_lock (self s)))]"],
        rule exI [of _ "if env_mutex_create E (log s) (Lease_lock (self s)) then Some (Lease_lock (self s)) else None"])
      (simp add: create_lock_def run_simps creating_def no_start_def resources_def)
  have list: "servers_of E (env_addr_list_create E h) = []" if "env_ok E" for h
    using addr_list_create_empty [OF that] by (auto simp: servers_of_def split: option.splits)
  show "\<exists>es c. exec (create_dns_list E) s = s\<lparr>cur := (cur s)\<lparr>dns_servers := c\<rparr>, log := log s @ es\<rparr>
     \<and> (env_ok E \<longrightarrow> servers_of E c = []) \<and> creating (self s) es \<and> (resources E \<longrightarrow> c \<noteq> None)"
    by (rule exI [of _ "[List_create (Dns_list (self s)) (env_addr_list_create E (log s) \<noteq> None)]"],
        rule exI [of _ "env_addr_list_create E (log s)"])
      (simp add: create_dns_list_def run_simps creating_def no_start_def list resources_def)
  show "\<exists>es c. exec (create_ntp_list E) s = s\<lparr>cur := (cur s)\<lparr>ntp_servers := c\<rparr>, log := log s @ es\<rparr>
     \<and> (env_ok E \<longrightarrow> servers_of E c = []) \<and> creating (self s) es \<and> (resources E \<longrightarrow> c \<noteq> None)"
    by (rule exI [of _ "[List_create (Ntp_list (self s)) (env_addr_list_create E (log s) \<noteq> None)]"],
        rule exI [of _ "env_addr_list_create E (log s)"])
      (simp add: create_ntp_list_def run_simps creating_def no_start_def list resources_def)
  define rt where "rt = env_timer_create E (log s) (Retransmit_timer (self s))"
  define lt where "lt = env_timer_create E (log s @ [Timer_create (Retransmit_timer (self s)) DMDHCP_RETRANSMIT_INITIAL_MS rt])
    (Lease_timer (self s))"
  show "\<exists>es a b. exec (create_timers E) s = s\<lparr>cur := (cur s)\<lparr>retransmit_timer := a, lease_timer := b\<rparr>, log := log s @ es\<rparr>
     \<and> a \<in> {None, Some (Retransmit_timer (self s))} \<and> b \<in> {None, Some (Lease_timer (self s))} \<and> creating (self s) es
     \<and> (resources E \<longrightarrow> a \<noteq> None \<and> b \<noteq> None)"
    by (rule exI [of _ "[Timer_create (Retransmit_timer (self s)) DMDHCP_RETRANSMIT_INITIAL_MS rt,
          Timer_create (Lease_timer (self s)) DMDHCP_RETRANSMIT_INITIAL_MS lt]"],
        rule exI [of _ "if rt then Some (Retransmit_timer (self s)) else None"],
        rule exI [of _ "if lt then Some (Lease_timer (self s)) else None"])
      (simp add: rt_def lt_def create_timers_def dmdhcp_output_create_retransmit_timer_def
        dmdhcp_lifecycle_create_lease_timer_def run_simps creating_def no_start_def resources_def)
qed

lemma create_fields_effect:
  assumes E: "env_ok E" and z: "cur s = zero_lease"
  shows "\<exists>es ok l. run_state (create_fields E ifc) s = (ok, s\<lparr>cur := l, log := log s @ es\<rparr>) \<and> creating (self s) es
    \<and> own_timers (self s) l \<and> stored E l = 0 \<and> named l = 0 \<and> callbacks l = no_callbacks
    \<and> (ok \<longrightarrow> fresh_lease E (self s) ifc l) \<and> (resources E \<longrightarrow> ok)"
proof -
  obtain e1 a where 1: "exec (create_lock E) s = s\<lparr>cur := (cur s)\<lparr>lock := a\<rparr>, log := log s @ e1\<rparr>"
      "a \<in> {None, Some (Lease_lock (self s))}" "creating (self s) e1" "resources E \<longrightarrow> a \<noteq> None"
    using create_part_effects(1) by blast
  define s1 where "s1 = s\<lparr>cur := (cur s)\<lparr>lock := a\<rparr>, log := log s @ e1\<rparr>"
  obtain e2 d where 2: "exec (create_dns_list E) s1 = s1\<lparr>cur := (cur s1)\<lparr>dns_servers := d\<rparr>, log := log s1 @ e2\<rparr>"
      "servers_of E d = []" "creating (self s1) e2" "resources E \<longrightarrow> d \<noteq> None"
    using create_part_effects(2) [of E s1] E by blast
  define s2 where "s2 = s1\<lparr>cur := (cur s1)\<lparr>dns_servers := d\<rparr>, log := log s1 @ e2\<rparr>"
  obtain e3 n where 3: "exec (create_ntp_list E) s2 = s2\<lparr>cur := (cur s2)\<lparr>ntp_servers := n\<rparr>, log := log s2 @ e3\<rparr>"
      "servers_of E n = []" "creating (self s2) e3" "resources E \<longrightarrow> n \<noteq> None"
    using create_part_effects(3) [of E s2] E by blast
  define s3 where "s3 = s2\<lparr>cur := (cur s2)\<lparr>ntp_servers := n\<rparr>, log := log s2 @ e3\<rparr>"
  obtain e4 rt lt where 4: "exec (create_timers E) s3
      = s3\<lparr>cur := (cur s3)\<lparr>retransmit_timer := rt, lease_timer := lt\<rparr>, log := log s3 @ e4\<rparr>"
      "rt \<in> {None, Some (Retransmit_timer (self s3))}" "lt \<in> {None, Some (Lease_timer (self s3))}" "creating (self s3) e4"
      "resources E \<longrightarrow> rt \<noteq> None \<and> lt \<noteq> None"
    using create_part_effects(4) [of E s3] by blast
  let ?base = "zero_lease\<lparr>lock := a, dns_servers := d, ntp_servers := n, retransmit_timer := rt, lease_timer := lt\<rparr>"
  let ?ok = "a \<noteq> None \<and> d \<noteq> None \<and> n \<noteq> None \<and> rt \<noteq> None \<and> lt \<noteq> None"
  let ?l = "if ?ok then ?base\<lparr>iface := ifc, magic := DMDHCP_LEASE_MAGIC\<rparr> else ?base"
  have s4: "exec (create_timers E) s3 = s\<lparr>cur := ?base, log := log s @ e1 @ e2 @ e3 @ e4\<rparr>"
    using 4(1) by (simp add: s3_def s2_def s1_def z)
  have "run_state (create_fields E ifc) s = (?ok, s\<lparr>cur := ?l, log := log s @ e1 @ e2 @ e3 @ e4\<rparr>)"
    unfolding create_fields_def run_bind 1(1) s1_def [symmetric] 2(1) s2_def [symmetric] 3(1) s3_def [symmetric] s4
    by (auto simp: run_simps)
  moreover have "creating (self s) (e1 @ e2 @ e3 @ e4)"
    using 1(3) 2(3) 3(3) 4(4) by (simp add: creating_append s1_def s2_def s3_def)
  moreover have zl: "hostname zero_lease = None" "state zero_lease = dmdhcp_state_init" "\<not> iface_configured zero_lease"
      "default_route zero_lease = None" "decline_retry_count zero_lease = 0"
    by (simp_all add: zero_lease_def)
  moreover have "own_timers (self s) ?l" "stored E ?l = 0" "named ?l = 0"
    using 2(2) 3(2) 4(2,3) by (auto simp: own_timers_def stored_def named_def zl s3_def s2_def s1_def)
  moreover have "callbacks ?l = no_callbacks" by (simp add: zero_lease_def)
  moreover have "resources E \<longrightarrow> ?ok" using 1(4) 2(4) 3(4) 4(5) by blast
  moreover have "fresh_lease E (self s) ifc ?l" if ?ok
    using that 1(2) 2(2) 3(2) 4(2,3) by (auto simp: fresh_lease_def handles_ok_def zl s3_def s2_def s1_def)
  ultimately show ?thesis by blast
qed

lemma sum_insert:
  assumes "finite (dom h)" and "p \<notin> dom h"
  shows "(\<Sum>q \<in> dom (h(p := Some l)). f (the ((h(p := Some l)) q))) = (\<Sum>q \<in> dom h. f (the (h q))) + (f l :: int)"
proof -
  have "(\<Sum>q \<in> dom h. f (the ((h(p := Some l)) q))) = (\<Sum>q \<in> dom h. f (the (h q)))"
    using assms(2) by (intro sum.cong) auto
  then show ?thesis using assms by simp
qed

lemma core_alloc:
  assumes core: "core_inv E X s" and p: "p \<notin> dom (heap s)" and z: "stored E l = 0" "named l = 0"
  shows "core_inv E X (s\<lparr>heap := (heap s)(p := Some l), slog := slog s @ [Malloc_lease (Some p)]\<rparr>)"
proof -
  let ?s = "s\<lparr>heap := (heap s)(p := Some l), slog := slog s @ [Malloc_lease (Some p)]\<rparr>"
  note c = core_invD [OF core]
  have ls: "leases E ?s = leases E s" by (simp add: leases_def)
  have pl: "p \<notin> set (leases E s)" using c(5) p by auto
  then have ifs: "map (iface_of ?s) (leases E s) = map (iface_of s) (leases E s)"
    by (auto simp: iface_of_def)
  show ?thesis
  proof (rule core_invI)
    show "finite (dom (heap ?s))" using c(3) by simp
    show "dom (heap ?s) = observe live_step {} (slog ?s)" using c(4) by simp
    show "set (leases E ?s) \<subseteq> dom (heap ?s)" unfolding ls using c(5) by auto
    show "distinct (map (iface_of ?s) (leases E ?s))" unfolding ls ifs by (rule c(6))
    show "\<exists>k. heap ?s q = Some k \<and> lease_inv E q k \<and> timers_ok None (timer_view ?s) q k"
      if "q \<in> set (leases E ?s) - X" for q
      using c(8) [of q] that pl unfolding ls by auto
    show "balance Addr_entry (slog ?s) = (\<Sum>q \<in> dom (heap ?s). stored E (the (heap ?s q)))"
      using c(9) sum_insert [OF c(3) p, of "stored E" l] z by simp
    show "balance Hostname (slog ?s) = (\<Sum>q \<in> dom (heap ?s). named (the (heap ?s q)))"
      using c(10) sum_insert [OF c(3) p, of named l] z by simp
  qed (use c in simp_all)
qed

lemma create_core:
  assumes E: "env_ok E" "fresh_malloc E" and core: "core_inv E X s"
  shows "\<exists>r s'. dmdhcp_lease_table_create E ifc s = Some (r, s') \<and> core_inv E X s' \<and> leases E s' = leases E s
    \<and> (case r of
         None \<Rightarrow> heap s' = heap s \<and> \<not> resources E
       | Some p \<Rightarrow> p \<notin> dom (heap s) \<and> (\<exists>l. heap s' = (heap s)(p := Some l) \<and> fresh_lease E p ifc l \<and> named l = 0
           \<and> callbacks l = no_callbacks))"
proof (cases "env_malloc_lease E (slog s)")
  case None
  then have "dmdhcp_lease_table_create E ifc s = Some (None, s\<lparr>slog := slog s @ [Malloc_lease None]\<rparr>)"
    by (simp add: dmdhcp_lease_table_create_def sys_emit_def)
  moreover have "core_inv E X (s\<lparr>slog := slog s @ [Malloc_lease None]\<rparr>)"
    by (rule core_log [OF core]) simp_all
  moreover have "\<not> resources E" using None by (auto simp: resources_def)
  ultimately show ?thesis by (simp add: leases_def)
next
  case (Some p)
  note c = core_invD [OF core]
  have p: "p \<notin> dom (heap s)" using E(2) Some c(4) unfolding fresh_malloc_def by blast
  define s1 where "s1 = s\<lparr>heap := (heap s)(p := Some zero_lease), slog := slog s @ [Malloc_lease (Some p)]\<rparr>"
  have core1: "core_inv E X s1"
    unfolding s1_def by (rule core_alloc [OF core p]) (simp_all add: zero_lease_def stored_def named_def)
  have h1: "heap s1 p = Some zero_lease" by (simp add: s1_def)
  obtain es ok l where run: "run_state (create_fields E ifc) \<lparr>self = p, cur = zero_lease, log = slog s1\<rparr>
      = (ok, \<lparr>self = p, cur = l, log = slog s1 @ es\<rparr>)" and es: "creating p es"
    and l: "own_timers p l" "stored E l = 0" "named l = 0" "ok \<longrightarrow> fresh_lease E p ifc l" "callbacks l = no_callbacks"
      "resources E \<longrightarrow> ok"
    using create_fields_effect [OF E(1), of "\<lparr>self = p, cur = zero_lease, log = slog s1\<rparr>" ifc] by auto
  define s2 where "s2 = s1\<lparr>heap := (heap s1)(p := Some l), slog := slog s1 @ es\<rparr>"
  have o: "on_lease p (create_fields E ifc) s1 = Some (ok, s2)"
    using h1 run by (simp add: on_lease_def s2_def)
  have pl: "p \<notin> set (leases E s1)" using c(5) p by (auto simp: s1_def leases_def)
  have z: "stored E zero_lease = 0" "named zero_lease = 0"
    by (simp_all add: zero_lease_def stored_def named_def)
  have core2: "core_inv E X s2"
    unfolding s2_def
    by (rule core_update [OF core1 h1]) (use pl es l z in \<open>auto simp: creating_def\<close>)
  have hp2: "heap s2 = (heap s)(p := Some l)" and ls2: "leases E s2 = leases E s"
    by (simp_all add: s2_def s1_def leases_def)
  have create: "dmdhcp_lease_table_create E ifc s = (if ok then Some (Some p, s2)
      else do { (_, s) \<leftarrow> dmdhcp_lease_table_destroy E (Some p) s2; Some (None, s) })"
  proof -
    have "s\<lparr>slog := slog s @ [Malloc_lease (Some p)], heap := (heap s)(p := Some zero_lease)\<rparr> = s1"
      by (simp add: s1_def)
    with Some o show ?thesis by (simp add: dmdhcp_lease_table_create_def sys_emit_def Let_def)
  qed
  show ?thesis
  proof (cases ok)
    case True
    with create core2 hp2 ls2 l p show ?thesis by auto
  next
    case False
    have "p \<notin> set (leases E s2)" using c(5) p unfolding ls2 by auto
    moreover have "\<not> snd (timer_view s2 t)" if "timer_owner t = p" for t
      using es c(12) [of t] that p by (auto simp: creating_def no_start_def s2_def s1_def)
    ultimately obtain s3 where d: "dmdhcp_lease_table_destroy E (Some p) s2 = Some ((), s3)" "core_inv E X s3"
        "leases E s3 = leases E s2" "heap s3 = (heap s2)(p := None)"
      using destroy_core [OF E(1) core2, of p l] hp2 l(1) unfolding dmdhcp_lease_table_destroy_def by auto
    moreover have "heap s3 = heap s" using d(4) hp2 p by (auto simp: fun_eq_iff)
    ultimately show ?thesis using create False ls2 l(6) by simp
  qed
qed

text \<open>The calls of a creation that succeeds.\<close>

definition creation_calls :: "lease_ptr \<Rightarrow> history" where
  "creation_calls p = [Malloc_lease (Some p), Mutex_create (Lease_lock p) True, List_create (Dns_list p) True, List_create (Ntp_list p) True,
     Timer_create (Retransmit_timer p) DMDHCP_RETRANSMIT_INITIAL_MS True, Timer_create (Lease_timer p) DMDHCP_RETRANSMIT_INITIAL_MS True]"

lemma create_fields_calls:
  assumes "run_state (create_fields E ifc) c = (True, d)"
  shows "log d = log c @ tl (creation_calls (self c))"
  using assms
  by (auto simp: create_fields_def create_lock_def create_dns_list_def create_ntp_list_def create_timers_def
      dmdhcp_output_create_retransmit_timer_def dmdhcp_lifecycle_create_lease_timer_def run_simps creation_calls_def split: if_splits)

lemma create_calls:
  assumes "dmdhcp_lease_table_create E ifc s = Some (Some p, s1)"
  shows "slog s1 = slog s @ creation_calls p"
  using assms
  by (auto simp: dmdhcp_lease_table_create_def on_lease_def sys_emit_def Let_def bind_eq_Some_conv creation_calls_def
      split: option.splits if_splits prod.splits dest!: create_fields_calls)

text \<open>The copy of the caller's host name: none when none was given or when there is no memory for it.\<close>

definition host_copy :: "('l, 't) env \<Rightarrow> history \<Rightarrow> dmdhcp_options_t option \<Rightarrow> u8 list option" where
  "host_copy E h options = (case Option.bind options start_hostname of
     None \<Rightarrow> None | Some name \<Rightarrow> if env_malloc E h Hostname then Some name else None)"

lemma seed_effect:
  "\<exists>es cb name. exec (seed_lease E cbs u options) s =
      s\<lparr>cur := (cur s)\<lparr>callbacks := cb, user_data := u, hostname := name\<rparr>, log := log s @ es\<rparr>
    \<and> cb = (case cbs of None \<Rightarrow> callbacks (cur s) | Some c \<Rightarrow> c)
    \<and> list_all quiet es \<and> balance Addr_entry es = 0 \<and> balance Msg_buffer es = 0
    \<and> (hostname (cur s) = None \<longrightarrow> balance Hostname es = (if name = None then 0 else 1) \<and> name = host_copy E (log s) options)"
proof -
  let ?cb = "case cbs of None \<Rightarrow> callbacks (cur s) | Some c \<Rightarrow> c"
  let ?s = "s\<lparr>cur := (cur s)\<lparr>callbacks := ?cb, user_data := u\<rparr>\<rparr>"
  let ?ok = "env_malloc E (log s) Hostname"
  have cb: "exec (case cbs of None \<Rightarrow> State_Monad.return () | Some c \<Rightarrow> modl (\<lambda>l. l\<lparr>callbacks := c\<rparr>)) s
      = s\<lparr>cur := (cur s)\<lparr>callbacks := ?cb\<rparr>\<rparr>"
    by (simp add: run_simps split: option.splits)
  consider (none) "options = None \<or> (\<exists>o'. options = Some o' \<and> start_hostname o' = None)"
    | (some) o' name where "options = Some o'" "start_hostname o' = Some name"
    by (cases options) auto
  then show ?thesis
  proof cases
    case none
    then have "exec (seed_lease E cbs u options) s =
        s\<lparr>cur := (cur s)\<lparr>callbacks := ?cb, user_data := u, hostname := hostname (cur s)\<rparr>, log := log s @ []\<rparr>"
      unfolding seed_lease_def exec_bind cb by (auto simp: run_simps)
    then show ?thesis
      by - (rule exI [of _ "[]"], rule exI [of _ ?cb], rule exI [of _ "hostname (cur s)"], use none in \<open>auto simp: host_copy_def\<close>)
  next
    case some
    then have "exec (seed_lease E cbs u options) s =
        s\<lparr>cur := (cur s)\<lparr>callbacks := ?cb, user_data := u, hostname := (if ?ok then Some name else None)\<rparr>,
          log := log s @ [Malloc Hostname ?ok]\<rparr>"
      unfolding seed_lease_def exec_bind cb by (simp add: run_simps)
    then show ?thesis
      by - (rule exI [of _ "[Malloc Hostname ?ok]"], rule exI [of _ ?cb],
        rule exI [of _ "if ?ok then Some name else None"], use some in \<open>simp add: host_copy_def\<close>)
  qed
qed

lemma seed_core:
  assumes core: "core_inv E X s" and p: "heap s p = Some l" "p \<notin> set (leases E s)"
    and l: "fresh_lease E p ifc l" "named l = 0"
  shows "\<exists>s' k. on_lease p (seed_lease E cbs u options) s = Some ((), s') \<and> core_inv E X s'
    \<and> leases E s' = leases E s \<and> heap s' = (heap s)(p := Some k) \<and> fresh_lease E p ifc k
    \<and> callbacks k = (case cbs of None \<Rightarrow> callbacks l | Some c \<Rightarrow> c) \<and> user_data k = u
    \<and> hostname k = host_copy E (slog s) options"
proof -
  let ?c = "\<lparr>self = p, cur = l, log = slog s\<rparr>"
  obtain es cb name where run: "exec (seed_lease E cbs u options) ?c =
      ?c\<lparr>cur := (cur ?c)\<lparr>callbacks := cb, user_data := u, hostname := name\<rparr>, log := log ?c @ es\<rparr>"
    and cb: "cb = (case cbs of None \<Rightarrow> callbacks (cur ?c) | Some c \<Rightarrow> c)"
    and es: "list_all quiet es" "balance Addr_entry es = 0" "balance Msg_buffer es = 0"
      "hostname (cur ?c) = None \<longrightarrow> balance Hostname es = (if name = None then 0 else 1) \<and> name = host_copy E (log ?c) options"
    using seed_effect [of E cbs u options ?c] by (elim exE conjE) (rule that)
  let ?k = "l\<lparr>callbacks := cb, user_data := u, hostname := name\<rparr>"
  have n: "hostname l = None" using l(2) by (simp add: named_def split: if_splits)
  have "core_inv E X (s\<lparr>heap := (heap s)(p := Some ?k), slog := slog s @ es\<rparr>)"
    by (rule core_update [OF core p(1)]) (use p(2) es n in \<open>auto simp: stored_def named_def\<close>)
  moreover have "fresh_lease E p ifc ?k" using l(1) by (simp add: fresh_lease_def handles_ok_def)
  moreover have "cb = (case cbs of None \<Rightarrow> callbacks l | Some c \<Rightarrow> c)" using cb by (cases cbs) simp_all
  ultimately show ?thesis
    using p(1) run es(4) n
    by - (rule exI [of _ "s\<lparr>heap := (heap s)(p := Some ?k), slog := slog s @ es\<rparr>"], rule exI [of _ ?k],
      simp add: on_lease_eq Let_def leases_def)
qed

lemma insert_core:
  assumes E: "env_ok E" and core: "core_inv E X s" and p: "heap s p = Some l" "p \<notin> set (leases E s)"
  shows "\<exists>r s'. dmdhcp_lease_table_insert E p s = Some (r, s') \<and> heap s' = heap s
    \<and> (case r of
         Inl e \<Rightarrow> core_inv E X s' \<and> leases E s' = leases E s
       | Inr _ \<Rightarrow> core_inv E (insert p X) s' \<and> leases E s' = leases E s @ [p] \<and> iface l \<notin> iface_of s ` set (leases E s))
    \<and> (r = Inl EEXIST \<longleftrightarrow> iface l \<in> iface_of s ` set (leases E s))
    \<and> (isl r \<longleftrightarrow> iface l \<in> iface_of s ` set (leases E s) \<or> \<not> fst (dmlist_push_back (tlist E) (the (g_leases s)) p))"
proof -
  note c = core_invD [OF core]
  obtain t where t: "g_leases s = Some t" using c(1) by blast
  have ls: "leases E s = elems (tlist E) t" using t by (simp add: leases_def)
  have cmp: "compare_by_iface (sys_emit e s) i = (\<lambda>p. iface_of s p = i)" for e i
    by (auto simp: compare_by_iface_def sys_emit_def iface_of_def)
  obtain ok t' where push: "dmlist_push_back (tlist E) t p = (ok, t')" by fastforce
  have t': "elems (tlist E) t' = (if ok then leases E s @ [p] else leases E s)"
    using elems_push_back [OF env_ok_tlist [OF E], of t p] push ls by simp
  have found: "List.find (\<lambda>q. iface_of s q = i) (leases E s) = None \<longleftrightarrow> i \<notin> iface_of s ` set (leases E s)" for i
    by (auto simp: find_None_iff)
  have run: "dmdhcp_lease_table_insert E p s =
      (if iface l \<in> iface_of s ` set (leases E s)
       then Some (Inl EEXIST, s\<lparr>g_leases := Some t, slog := slog s @ table_section\<rparr>)
       else Some (if ok then Inr () else Inl ENOMEM, s\<lparr>g_leases := Some t', slog := slog s @ table_section\<rparr>))"
    using t p(1) core_entries_live [OF core t] c(2) push found [of "iface l"]
    by (auto simp: dmdhcp_lease_table_insert_def find_elems [OF env_ok_tlist [OF E]] cmp Let_def)
      (simp_all add: sys_emit_def)
  have same: "core_inv E X (s\<lparr>g_leases := Some u, slog := slog s @ table_section\<rparr>)
      \<and> leases E (s\<lparr>g_leases := Some u, slog := slog s @ table_section\<rparr>) = leases E s"
    if "elems (tlist E) u = leases E s" for u
  proof -
    have "elems (tlist E) u = filter (\<lambda>q. q \<noteq> p) (leases E s)"
      using that p(2) by (auto intro: filter_True [symmetric])
    from core_remove [OF core this] that show ?thesis by (simp add: leases_def)
  qed
  show ?thesis
  proof (cases "iface l \<in> iface_of s ` set (leases E s)")
    case True
    with run same [of t] ls t show ?thesis by simp
  next
    case new: False
    show ?thesis
    proof (cases ok)
      case False
      with run same [of t'] t' new push t show ?thesis by simp
    next
      case True
      let ?s = "s\<lparr>g_leases := Some t', slog := slog s @ table_section\<rparr>"
      have l': "leases E ?s = leases E s @ [p]" using True t' by (simp add: leases_def)
      have ifs: "iface_of ?s = iface_of s" by (auto simp: iface_of_def fun_eq_iff)
      have "core_inv E (insert p X) ?s"
      proof (rule core_invI)
        show "set (leases E ?s) \<subseteq> dom (heap ?s)" unfolding l' using c(5) p(1) by auto
        show "distinct (map (iface_of ?s) (leases E ?s))"
          unfolding l' ifs using c(6) new p(1) by (auto simp: iface_of_def)
        show "\<exists>k. heap ?s q = Some k \<and> lease_inv E q k \<and> timers_ok None (timer_view ?s) q k"
          if "q \<in> set (leases E ?s) - insert p X" for q
          using c(8) [of q] that unfolding l' by auto
      qed (use c in simp_all)
      with True run l' new push t show ?thesis by simp
    qed
  qed
qed

section \<open>Starting a lease\<close>

text \<open>The state a started lease is in, and the lease right after the first message was sent.\<close>

definition first_state :: "dmdhcp_options_t option \<Rightarrow> dmdhcp_state_t" where
  "first_state options = (case options of
     Some o' \<Rightarrow> if family (start_requested_ip o') = dmroute_family_v4 then dmdhcp_state_rebooting else dmdhcp_state_selecting
   | None \<Rightarrow> dmdhcp_state_selecting)"

lemma begin_acquire_effect:
  assumes E: "env_ok E" and fresh: "fresh_lease E (self s) ifc (cur s)"
  shows "\<exists>es l. exec (begin_acquire E options) s = s\<lparr>cur := l, log := log s @ es\<rparr>
    \<and> lease_inv E (self s) l \<and> iface l = ifc \<and> hostname l = hostname (cur s) \<and> state l = first_state options
    \<and> callbacks l = callbacks (cur s) \<and> user_data l = user_data (cur s)
    \<and> observe lock_step (Some []) es = Some [] \<and> (\<forall>L. observe live_step L es = L)
    \<and> (\<forall>tv t. timer_owner t \<noteq> self s \<longrightarrow> observe timer_step tv es t = tv t)
    \<and> (\<forall>tv. timers_ok None (observe timer_step tv es) (self s) l)
    \<and> balance Addr_entry es = 0 \<and> stored E l = 0 \<and> balance Msg_buffer es = 0 \<and> balance Hostname es = 0"
proof (cases "first_state options = dmdhcp_state_rebooting")
  case True
  then obtain o' where o': "options = Some o'" "family (start_requested_ip o') = dmroute_family_v4"
    by (cases options) (auto simp: first_state_def split: if_splits)
  let ?s = "s\<lparr>cur := (cur s)\<lparr>offered_ip := start_requested_ip o'\<rparr>, log := log s @ [Mutex_lock (lock (cur s))]\<rparr>"
  obtain x es where r: "exec (dmdhcp_output_start_reboot E) ?s =
      ?s\<lparr>cur := (cur ?s)\<lparr>xid := x, retransmit_count := 0, retransmit_interval_ms := 4000, state := dmdhcp_state_rebooting\<rparr>,
        log := log ?s @ es @ armed (retransmit_timer (cur ?s)) 4000\<rparr>" and es: "heap_only 0 es"
    using start_reboot_effect by blast
  let ?l = "(cur s)\<lparr>offered_ip := start_requested_ip o', xid := x, retransmit_count := 0, retransmit_interval_ms := 4000,
    state := dmdhcp_state_rebooting\<rparr>"
  let ?es = "Mutex_lock (lock (cur s)) # es @ armed (retransmit_timer (cur s)) 4000 @ [Mutex_unlock (lock (cur s))]"
  have run: "exec (begin_acquire E options) s = s\<lparr>cur := ?l, log := log s @ ?es\<rparr>"
    using r o' by (simp add: begin_acquire_def run_simps)
  show ?thesis
    by (rule exI [of _ ?es], rule exI [of _ ?l])
      (use run fresh o' in \<open>auto simp: fresh_lease_def inv_defs servers_v4_def first_state_def heap_only_balance [OF es]
        timers_ok_def stored_def dest: timer_owner_neq\<close>)
next
  case False
  then have fs: "first_state options = dmdhcp_state_selecting"
    by (auto simp: first_state_def split: option.splits if_splits)
  have run0: "exec (begin_acquire E options) s = exec (handle_lost_restart E) s"
    using False by (auto simp: begin_acquire_def handle_lost_restart_def run_simps first_state_def split: option.splits if_splits)
  obtain x es dns ntp where r: "exec (handle_lost_restart E) s =
      s\<lparr>cur := (cur s)\<lparr>xid := x, offered_ip := addr_none, server_id := addr_none,
           gateway := addr_none, netmask := addr_none, dns_servers := dns, ntp_servers := ntp,
           retransmit_count := 0, retransmit_interval_ms := 4000, state := dmdhcp_state_selecting\<rparr>,
        log := log s @ Mutex_lock (lock (cur s)) # es @ armed (retransmit_timer (cur s)) 4000
          @ [Mutex_unlock (lock (cur s))]\<rparr>"
    and es: "heap_only (- int (length (servers_of E (dns_servers (cur s)))) - int (length (servers_of E (ntp_servers (cur s))))) es"
    and empt: "emptied E (dns_servers (cur s)) dns" "emptied E (ntp_servers (cur s)) ntp"
    using handle_lost_restart_effect [OF E] by blast
  let ?l = "(cur s)\<lparr>xid := x, offered_ip := addr_none, server_id := addr_none,
           gateway := addr_none, netmask := addr_none, dns_servers := dns, ntp_servers := ntp,
           retransmit_count := 0, retransmit_interval_ms := 4000, state := dmdhcp_state_selecting\<rparr>"
  let ?es = "Mutex_lock (lock (cur s)) # es @ armed (retransmit_timer (cur s)) 4000 @ [Mutex_unlock (lock (cur s))]"
  have es0: "heap_only 0 es" using es fresh by (simp add: fresh_lease_def)
  show ?thesis
    by (rule exI [of _ ?es], rule exI [of _ ?l])
      (use run0 r fresh in \<open>auto simp: fresh_lease_def inv_defs fs heap_only_balance [OF es0] timers_ok_def stored_def
        emptied_servers [OF empt(1)] emptied_servers [OF empt(2)] dest: timer_owner_neq\<close>)
qed

lemma start_inv:
  assumes E: "env_ok E" "fresh_malloc E" and inv: "sys_inv E s"
  shows "\<exists>r s'. dmdhcp_start E ifc cbs ud options s = Some (r, s') \<and> sys_inv E s'
    \<and> (case r of
         None \<Rightarrow> leases E s' = leases E s \<and> heap s' = heap s
           \<and> (ifc = None \<or> ifc \<in> iface_of s ` set (leases E s) \<or> \<not> resources E)
       | Some p \<Rightarrow> p \<notin> set (leases E s) \<and> leases E s' = leases E s @ [p] \<and> iface_of s' p = ifc
           \<and> ifc \<noteq> None \<and> ifc \<notin> iface_of s ` set (leases E s)
           \<and> (\<exists>l. heap s' = (heap s)(p := Some l) \<and> state l = first_state options
               \<and> callbacks l = (case cbs of None \<Rightarrow> no_callbacks | Some c \<Rightarrow> c) \<and> user_data l = ud
               \<and> hostname l = host_copy E (slog s @ creation_calls p) options))"
proof (cases "ifc = None")
  case True
  with inv show ?thesis by (simp add: dmdhcp_start_def)
next
  case False
  then have ifc: "(ifc = None) = False" by simp
  have core: "core_inv E {} s" and dom: "dom (heap s) = set (leases E s)" using inv by (simp_all add: sys_inv_def)
  obtain r1 s1 where c: "dmdhcp_lease_table_create E ifc s = Some (r1, s1)" "core_inv E {} s1" "leases E s1 = leases E s"
    and r1: "case r1 of None \<Rightarrow> heap s1 = heap s \<and> \<not> resources E
       | Some p \<Rightarrow> p \<notin> dom (heap s) \<and> (\<exists>l. heap s1 = (heap s)(p := Some l) \<and> fresh_lease E p ifc l \<and> named l = 0
           \<and> callbacks l = no_callbacks)"
    using create_core [OF E core] by blast
  show ?thesis
  proof (cases r1)
    case None
    with c r1 dom show ?thesis unfolding dmdhcp_start_def ifc by (simp add: sys_inv_def)
  next
    case (Some p)
    with r1 obtain l where p: "p \<notin> dom (heap s)" and l: "heap s1 = (heap s)(p := Some l)" "fresh_lease E p ifc l" "named l = 0"
        "callbacks l = no_callbacks"
      by auto
    have pl: "p \<notin> set (leases E s)" using p dom by simp
    have h1: "heap s1 p = Some l" "p \<notin> set (leases E s1)" using l(1) pl c(3) by simp_all
    obtain s2 k where sd: "on_lease p (seed_lease E cbs ud options) s1 = Some ((), s2)" "core_inv E {} s2"
        "leases E s2 = leases E s1" "heap s2 = (heap s1)(p := Some k)" "fresh_lease E p ifc k"
        "callbacks k = (case cbs of None \<Rightarrow> callbacks l | Some c \<Rightarrow> c)" "user_data k = ud" "hostname k = host_copy E (slog s1) options"
      using seed_core [OF c(2) h1 l(2,3)] by blast
    have h2: "heap s2 p = Some k" "p \<notin> set (leases E s2)" "heap s2 = (heap s)(p := Some k)"
      using sd(3,4) h1(2) l(1) by simp_all
    have ik: "iface k = ifc" using sd(5) by (simp add: fresh_lease_def)
    have same: "iface_of s2 q = iface_of s q" if "q \<in> set (leases E s)" for q
      using that pl h2(3) by (auto simp: iface_of_def)
    have img: "iface_of s2 ` set (leases E s2) = iface_of s ` set (leases E s)"
      using same sd(3) c(3) by (intro image_cong) simp_all
    obtain r3 s3 where ins: "dmdhcp_lease_table_insert E p s2 = Some (r3, s3)" "heap s3 = heap s2"
      and r3: "case r3 of Inl e \<Rightarrow> core_inv E {} s3 \<and> leases E s3 = leases E s2
       | Inr _ \<Rightarrow> core_inv E (insert p {}) s3 \<and> leases E s3 = leases E s2 @ [p] \<and> iface k \<notin> iface_of s2 ` set (leases E s2)"
      and occ: "isl r3 \<longleftrightarrow> iface k \<in> iface_of s2 ` set (leases E s2) \<or> \<not> fst (dmlist_push_back (tlist E) (the (g_leases s2)) p)"
      using insert_core [OF E(1) sd(2) h2(1,2)] by (elim exE conjE) (rule that)
    show ?thesis
    proof (cases r3)
      case (Inl e)
      with r3 have core3: "core_inv E {} s3" and ls3: "leases E s3 = leases E s" using sd(3) c(3) by simp_all
      have h3: "heap s3 p = Some k" "p \<notin> set (leases E s3)" using h2 ins(2) pl ls3 by simp_all
      obtain s4 where d: "dmdhcp_lease_table_destroy E (Some p) s3 = Some ((), s4)" "core_inv E {} s4"
          "leases E s4 = leases E s3" "heap s4 = (heap s3)(p := None)"
        using destroy_core [OF E(1) core3 h3 fresh_own [OF sd(5)]] unfolding dmdhcp_lease_table_destroy_def by blast
      have "ifc \<in> iface_of s ` set (leases E s) \<or> \<not> resources E" using occ Inl img ik by (auto simp: resources_def)
      moreover have "heap s4 = heap s" using d(4) ins(2) h2(3) p by (auto simp: fun_eq_iff)
      ultimately show ?thesis using Inl Some c(1) sd(1) ins(1) d ls3 dom
        unfolding dmdhcp_start_def ifc by (simp add: sys_inv_def)
    next
      case (Inr u)
      with r3 img ik have core3: "core_inv E {p} s3" and ls3: "leases E s3 = leases E s @ [p]"
        and new: "ifc \<notin> iface_of s ` set (leases E s)" using sd(3) c(3) by simp_all
      have h3: "heap s3 p = Some k" using h2(1) ins(2) by simp
      let ?c = "\<lparr>self = p, cur = k, log = slog s3\<rparr>"
      have fr: "fresh_lease E (self ?c) ifc (cur ?c)" using sd(5) by simp
      obtain es j where b: "exec (begin_acquire E options) ?c = ?c\<lparr>cur := j, log := log ?c @ es\<rparr>"
          "lease_inv E (self ?c) j" "iface j = ifc" "hostname j = hostname (cur ?c)" "state j = first_state options"
          "callbacks j = callbacks (cur ?c)" "user_data j = user_data (cur ?c)"
          "observe lock_step (Some []) es = Some []" "\<forall>L. observe live_step L es = L"
          "\<forall>tv t. timer_owner t \<noteq> self ?c \<longrightarrow> observe timer_step tv es t = tv t"
          "\<forall>tv. timers_ok None (observe timer_step tv es) (self ?c) j"
          "balance Addr_entry es = 0" "stored E j = 0" "balance Msg_buffer es = 0" "balance Hostname es = 0"
        using begin_acquire_effect [OF E(1) fr, of options] by (elim exE conjE) (rule that)
      define s4 where "s4 = s3\<lparr>heap := (heap s3)(p := Some j), slog := slog s3 @ es\<rparr>"
      have o: "on_lease p (begin_acquire E options) s3 = Some ((), s4)"
        using h3 b(1) by (simp add: on_lease_eq Let_def s4_def)
      have "stored E k = 0" using sd(5) by (simp add: fresh_lease_def stored_def)
      then have core4: "core_inv E {} s4"
        unfolding s4_def by (intro core_update [OF core3 h3]) (use b ik in \<open>simp_all add: named_def\<close>)
      have ls4: "leases E s4 = leases E s @ [p]" using ls3 by (simp add: s4_def leases_def)
      have h4: "heap s4 = (heap s)(p := Some j)" using ins(2) h2(3) by (simp add: s4_def)
      have "dom (heap s4) = set (leases E s4)" unfolding h4 ls4 using dom by simp
      with core4 have inv4: "sys_inv E s4" by (simp add: sys_inv_def)
      have "dmdhcp_start E ifc cbs ud options s = Some (Some p, s4)"
        unfolding dmdhcp_start_def ifc using Some Inr c(1) sd(1) ins(1) o by simp
      moreover have "callbacks j = (case cbs of None \<Rightarrow> no_callbacks | Some c \<Rightarrow> c)" "user_data j = ud"
        using b(6,7) sd(6,7) l(4) by (cases cbs; simp)+
      moreover have "hostname j = host_copy E (slog s @ creation_calls p) options"
        using b(4) sd(8) create_calls [OF c(1) [unfolded Some]] by simp
      ultimately show ?thesis using inv4 ls4 h4 pl new b(3,5) ifc by (auto simp: iface_of_def)
    qed
  qed
qed

section \<open>Setting up and tearing down the module\<close>

text \<open>The module before \<open>dmod_init()\<close>, and a closed one: nothing is allocated.\<close>

definition empty_sys :: "('l, 't) sys" where
  "empty_sys = \<lparr>heap = (\<lambda>_. None), g_leases = None, g_leases_mutex = None, slog = []\<rparr>"

definition nothing_left :: "('l, 't) sys \<Rightarrow> bool" where
  "nothing_left s \<longleftrightarrow> heap s = (\<lambda>_. None) \<and> g_leases s = None \<and> g_leases_mutex s = None
     \<and> observe live_step {} (slog s) = {} \<and> observe lock_step (Some []) (slog s) = Some []
     \<and> (\<forall>t. \<not> snd (timer_view s t)) \<and> (\<forall>k. balance k (slog s) = 0)"

lemma init_inv:
  assumes E: "env_ok E" and init: "dmod_init E empty_sys = (Inr (), s)"
  shows "sys_inv E s \<and> leases E s = []"
proof -
  obtain t where t: "env_lease_list_create E [] = Some t"
    and s: "g_leases s = Some t" "g_leases_mutex s = Some Table_mutex" "heap s = (\<lambda>_. None)"
      "slog s = [List_create Lease_list True, Mutex_create Table_mutex True, Udp_bind DMDHCP_CLIENT_PORT (Inr ())]"
    using init
    by (auto simp: dmod_init_def dmdhcp_lease_table_init_def dmdhcp_input_register_def Let_def sys_emit_def empty_sys_def
        split: sum.splits if_splits prod.splits)
  have ls: "leases E s = []" using s(1) lease_list_create_empty [OF E t] by (simp add: leases_def)
  have "core_inv E {} s" by (rule core_invI) (simp_all add: s ls)
  with ls s show ?thesis by (simp add: sys_inv_def)
qed

lemma deinit_step:
  assumes E: "env_ok E" and inv: "sys_inv E s" and pps: "leases E s = p # ps"
  obtains s1 s2 s3 where "heap s1 = heap s" "slog s1 = slog s" "on_lease p (unapply_locked E) s1 = Some ((), s2)"
    "dmdhcp_lease_table_destroy E (Some p) s2 = Some ((), s3)" "\<And>n. deinit_loop E (Suc n) s = deinit_loop E n s3"
    "sys_inv E s3" "leases E s3 = ps" "heap s3 = (heap s)(p := None)"
proof -
  have core: "core_inv E {} s" and dom: "dom (heap s) = set (leases E s)" using inv by (simp_all add: sys_inv_def)
  obtain t where t: "g_leases s = Some t" using core_invD(1) [OF core] by blast
  have ls: "elems (tlist E) t = p # ps" using t pps by (simp add: leases_def)
  obtain r t' where pop: "dmlist_pop_front (tlist E) t = (r, t')" by (cases "dmlist_pop_front (tlist E) t")
  have r: "r = Some p" and t': "elems (tlist E) t' = ps"
    using pop pop_front_result [OF env_ok_tlist [OF E], of t] elems_pop_front [OF env_ok_tlist [OF E], of t] ls by simp_all
  have d: "p \<notin> set ps" using distinct_leases [OF core] pps by simp
  then have f: "filter (\<lambda>q. q \<noteq> p) (leases E s) = ps" using pps by (auto intro: filter_True)
  let ?s = "s\<lparr>g_leases := Some t'\<rparr>"
  have core1: "core_inv E {} ?s" and ls1: "leases E ?s = ps"
    using core_drop [OF core, of t' p] t' f by simp_all
  obtain l where l: "heap s p = Some l" "lease_inv E p l"
    using core_invD(8) [OF core, of p] pps by auto
  have h1: "heap ?s p = Some l" "p \<notin> set (leases E ?s)" using l(1) ls1 d by simp_all
  obtain s2 s3 where o: "on_lease p (unapply_locked E) ?s = Some ((), s2)" "dmdhcp_lease_table_destroy E (Some p) s2 = Some ((), s3)"
    and s3: "core_inv E {} s3" "leases E s3 = leases E ?s" "heap s3 = (heap ?s)(p := None)"
    using final_and_destroy [OF E core1 h1 l(2) unapply_locked_effect [of E]] by blast
  have "dom (heap s3) = set (leases E s3)" using s3 ls1 dom pps d by auto
  with s3 ls1 that [of ?s s2 s3] o t pop r show ?thesis by (simp add: sys_inv_def)
qed

lemma deinit_loop_inv:
  assumes E: "env_ok E"
  shows "sys_inv E s \<Longrightarrow> n = length (leases E s) \<Longrightarrow>
    \<exists>s'. deinit_loop E n s = Some ((), s') \<and> sys_inv E s' \<and> leases E s' = []"
proof (induction n arbitrary: s)
  case 0
  then show ?case by auto
next
  case (Suc n)
  then obtain p ps where pps: "leases E s = p # ps" by (cases "leases E s") simp_all
  obtain s3 where "deinit_loop E (Suc n) s = deinit_loop E n s3" "sys_inv E s3" "leases E s3 = ps"
    using deinit_step [OF E Suc.prems(1) pps] by metis
  with Suc.IH [of s3] Suc.prems(2) pps show ?case by simp
qed

lemma deinit_inv:
  assumes E: "env_ok E" and inv: "sys_inv E s"
  shows "\<exists>s'. dmod_deinit E s = Some (Inr (), s') \<and> nothing_left s'"
proof -
  let ?s = "s\<lparr>slog := slog s @ [Udp_unbind DMDHCP_CLIENT_PORT]\<rparr>"
  have inv1: "sys_inv E ?s" by (rule sys_inv_log [OF inv]) simp_all
  then have core1: "core_inv E {} ?s" by (simp add: sys_inv_def)
  obtain t where t: "g_leases ?s = Some t" using core_invD(1) [OF core1] by auto
  have n: "dmlist_size (tlist E) t = length (leases E ?s)" using t by (simp add: leases_def)
  obtain s1 where s1: "deinit_loop E (dmlist_size (tlist E) t) ?s = Some ((), s1)" "sys_inv E s1" "leases E s1 = []"
    using deinit_loop_inv [OF E inv1 n] by blast
  then have l: "deinit_loop E (dmlist_size (tlist E) t) ?s = Some ((), s1)" "core_inv E {} s1" "heap s1 = (\<lambda>_. None)"
    by (simp_all add: sys_inv_def)
  note c = core_invD [OF l(2)]
  let ?f = "s1\<lparr>g_leases := None, g_leases_mutex := None, slog := slog s1 @ [List_destroy Lease_list, Mutex_destroy (Some Table_mutex)]\<rparr>"
  have run: "dmod_deinit E s = Some (Inr (), ?f)"
    using t l(1) c(2) by (simp add: dmod_deinit_def dmdhcp_lease_table_deinit_def dmdhcp_input_unregister_def sys_emit_def)
  have "balance k (slog ?f) = 0" for k using c(9-11) l(3) by (cases k) simp_all
  moreover have "\<not> snd (timer_view s1 t)" for t using c(12) [of t] l(3) by auto
  ultimately have "nothing_left ?f" using c(4,7) l(3) by (simp add: nothing_left_def)
  with run show ?thesis by blast
qed

end
