(* ===== verification/Dhcp_Readers.thy ===== *)
theory Dhcp_Readers
  imports Dhcp_Start
begin

text \<open>
  What the readers of the whole table return, on every state of the module's invariant:
  \<open>dmdhcp_get_ntp_servers()\<close> and the DNS and NTP providers report the servers of the valid
  leases, in table order, and take each lock in the order of the lock hierarchy.
\<close>

section \<open>Loops over one lease\<close>

definition valid_dns :: "('l, 't) env \<Rightarrow> 'l lease \<Rightarrow> dmroute_addr_t list" where
  "valid_dns E l = (if holds_valid_lease l then servers_of E (dns_servers l) else [])"

definition valid_ntp :: "('l, 't) env \<Rightarrow> 'l lease \<Rightarrow> dmroute_addr_t list" where
  "valid_ntp E l = (if holds_valid_lease l then servers_of E (ntp_servers l) else [])"

lemma elems_upt: "map (\<lambda>i. elems a c ! i) [0..<dmlist_size a c] = elems a c"
  using map_nth [of "elems a c"] by simp

lemma copy_loop_eq:
  assumes ok: "dmlist_ok (alist E)"
  shows "\<forall>j \<in> set js. j < dmlist_size (alist E) c \<Longrightarrow> length w \<le> n \<Longrightarrow>
    ntp_copy_loop E c n js w = take n (w @ map (\<lambda>j. elems (alist E) c ! j) js)"
proof (induction js arbitrary: w)
  case Nil
  then show ?case by simp
next
  case (Cons j js)
  show ?case
  proof (cases "length w < n")
    case True
    with Cons.IH [of "w @ [elems (alist E) c ! j]"] Cons.prems show ?thesis
      by (simp add: dmlist_get_elems [OF ok])
  next
    case False
    with Cons.prems have "length w = n" by simp
    then show ?thesis by simp
  qed
qed

lemma copy_ntp_eq:
  assumes E: "env_ok E" and l: "lease_inv E p l" and "length w \<le> n"
  shows "copy_ntp E n l w = take n (w @ valid_ntp E l)"
proof -
  obtain c where "ntp_servers l = Some c" using l by (auto simp: inv_defs)
  with copy_loop_eq [OF env_ok_alist [OF E], of "[0..<dmlist_size (alist E) c]" c w n] assms(3) show ?thesis
    by (simp add: copy_ntp_def valid_ntp_def holds_valid_lease_def elems_upt)
qed

lemma visit_list_eq:
  assumes ok: "dmlist_ok (alist E)"
  shows "\<forall>j \<in> set js. j < dmlist_size (alist E) c \<Longrightarrow>
    visit_list E c visit js ctx = foldl visit ctx (map (\<lambda>j. elems (alist E) c ! j) js)"
  by (induction js arbitrary: ctx) (simp_all add: dmlist_get_elems [OF ok])

lemma visit_dns_eq:
  assumes E: "env_ok E" and l: "lease_inv E p l"
  shows "visit_lease_dns_servers E visit l ctx = foldl visit ctx (valid_dns E l)"
proof -
  obtain c where "dns_servers l = Some c" using l by (auto simp: inv_defs)
  then show ?thesis
    by (simp add: visit_lease_dns_servers_def valid_dns_def elems_upt visit_list_eq [OF env_ok_alist [OF E]])
qed

text \<open>A visitor that may ask to stop, on a list.\<close>

fun visit_until :: "('c \<Rightarrow> 'a \<Rightarrow> bool \<times> 'c) \<Rightarrow> 'c \<Rightarrow> 'a list \<Rightarrow> 'c" where
  "visit_until visit ctx [] = ctx"
| "visit_until visit ctx (x # xs) = (case visit ctx x of (stop, ctx) \<Rightarrow> if stop then ctx else visit_until visit ctx xs)"

lemma visit_ntp_list_eq:
  assumes ok: "dmlist_ok (alist E)" and "list_all (\<lambda>a. family a = dmroute_family_v4) (elems (alist E) c)"
  shows "\<forall>j \<in> set js. j < dmlist_size (alist E) c \<Longrightarrow>
    visit_ntp_list E c visit js ctx = visit_until visit ctx (map (\<lambda>j. v4 (elems (alist E) c ! j)) js)"
  using assms(2)
  by (induction js arbitrary: ctx) (auto simp: dmlist_get_elems [OF ok] list_all_length split: prod.splits)

lemma visit_ntp_eq:
  assumes E: "env_ok E" and l: "lease_inv E p l"
  shows "visit_lease_ntp_servers E visit l ctx = visit_until visit ctx (map v4 (valid_ntp E l))"
proof -
  obtain c where c: "ntp_servers l = Some c" using l by (auto simp: inv_defs)
  then have "list_all (\<lambda>a. family a = dmroute_family_v4) (elems (alist E) c)"
    using l by (simp add: inv_defs servers_v4_def)
  moreover have "map (\<lambda>j. v4 (elems (alist E) c ! j)) [0..<dmlist_size (alist E) c] = map v4 (elems (alist E) c)"
    using arg_cong [OF elems_upt [of "alist E" c], of "map v4"] by (simp add: comp_def)
  ultimately show ?thesis using c
    by (simp add: visit_lease_ntp_servers_def valid_ntp_def visit_ntp_list_eq [OF env_ok_alist [OF E]])
qed

section \<open>Loops over the table\<close>

definition lease_section :: "lease_ptr \<Rightarrow> history" where
  "lease_section p = [Mutex_lock (Some (Lease_lock p)), Mutex_unlock (Some (Lease_lock p))]"

definition all_sections :: "lease_ptr list \<Rightarrow> history" where
  "all_sections ps = [Mutex_lock (Some Table_mutex)] @ concat (map lease_section ps) @ [Mutex_unlock (Some Table_mutex)]"

lemma sections_observed:
  "observe lock_step (Some [Table_mutex]) (concat (map lease_section ps)) = Some [Table_mutex]"
  "observe live_step L (concat (map lease_section ps)) = L"
  "observe timer_step tv (concat (map lease_section ps)) = tv"
  "balance k (concat (map lease_section ps)) = 0"
  by (induction ps) (simp_all add: lease_section_def)

lemma sys_inv_sections:
  assumes "sys_inv E s"
  shows "sys_inv E (s\<lparr>slog := slog s @ all_sections ps\<rparr>)"
  by (rule sys_inv_log [OF assms]) (simp_all add: all_sections_def sections_observed)

lemma read_lease_eq:
  assumes "heap s p = Some l" and "lease_inv E p l"
  shows "read_lease p f acc s = Some (f l acc, s\<lparr>slog := slog s @ lease_section p\<rparr>)"
  using assms by (simp add: read_lease_def sys_emit_def lease_section_def inv_defs)

lemma visit_leases_eq:
  assumes ok: "dmlist_ok (tlist E)" and live: "\<forall>p \<in> set (elems (tlist E) t). \<exists>l. heap s p = Some l \<and> lease_inv E p l"
    and f: "\<And>p l ctx. lease_inv E p l \<Longrightarrow> f l ctx = g l ctx"
  shows "\<forall>i \<in> set js. i < dmlist_size (tlist E) t \<Longrightarrow>
    visit_leases E t f js ctx (s\<lparr>slog := h\<rparr>) =
      Some (foldl (\<lambda>c p. g (the (heap s p)) c) ctx (map (\<lambda>i. elems (tlist E) t ! i) js),
            s\<lparr>slog := h @ concat (map lease_section (map (\<lambda>i. elems (tlist E) t ! i) js))\<rparr>)"
proof (induction js arbitrary: ctx h)
  case Nil
  then show ?case by simp
next
  case (Cons i js)
  let ?p = "elems (tlist E) t ! i"
  have "?p \<in> set (elems (tlist E) t)" using Cons.prems by (intro nth_mem) simp
  then obtain l where l: "heap s ?p = Some l" "lease_inv E ?p l" using live by blast
  then have "read_lease ?p f ctx (s\<lparr>slog := h\<rparr>) = Some (g l ctx, s\<lparr>slog := h @ lease_section ?p\<rparr>)"
    using read_lease_eq [of "s\<lparr>slog := h\<rparr>" ?p l E f ctx] f by simp
  with Cons.IH [of "g l ctx" "h @ lease_section ?p"] Cons.prems l(1) show ?case
    by (simp add: dmlist_get_elems [OF ok])
qed

lemma ntp_loop_eq:
  assumes E: "env_ok E" and live: "\<forall>p \<in> set (elems (tlist E) t). \<exists>l. heap s p = Some l \<and> lease_inv E p l"
  shows "\<forall>i \<in> set js. i < dmlist_size (tlist E) t \<Longrightarrow> length w \<le> n \<Longrightarrow>
    \<exists>ps. ntp_servers_loop E t n js w (s\<lparr>slog := h\<rparr>) =
      Some (take n (w @ concat (map (\<lambda>i. valid_ntp E (the (heap s (elems (tlist E) t ! i)))) js)),
            s\<lparr>slog := h @ concat (map lease_section ps)\<rparr>)"
proof (induction js arbitrary: w h)
  case Nil
  then show ?case by (intro exI [of _ "[]"]) simp
next
  case (Cons i js)
  let ?p = "elems (tlist E) t ! i"
  have "?p \<in> set (elems (tlist E) t)" using Cons.prems by (intro nth_mem) simp
  then obtain l where l: "heap s ?p = Some l" "lease_inv E ?p l" using live by blast
  show ?case
  proof (cases "length w < n")
    case True
    define w' where "w' = take n (w @ valid_ntp E l)"
    have w': "length w' \<le> n" by (simp add: w'_def)
    have "read_lease ?p (copy_ntp E n) w (s\<lparr>slog := h\<rparr>) = Some (w', s\<lparr>slog := h @ lease_section ?p\<rparr>)"
      using read_lease_eq [of "s\<lparr>slog := h\<rparr>" ?p l E "copy_ntp E n" w] copy_ntp_eq [OF E l(2), of w n] l True by (simp add: w'_def)
    moreover obtain ps where "ntp_servers_loop E t n js w' (s\<lparr>slog := h @ lease_section ?p\<rparr>) =
      Some (take n (w' @ concat (map (\<lambda>i. valid_ntp E (the (heap s (elems (tlist E) t ! i)))) js)),
            s\<lparr>slog := (h @ lease_section ?p) @ concat (map lease_section ps)\<rparr>)"
      using Cons.IH [OF _ w', of "h @ lease_section ?p"] Cons.prems by auto
    moreover have "take n (w' @ xs) = take n (w @ valid_ntp E l @ xs)" for xs
      by (simp add: w'_def min_def)
    ultimately show ?thesis using True Cons.prems l(1)
      by (intro exI [of _ "?p # ps"]) (simp add: dmlist_get_elems [OF env_ok_tlist [OF E]])
  next
    case False
    with Cons.prems have "length w = n" by simp
    then show ?thesis by (intro exI [of _ "[]"]) simp
  qed
qed

lemma sys_inv_table:
  assumes "sys_inv E s"
  obtains t where "g_leases s = Some t" "g_leases_mutex s = Some Table_mutex" "leases E s = elems (tlist E) t"
    "\<forall>p \<in> set (elems (tlist E) t). \<exists>l. heap s p = Some l \<and> lease_inv E p l"
proof -
  have core: "core_inv E {} s" using assms by (simp add: sys_inv_def)
  then obtain t where t: "g_leases s = Some t" using core_invD(1) by blast
  then have ls: "leases E s = elems (tlist E) t" by (simp add: leases_def)
  have "\<exists>l. heap s p = Some l \<and> lease_inv E p l" if "p \<in> set (elems (tlist E) t)" for p
    using core_invD(8) [OF core, of p] that ls by auto
  with that t ls core_invD(2) [OF core] show ?thesis by blast
qed

lemma get_ntp_servers_eq:
  assumes E: "env_ok E" and inv: "sys_inv E s" and n: "0 < n"
  shows "\<exists>ps. dmdhcp_get_ntp_servers E True n s =
    Some (Inr (take n (concat (map (\<lambda>p. valid_ntp E (the (heap s p))) (leases E s)))),
          s\<lparr>slog := slog s @ all_sections ps\<rparr>)"
proof -
  obtain t where t: "g_leases s = Some t" "g_leases_mutex s = Some Table_mutex" "leases E s = elems (tlist E) t"
    "\<forall>p \<in> set (elems (tlist E) t). \<exists>l. heap s p = Some l \<and> lease_inv E p l"
    by (rule sys_inv_table [OF inv])
  obtain ps where "ntp_servers_loop E t n [0..<dmlist_size (tlist E) t] [] (s\<lparr>slog := slog s @ [Mutex_lock (Some Table_mutex)]\<rparr>) =
      Some (take n (concat (map (\<lambda>i. valid_ntp E (the (heap s (elems (tlist E) t ! i)))) [0..<dmlist_size (tlist E) t])),
            s\<lparr>slog := (slog s @ [Mutex_lock (Some Table_mutex)]) @ concat (map lease_section ps)\<rparr>)"
    using ntp_loop_eq [OF E t(4), of "[0..<dmlist_size (tlist E) t]" "[]" n "slog s @ [Mutex_lock (Some Table_mutex)]"] by auto
  moreover have "map (\<lambda>i. valid_ntp E (the (heap s (elems (tlist E) t ! i)))) [0..<dmlist_size (tlist E) t]
      = map (\<lambda>p. valid_ntp E (the (heap s p))) (leases E s)"
    unfolding t(3) using elems_upt [of "tlist E" t] by (metis (no_types, lifting) list.map_comp comp_apply map_cong)
  ultimately show ?thesis using n t
    by (intro exI [of _ ps]) (simp add: dmdhcp_get_ntp_servers_def sys_emit_def all_sections_def)
qed

lemma visit_leases_table:
  assumes E: "env_ok E" and inv: "sys_inv E s" and t: "g_leases s = Some t"
    and f: "\<And>p l ctx. lease_inv E p l \<Longrightarrow> f l ctx = g l ctx"
  shows "visit_leases E t f [0..<dmlist_size (tlist E) t] ctx (s\<lparr>slog := h\<rparr>) =
      Some (foldl (\<lambda>c p. g (the (heap s p)) c) ctx (leases E s),
            s\<lparr>slog := h @ concat (map lease_section (leases E s))\<rparr>)"
proof -
  obtain u where "g_leases s = Some u" and u: "leases E s = elems (tlist E) u"
    "\<forall>p \<in> set (elems (tlist E) u). \<exists>l. heap s p = Some l \<and> lease_inv E p l"
    by (rule sys_inv_table [OF inv])
  with t have "u = t" by simp
  with u have live: "\<forall>p \<in> set (elems (tlist E) t). \<exists>l. heap s p = Some l \<and> lease_inv E p l" by simp
  note eq = visit_leases_eq [OF env_ok_tlist [OF E] live, where f = f and g = g and js = "[0..<dmlist_size (tlist E) t]",
      unfolded elems_upt]
  show ?thesis unfolding u(1) \<open>u = t\<close> by (rule eq) (use f in auto)
qed

lemma foldl_concat: "foldl (\<lambda>c p. foldl f c (g p)) ctx ps = foldl f ctx (concat (map g ps))"
  by (induction ps arbitrary: ctx) simp_all

lemma provide_dns_eq:
  assumes E: "env_ok E" and inv: "sys_inv E s"
  shows "dmdns_provide_servers E (Some add) ctx s =
    Some (foldl add ctx (concat (map (\<lambda>p. valid_dns E (the (heap s p))) (leases E s))),
          s\<lparr>slog := slog s @ all_sections (leases E s)\<rparr>)"
proof -
  obtain t where t: "g_leases s = Some t" "g_leases_mutex s = Some Table_mutex"
    by (rule sys_inv_table [OF inv])
  have "visit_leases E t (visit_lease_dns_servers E add) [0..<dmlist_size (tlist E) t] ctx (s\<lparr>slog := h\<rparr>) =
      Some (foldl (\<lambda>c p. foldl add c (valid_dns E (the (heap s p)))) ctx (leases E s),
            s\<lparr>slog := h @ concat (map lease_section (leases E s))\<rparr>)" for h
    by (rule visit_leases_table [OF E inv t(1)]) (rule visit_dns_eq [OF E])
  with t show ?thesis
    by (simp add: dmdns_provide_servers_def dmdhcp_lease_table_visit_dns_servers_def sys_emit_def all_sections_def foldl_concat)
qed

lemma provide_ntp_eq:
  assumes E: "env_ok E" and inv: "sys_inv E s"
  shows "dmntp_provide_servers E (Some add) ctx s =
    Some (foldl (\<lambda>c p. visit_until add c (map v4 (valid_ntp E (the (heap s p))))) ctx (leases E s),
          s\<lparr>slog := slog s @ all_sections (leases E s)\<rparr>)"
proof -
  obtain t where t: "g_leases s = Some t" "g_leases_mutex s = Some Table_mutex"
    by (rule sys_inv_table [OF inv])
  have "visit_leases E t (visit_lease_ntp_servers E add) [0..<dmlist_size (tlist E) t] ctx (s\<lparr>slog := h\<rparr>) =
      Some (foldl (\<lambda>c p. visit_until add c (map v4 (valid_ntp E (the (heap s p))))) ctx (leases E s),
            s\<lparr>slog := h @ concat (map lease_section (leases E s))\<rparr>)" for h
    by (rule visit_leases_table [OF E inv t(1)]) (rule visit_ntp_eq [OF E])
  with t show ?thesis
    by (simp add: dmntp_provide_servers_def dmdhcp_lease_table_visit_ntp_servers_def sys_emit_def all_sections_def)
qed

end
