(* ===== verification/Dhcp_Directory.thy ===== *)
theory Dhcp_Directory
  imports Dhcp_Readers
begin

text \<open>
  The lease table as a finite map from interfaces to leases: the abstract specification of
  \<open>find_by_iface\<close>, \<open>insert\<close> and \<open>remove\<close> as a locale, what a client of the table can
  rely on, and the proof that the list of the code implements it.
\<close>

section \<open>The interface\<close>

locale directory =
  fixes inv :: "'s \<Rightarrow> bool"
    and view :: "'s \<Rightarrow> 'k \<Rightarrow> 'v option"
    and key :: "'s \<Rightarrow> 'v \<Rightarrow> 'k"
    and ready :: "'s \<Rightarrow> 'v \<Rightarrow> bool"
    and find :: "'k \<Rightarrow> 's \<Rightarrow> ('v option \<times> 's) option"
    and insert :: "'v \<Rightarrow> 's \<Rightarrow> ((errno + unit) \<times> 's) option"
    and remove :: "'v \<Rightarrow> 's \<Rightarrow> (unit \<times> 's) option"
  assumes find_view: "inv s \<Longrightarrow> \<exists>s'. find k s = Some (view s k, s') \<and> inv s' \<and> view s' = view s \<and> key s' = key s"
    and insert_view: "inv s \<Longrightarrow> ready s v \<Longrightarrow> \<exists>r s'. insert v s = Some (r, s') \<and> inv s' \<and> key s' = key s
      \<and> (case r of
           Inr _ \<Rightarrow> view s (key s v) = None \<and> view s' = (view s)(key s v \<mapsto> v)
         | Inl e \<Rightarrow> view s' = view s \<and> (e = EEXIST \<longleftrightarrow> view s (key s v) \<noteq> None))"
    and remove_view: "inv s \<Longrightarrow> \<exists>s'. remove v s = Some ((), s') \<and> inv s' \<and> key s' = key s
      \<and> view s' = (if view s (key s v) = Some v then (view s)(key s v := None) else view s)"
begin

lemma find_after_insert:
  assumes "inv s" "ready s v" "insert v s = Some (Inr (), s1)"
  shows "\<exists>s2. find k s1 = Some (if k = key s v then Some v else view s k, s2)"
  using insert_view [OF assms(1,2)] assms(3) find_view [of s1 k] by auto

lemma insert_occupied:
  assumes "inv s" "ready s v" "view s (key s v) \<noteq> None"
  shows "\<exists>s'. insert v s = Some (Inl EEXIST, s') \<and> view s' = view s"
proof -
  obtain r s' where r: "insert v s = Some (r, s')" and post: "case r of
       Inr _ \<Rightarrow> view s (key s v) = None \<and> view s' = (view s)(key s v \<mapsto> v)
     | Inl e \<Rightarrow> view s' = view s \<and> (e = EEXIST \<longleftrightarrow> view s (key s v) \<noteq> None)"
    using insert_view [OF assms(1,2)] by blast
  with assms(3) show ?thesis by (cases r) auto
qed

lemma find_after_remove:
  assumes "inv s" "remove v s = Some (u, s1)" "view s k = Some v \<Longrightarrow> k = key s v"
  shows "\<exists>w s2. find k s1 = Some (w, s2) \<and> w \<noteq> Some v"
proof -
  have s1: "inv s1" "view s1 = (if view s (key s v) = Some v then (view s)(key s v := None) else view s)"
    using remove_view [OF assms(1), of v] assms(2) by auto
  have "view s1 k \<noteq> Some v" unfolding s1(2) using assms(3) by auto
  with find_view [OF s1(1), of k] show ?thesis by blast
qed

end

section \<open>The lease table implements it\<close>

definition table_view :: "('l, 't) env \<Rightarrow> ('l, 't) sys \<Rightarrow> dmnetif_iface_t \<Rightarrow> lease_ptr option" where
  "table_view E s = map_of (map (\<lambda>p. (iface_of s p, p)) (leases E s))"

definition insertable :: "('l, 't) env \<Rightarrow> ('l, 't) sys \<Rightarrow> lease_ptr \<Rightarrow> bool" where
  "insertable E s p \<longleftrightarrow> heap s p \<noteq> None \<and> p \<notin> set (leases E s)"

definition consistent :: "('l, 't) env \<Rightarrow> ('l, 't) sys \<Rightarrow> bool" where
  "consistent E s \<longleftrightarrow> (\<exists>X. core_inv E X s)"

lemma find_map_of: "List.find (\<lambda>p. f p = k) ps = map_of (map (\<lambda>p. (f p, p)) ps) k"
  by (induction ps) auto

lemma map_of_keys_None: "map_of (map (\<lambda>p. (f p, p)) ps) k = None \<longleftrightarrow> k \<notin> f ` set ps"
  by (induction ps) auto

lemma map_of_keys_SomeD: "map_of (map (\<lambda>p. (f p, p)) ps) k = Some p \<Longrightarrow> p \<in> set ps \<and> f p = k"
  by (induction ps) (auto split: if_splits)

lemma map_of_keys_append:
  "f p \<notin> f ` set ps \<Longrightarrow> map_of (map (\<lambda>p. (f p, p)) (ps @ [p])) = (map_of (map (\<lambda>p. (f p, p)) ps))(f p \<mapsto> p)"
  by (induction ps) (auto simp: fun_eq_iff)

lemma map_of_keys_filter:
  "distinct (map f ps) \<Longrightarrow> map_of (map (\<lambda>p. (f p, p)) (filter (\<lambda>q. q \<noteq> p) ps)) =
    (let m = map_of (map (\<lambda>p. (f p, p)) ps) in if m (f p) = Some p then m(f p := None) else m)"
proof (induction ps)
  case Nil
  then show ?case by simp
next
  case (Cons q ps)
  show ?case
  proof (cases "q = p")
    case True
    then have "filter (\<lambda>q. q \<noteq> p) ps = ps" using Cons.prems by (auto intro: filter_True)
    moreover have "map_of (map (\<lambda>p. (f p, p)) ps) (f p) = None" using Cons.prems True by (simp add: map_of_keys_None)
    ultimately show ?thesis using True by (auto simp: fun_eq_iff)
  next
    case False
    with Cons.IH Cons.prems show ?thesis
      by (auto simp: fun_eq_iff Let_def map_of_keys_None dest: map_of_keys_SomeD split: if_splits)
  qed
qed

lemma table_view_same:
  assumes "heap s' = heap s" and "leases E s' = leases E s"
  shows "table_view E s' = table_view E s" and "iface_of s' = iface_of s"
  using assms by (simp_all add: table_view_def iface_of_def fun_eq_iff)

lemma find_directory:
  assumes E: "env_ok E" and s: "consistent E s"
  shows "\<exists>s'. dmdhcp_lease_table_find_by_iface E k s = Some (table_view E s k, s')
    \<and> consistent E s' \<and> table_view E s' = table_view E s \<and> iface_of s' = iface_of s"
proof -
  obtain X where core: "core_inv E X s" using s by (auto simp: consistent_def)
  let ?s = "s\<lparr>slog := slog s @ table_section\<rparr>"
  have "core_inv E X ?s" by (rule core_log [OF core]) simp_all
  then have "consistent E ?s" by (auto simp: consistent_def)
  with find_by_iface_eq [OF E core, of k] table_view_same [of ?s s E] show ?thesis
    by (simp add: table_view_def find_map_of leases_def)
qed

lemma insert_directory:
  assumes E: "env_ok E" and s: "consistent E s" and p: "insertable E s p"
  shows "\<exists>r s'. dmdhcp_lease_table_insert E p s = Some (r, s') \<and> consistent E s' \<and> iface_of s' = iface_of s
    \<and> (case r of
         Inr _ \<Rightarrow> table_view E s (iface_of s p) = None \<and> table_view E s' = (table_view E s)(iface_of s p \<mapsto> p)
       | Inl e \<Rightarrow> table_view E s' = table_view E s \<and> (e = EEXIST \<longleftrightarrow> table_view E s (iface_of s p) \<noteq> None))"
proof -
  obtain X where core: "core_inv E X s" using s by (auto simp: consistent_def)
  obtain l where l: "heap s p = Some l" "p \<notin> set (leases E s)" using p by (auto simp: insertable_def)
  have key: "iface_of s p = iface l" using l(1) by (simp add: iface_of_def)
  have free: "table_view E s k = None \<longleftrightarrow> k \<notin> iface_of s ` set (leases E s)" for k
    by (simp add: table_view_def map_of_keys_None)
  obtain r s' where r: "dmdhcp_lease_table_insert E p s = Some (r, s')" "heap s' = heap s"
    "case r of
         Inl e \<Rightarrow> core_inv E X s' \<and> leases E s' = leases E s
       | Inr _ \<Rightarrow> core_inv E (insert p X) s' \<and> leases E s' = leases E s @ [p] \<and> iface l \<notin> iface_of s ` set (leases E s)"
    "r = Inl EEXIST \<longleftrightarrow> iface l \<in> iface_of s ` set (leases E s)"
    using insert_core [OF E core l] by (elim exE conjE) (rule that)
  have ifs: "iface_of s' = iface_of s" using r(2) by (simp add: iface_of_def fun_eq_iff)
  show ?thesis
  proof (cases r)
    case (Inl e)
    have "table_view E s' = table_view E s" using r(3) Inl table_view_same(1) [OF r(2)] by simp
    with Inl r ifs free key show ?thesis by (auto simp: consistent_def)
  next
    case (Inr u)
    with r(3) have l': "core_inv E (insert p X) s'" "leases E s' = leases E s @ [p]" "iface l \<notin> iface_of s ` set (leases E s)"
      by simp_all
    then have "table_view E s' = (table_view E s)(iface_of s p \<mapsto> p)"
      using map_of_keys_append [of "iface_of s" p "leases E s"] key unfolding table_view_def ifs by metis
    with Inr r(1) ifs free key l' show ?thesis by (auto simp: consistent_def)
  qed
qed

lemma remove_directory:
  assumes E: "env_ok E" and s: "consistent E s"
  shows "\<exists>s'. dmdhcp_lease_table_remove E p s = Some ((), s') \<and> consistent E s' \<and> iface_of s' = iface_of s
    \<and> table_view E s' = (if table_view E s (iface_of s p) = Some p then (table_view E s)(iface_of s p := None) else table_view E s)"
proof -
  obtain X where core: "core_inv E X s" using s by (auto simp: consistent_def)
  obtain t' where t': "dmdhcp_lease_table_remove E p s = Some ((), s\<lparr>g_leases := Some t', slog := slog s @ table_section\<rparr>)"
    "elems (tlist E) t' = filter (\<lambda>q. q \<noteq> p) (leases E s)"
    using remove_eq [OF E core] by blast
  let ?s = "s\<lparr>g_leases := Some t', slog := slog s @ table_section\<rparr>"
  have ifs: "iface_of ?s = iface_of s" by (simp add: iface_of_def fun_eq_iff)
  have "table_view E ?s = (if table_view E s (iface_of s p) = Some p then (table_view E s)(iface_of s p := None) else table_view E s)"
    unfolding table_view_def ifs core_remove(2) [OF core t'(2)]
    using map_of_keys_filter [OF core_invD(6) [OF core]] by (simp add: Let_def)
  with t'(1) ifs core_remove(1) [OF core t'(2)] show ?thesis by (auto simp: consistent_def)
qed

interpretation table: directory "\<lambda>s. env_ok E \<and> consistent E s" "table_view E" iface_of "insertable E"
  "dmdhcp_lease_table_find_by_iface E" "dmdhcp_lease_table_insert E" "dmdhcp_lease_table_remove E" for E
proof
  fix s k
  assume "env_ok E \<and> consistent E s"
  with find_directory [of E s k]
  show "\<exists>s'. dmdhcp_lease_table_find_by_iface E k s = Some (table_view E s k, s')
    \<and> (env_ok E \<and> consistent E s') \<and> table_view E s' = table_view E s \<and> iface_of s' = iface_of s" by blast
next
  fix s v
  assume "env_ok E \<and> consistent E s" and "insertable E s v"
  with insert_directory [of E s v]
  show "\<exists>r s'. dmdhcp_lease_table_insert E v s = Some (r, s') \<and> (env_ok E \<and> consistent E s') \<and> iface_of s' = iface_of s
    \<and> (case r of
         Inr _ \<Rightarrow> table_view E s (iface_of s v) = None \<and> table_view E s' = (table_view E s)(iface_of s v \<mapsto> v)
       | Inl e \<Rightarrow> table_view E s' = table_view E s \<and> (e = EEXIST \<longleftrightarrow> table_view E s (iface_of s v) \<noteq> None))" by blast
next
  fix s v
  assume "env_ok E \<and> consistent E s"
  with remove_directory [of E s v]
  show "\<exists>s'. dmdhcp_lease_table_remove E v s = Some ((), s') \<and> (env_ok E \<and> consistent E s') \<and> iface_of s' = iface_of s
    \<and> table_view E s' = (if table_view E s (iface_of s v) = Some v then (table_view E s)(iface_of s v := None) else table_view E s)"
    by blast
qed

end
