(* ===== verification/Dhcp_Machine.thy ===== *)
theory Dhcp_Machine
  imports Dhcp_Directory
begin

text \<open>
  The module as a state machine: the application calls the API, datagrams arrive and timers
  fire, in any order. An action runs to its end before the next one starts. \<open>perform\<close> runs
  an action; \<open>None\<close> is undefined behaviour of the C program. The reachable states and the properties of
  all of them.
\<close>

section \<open>The machine\<close>

text \<open>The functions that only read one lease.\<close>

datatype accessor =
    Get_state
  | Get_iface
  | Get_user_data
  | Get_xid
  | Get_lease_info bool
  | Get_dns_server_count
  | Get_dns_server nat bool
  | Get_ntp_server_count
  | Get_ntp_server nat bool

fun access :: "('l, 't) env \<Rightarrow> accessor \<Rightarrow> ('l, unit) lease_monad" where
  "access E Get_state = do { dmdhcp_get_state; State_Monad.return () }"
| "access E Get_iface = do { dmdhcp_get_iface; State_Monad.return () }"
| "access E Get_user_data = do { dmdhcp_get_user_data; State_Monad.return () }"
| "access E Get_xid = do { dmdhcp_get_xid; State_Monad.return () }"
| "access E (Get_lease_info out) = do { dmdhcp_get_lease_info out; State_Monad.return () }"
| "access E Get_dns_server_count = do { dmdhcp_get_dns_server_count E; State_Monad.return () }"
| "access E (Get_dns_server i out) = do { dmdhcp_get_dns_server E i out; State_Monad.return () }"
| "access E Get_ntp_server_count = do { dmdhcp_get_ntp_server_count E; State_Monad.return () }"
| "access E (Get_ntp_server i out) = do { dmdhcp_get_ntp_server E i out; State_Monad.return () }"

text \<open>
  The actions; the sinks of the two providers are functions of the caller, here on numbers as
  their context.
\<close>

datatype action =
    Start dmnetif_iface_t "dmdhcp_callbacks_t option" void_ptr "dmdhcp_options_t option"
  | Stop "lease_ptr option"
  | Release "lease_ptr option"
  | Renew "lease_ptr option"
  | Set_callbacks "lease_ptr option" "dmdhcp_callbacks_t option" void_ptr
  | Access accessor "lease_ptr option"
  | Get_ntp_servers bool nat
  | Provide_dns "(nat \<Rightarrow> dmroute_addr_t \<Rightarrow> nat) option" nat
  | Provide_ntp "(nat \<Rightarrow> ipv4 \<Rightarrow> bool \<times> nat) option" nat
  | Datagram dmnetif_iface_t "u8 list option"
  | Retransmit_expires lease_ptr
  | Lease_timer_expires lease_ptr

fun perform :: "('l, 't) env \<Rightarrow> action \<Rightarrow> ('l, 't) sys \<Rightarrow> ('l, 't) sys option" where
  "perform E (Start ifc cbs ud options) s = map_option snd (dmdhcp_start E ifc cbs ud options s)"
| "perform E (Stop h) s = map_option snd (dmdhcp_stop E h s)"
| "perform E (Release h) s = map_option snd (dmdhcp_release E h s)"
| "perform E (Renew h) s = map_option snd (with_handle h (Inl EINVAL) (dmdhcp_renew E) s)"
| "perform E (Set_callbacks h cbs ud) s = map_option snd (with_handle h (Inl EINVAL) (dmdhcp_set_callbacks cbs ud) s)"
| "perform E (Access what h) s = map_option snd (with_handle h () (access E what) s)"
| "perform E (Get_ntp_servers out n) s = map_option snd (dmdhcp_get_ntp_servers E out n s)"
| "perform E (Provide_dns add ctx) s = map_option snd (dmdns_provide_servers E add ctx s)"
| "perform E (Provide_ntp add ctx) s = map_option snd (dmntp_provide_servers E add ctx s)"
| "perform E (Datagram ifc payload) s = map_option snd (dmdhcp_handle_datagram E ifc payload s)"
| "perform E (Retransmit_expires p) s = map_option snd (on_lease p (handle E Retransmit_fired) s)"
| "perform E (Lease_timer_expires p) s = map_option snd (on_lease p (handle E Lease_timer_fired) s)"

text \<open>
  The application passes NULL or the handle of a lease it has not stopped or released; a timer fires
  when it runs. Nothing is asked of datagrams.
\<close>

definition usable :: "('l, 't) env \<Rightarrow> ('l, 't) sys \<Rightarrow> lease_ptr option \<Rightarrow> bool" where
  "usable E s h \<longleftrightarrow> (case h of None \<Rightarrow> True | Some p \<Rightarrow> p \<in> set (leases E s))"

fun enabled :: "('l, 't) env \<Rightarrow> ('l, 't) sys \<Rightarrow> action \<Rightarrow> bool" where
  "enabled E s (Stop h) = usable E s h"
| "enabled E s (Release h) = usable E s h"
| "enabled E s (Renew h) = usable E s h"
| "enabled E s (Set_callbacks h cbs ud) = usable E s h"
| "enabled E s (Access what h) = usable E s h"
| "enabled E s (Retransmit_expires p) = snd (timer_view s (Retransmit_timer p))"
| "enabled E s (Lease_timer_expires p) = snd (timer_view s (Lease_timer p))"
| "enabled E s _ = True"

inductive step :: "('l, 't) env \<Rightarrow> action \<Rightarrow> ('l, 't) sys \<Rightarrow> ('l, 't) sys \<Rightarrow> bool" for E where
  act: "enabled E s a \<Longrightarrow> perform E a s = Some s' \<Longrightarrow> step E a s s'"

inductive reachable :: "('l, 't) env \<Rightarrow> ('l, 't) sys \<Rightarrow> bool" for E where
  opened: "dmod_init E empty_sys = (Inr (), s) \<Longrightarrow> reachable E s"
| stepped: "reachable E s \<Longrightarrow> step E a s s' \<Longrightarrow> reachable E s'"

inductive_simps step_iff: "step E a s s'"
inductive_cases step_elim: "step E a s s'"

section \<open>Every action keeps the invariant\<close>

lemma sys_inv_dom: "sys_inv E s \<Longrightarrow> dom (heap s) = set (leases E s)"
  by (simp add: sys_inv_def)

lemma handler_inv:
  assumes E: "env_ok E" and inv: "sys_inv E s" and p: "p \<in> set (leases E s)"
  shows "\<exists>x s'. on_lease p (handle E tr) s = Some (x, s') \<and> sys_inv E s' \<and> leases E s' = leases E s"
proof -
  obtain l where l: "heap s p = Some l" "lease_inv E p l" by (rule sys_inv_lease [OF inv p])
  show ?thesis
    by (rule keeps_sys_inv [OF inv l(1)]) (use trigger.keeps_inv [OF E, of "\<lparr>self = p, cur = l, log = slog s\<rparr>"] l(2) in simp)
qed

lemma renew_inv:
  assumes E: "env_ok E" and inv: "sys_inv E s" and p: "p \<in> set (leases E s)"
  shows "\<exists>x s'. on_lease p (dmdhcp_renew E) s = Some (x, s') \<and> sys_inv E s' \<and> leases E s' = leases E s"
proof -
  obtain l where l: "heap s p = Some l" "lease_inv E p l" by (rule sys_inv_lease [OF inv p])
  show ?thesis
    by (rule keeps_sys_inv [OF inv l(1)]) (use renewing.keeps_inv [OF E, of "\<lparr>self = p, cur = l, log = slog s\<rparr>"] l(2) in simp)
qed

text \<open>A short section under the lease's lock that touches nothing of the protocol.\<close>

lemma section_inv:
  assumes inv: "sys_inv E s" and p: "p \<in> set (leases E s)" and l: "heap s p = Some l" "lease_inv E p l"
    and m: "exec m \<lparr>self = p, cur = l, log = slog s\<rparr> =
      \<lparr>self = p, cur = l\<lparr>callbacks := cb, user_data := u\<rparr>, log = slog s @ es\<rparr>"
    and es: "es = [] \<or> es = [Mutex_lock (lock l), Mutex_unlock (lock l)]"
  shows "\<exists>x s'. on_lease p m s = Some (x, s') \<and> sys_inv E s' \<and> leases E s' = leases E s"
proof -
  let ?l = "l\<lparr>callbacks := cb, user_data := u\<rparr>"
  have core: "core_inv E {} s" using inv by (simp add: sys_inv_def)
  have lk: "lock l = Some (Lease_lock p)" using l(2) by (simp add: inv_defs)
  have t: "timers_ok None (timer_view s) p l"
    using core_invD(8) [OF core p] l(1) by auto
  have l': "lease_inv E p ?l" "timers_ok None (timer_view s) p ?l"
    using l(2) t by (simp_all add: inv_defs timers_ok_def)
  have "core_inv E {} (s\<lparr>heap := (heap s)(p := Some ?l), slog := slog s @ es\<rparr>)"
    using es
  proof
    assume "es = []"
    then show ?thesis by (intro core_update [OF core l(1)]) (use l' in \<open>simp_all add: stored_def named_def\<close>)
  next
    assume "es = [Mutex_lock (lock l), Mutex_unlock (lock l)]"
    then show ?thesis by (intro core_update [OF core l(1)]) (use l' lk in \<open>simp_all add: stored_def named_def\<close>)
  qed
  moreover have "dom ((heap s)(p := Some ?l)) = set (leases E s)" using sys_inv_dom [OF inv] p by auto
  ultimately show ?thesis using l(1) m by (simp add: on_lease_eq Let_def sys_inv_def leases_def)
qed

lemma set_callbacks_inv:
  assumes inv: "sys_inv E s" and p: "p \<in> set (leases E s)"
  shows "\<exists>x s'. on_lease p (dmdhcp_set_callbacks cbs ud) s = Some (x, s') \<and> sys_inv E s' \<and> leases E s' = leases E s"
proof -
  obtain l where l: "heap s p = Some l" "lease_inv E p l" by (rule sys_inv_lease [OF inv p])
  have "magic l = DMDHCP_LEASE_MAGIC" using l(2) by (simp add: inv_defs)
  then have "exec (dmdhcp_set_callbacks cbs ud) \<lparr>self = p, cur = l, log = slog s\<rparr> =
      \<lparr>self = p, cur = l\<lparr>callbacks := (case cbs of Some c \<Rightarrow> c | None \<Rightarrow> no_callbacks), user_data := ud\<rparr>,
       log = slog s @ [Mutex_lock (lock l), Mutex_unlock (lock l)]\<rparr>"
    by (simp add: dmdhcp_set_callbacks_def run_simps)
  from section_inv [OF inv p l this] show ?thesis by simp
qed

lemma access_effect:
  "\<exists>es. exec (access E what) s = s\<lparr>log := log s @ es\<rparr> \<and> es \<in> {[], [Mutex_lock (lock (cur s)), Mutex_unlock (lock (cur s))]}"
  by (cases what)
    (auto simp: run_simps dmdhcp_get_state_def dmdhcp_get_iface_def dmdhcp_get_user_data_def dmdhcp_get_xid_def
      dmdhcp_get_lease_info_def dmdhcp_get_dns_server_count_def dmdhcp_get_dns_server_def
      dmdhcp_get_ntp_server_count_def dmdhcp_get_ntp_server_def intro: exI [of _ "[]"])

lemma access_inv:
  assumes inv: "sys_inv E s" and p: "p \<in> set (leases E s)"
  shows "\<exists>x s'. on_lease p (access E what) s = Some (x, s') \<and> sys_inv E s' \<and> leases E s' = leases E s"
proof -
  obtain l where l: "heap s p = Some l" "lease_inv E p l" by (rule sys_inv_lease [OF inv p])
  obtain es where "exec (access E what) \<lparr>self = p, cur = l, log = slog s\<rparr> =
      \<lparr>self = p, cur = l\<lparr>callbacks := callbacks l, user_data := user_data l\<rparr>, log = slog s @ es\<rparr>"
    and "es = [] \<or> es = [Mutex_lock (lock l), Mutex_unlock (lock l)]"
    using access_effect [of E what "\<lparr>self = p, cur = l, log = slog s\<rparr>"] by auto
  from section_inv [OF inv p l this] show ?thesis .
qed

text \<open>The readers of the whole table leave everything but the log as it is.\<close>

lemma reader_effect:
  assumes E: "env_ok E" and inv: "sys_inv E s"
  shows "\<exists>s'. perform E (Get_ntp_servers out n) s = Some s' \<and> (s' = s \<or> (\<exists>ps. s' = s\<lparr>slog := slog s @ all_sections ps\<rparr>))"
    and "\<exists>s'. perform E (Provide_dns add ctx) s = Some s' \<and> (s' = s \<or> (\<exists>ps. s' = s\<lparr>slog := slog s @ all_sections ps\<rparr>))"
    and "\<exists>s'. perform E (Provide_ntp add4 ctx) s = Some s' \<and> (s' = s \<or> (\<exists>ps. s' = s\<lparr>slog := slog s @ all_sections ps\<rparr>))"
proof -
  show "\<exists>s'. perform E (Get_ntp_servers out n) s = Some s' \<and> (s' = s \<or> (\<exists>ps. s' = s\<lparr>slog := slog s @ all_sections ps\<rparr>))"
  proof (cases "out \<and> 0 < n")
    case True
    with get_ntp_servers_eq [OF E inv, of n] show ?thesis by auto
  next
    case False
    then show ?thesis by (auto simp: dmdhcp_get_ntp_servers_def)
  qed
  show "\<exists>s'. perform E (Provide_dns add ctx) s = Some s' \<and> (s' = s \<or> (\<exists>ps. s' = s\<lparr>slog := slog s @ all_sections ps\<rparr>))"
    by (cases add) (auto simp: provide_dns_eq [OF E inv] dmdns_provide_servers_def [of _ None])
  show "\<exists>s'. perform E (Provide_ntp add4 ctx) s = Some s' \<and> (s' = s \<or> (\<exists>ps. s' = s\<lparr>slog := slog s @ all_sections ps\<rparr>))"
    by (cases add4) (auto simp: provide_ntp_eq [OF E inv] dmntp_provide_servers_def [of _ None]
        dmdhcp_lease_table_visit_ntp_servers_def [of _ None])
qed

text \<open>No action is undefined behaviour, and each one ends in a state of the invariant.\<close>

lemma with_handle_inv:
  assumes inv: "sys_inv E s" and h: "usable E s h"
    and m: "\<And>p. p \<in> set (leases E s) \<Longrightarrow> \<exists>x s'. on_lease p m s = Some (x, s') \<and> sys_inv E s' \<and> leases E s' = leases E s"
  shows "\<exists>s'. map_option snd (with_handle h x m s) = Some s' \<and> sys_inv E s'"
proof (cases h)
  case None
  with inv show ?thesis by (simp add: with_handle_def)
next
  case (Some p)
  with h m [of p] show ?thesis by (auto simp: with_handle_def usable_def)
qed

lemma perform_inv:
  assumes E: "env_ok E" "fresh_malloc E" and inv: "sys_inv E s" and en: "enabled E s a"
  shows "\<exists>s'. perform E a s = Some s' \<and> sys_inv E s'"
proof -
  have running: "p \<in> set (leases E s)" if "snd (timer_view s t)" "timer_owner t = p" for t p
    using core_invD(12) [of E "{}" s t] inv that by (auto simp: sys_inv_def)
  show ?thesis
  proof (cases a)
    case (Start ifc cbs ud options)
    with start_inv [OF E inv, of ifc cbs ud options] show ?thesis by auto
  next
    case (Stop h)
    with en inv stop_inv [OF E(1) inv] show ?thesis
      by (cases h) (fastforce simp: usable_def dmdhcp_stop_def valid_handle_def)+
  next
    case (Release h)
    with en inv release_inv [OF E(1) inv] show ?thesis
      by (cases h) (fastforce simp: usable_def dmdhcp_release_def valid_handle_def)+
  next
    case (Renew h)
    with en with_handle_inv [OF inv _ renew_inv [OF E(1) inv]] show ?thesis by simp
  next
    case (Set_callbacks h cbs ud)
    with en with_handle_inv [OF inv _ set_callbacks_inv [OF inv]] show ?thesis by simp
  next
    case (Access what h)
    with en with_handle_inv [OF inv _ access_inv [OF inv]] show ?thesis by simp
  next
    case (Get_ntp_servers out n)
    with reader_effect(1) [OF E(1) inv, of out n] inv sys_inv_sections [OF inv] show ?thesis by (auto simp del: perform.simps)
  next
    case (Provide_dns add ctx)
    with reader_effect(2) [OF E(1) inv, of add ctx] inv sys_inv_sections [OF inv] show ?thesis by (auto simp del: perform.simps)
  next
    case (Provide_ntp add ctx)
    with reader_effect(3) [OF E(1) inv, of add ctx] inv sys_inv_sections [OF inv] show ?thesis by (auto simp del: perform.simps)
  next
    case (Datagram ifc payload)
    with datagram_inv [OF E(1) inv, of ifc payload] show ?thesis by auto
  next
    case (Retransmit_expires p)
    with en running [of "Retransmit_timer p" p] handler_inv [OF E(1) inv, of p Retransmit_fired] show ?thesis by auto
  next
    case (Lease_timer_expires p)
    with en running [of "Lease_timer p" p] handler_inv [OF E(1) inv, of p Lease_timer_fired] show ?thesis by auto
  qed
qed

lemma reachable_sys_inv:
  assumes E: "env_ok E" "fresh_malloc E"
  shows "reachable E s \<Longrightarrow> sys_inv E s"
proof (induction rule: reachable.induct)
  case (opened s)
  then show ?case using init_inv [OF E(1)] by blast
next
  case (stepped s a s')
  then show ?case using perform_inv [OF E stepped.IH, of a] by (auto simp: step_iff)
qed

end
