(* ===== verification/Dhcp_Runs.thy ===== *)
theory Dhcp_Runs
  imports Dhcp_Machine
begin

text \<open>
  Sequences of actions, and two concrete runs evaluated by the kernel: a lease that is started, and a lease
  that is started and bound, from the bytes of an OFFER and an ACK on.
\<close>

section \<open>Concrete runs\<close>

fun run_actions :: "('l, 't) env \<Rightarrow> action list \<Rightarrow> ('l, 't) sys \<Rightarrow> ('l, 't) sys option" where
  "run_actions E [] s = Some s"
| "run_actions E (a # as) s =
     (if enabled E s a then Option.bind (perform E a s) (run_actions E as) else None)"

lemma run_actions_append:
  "run_actions E (as @ bs) s = Option.bind (run_actions E as s) (run_actions E bs)"
proof (induction "as" arbitrary: s)
  case (Cons a "as")
  then show ?case by (cases "perform E a s") simp_all
qed simp

lemma run_actions_reachable:
  "reachable E s \<Longrightarrow> run_actions E as s = Some s' \<Longrightarrow> reachable E s'"
proof (induction "as" arbitrary: s)
  case Nil
  then show ?case by simp
next
  case (Cons a "as")
  then obtain s1 where "enabled E s a" "perform E a s = Some s1" "run_actions E as s1 = Some s'"
    by (auto split: if_splits simp: bind_eq_Some_conv)
  with Cons.IH [of s1] Cons.prems(1) show ?case by (auto intro: reachable.stepped step.intros)
qed

lemma run_actions_total:
  assumes "env_ok E" "fresh_malloc E" "reachable E s" "enabled E s a"
  shows "\<exists>s'. perform E a s = Some s' \<and> reachable E s'"
  using perform_inv [OF assms(1,2) reachable_sys_inv [OF assms(1-3)] assms(4)] assms(3,4)
  by (auto intro: reachable.stepped step.intros)

lemma live_malloced: "p \<in> observe live_step {} h \<Longrightarrow> p \<le> sum_list (map malloced h)"
proof (induction h rule: rev_induct)
  case Nil
  then show ?case by simp
next
  case (snoc e h)
  then show ?case by (cases e rule: malloced.cases) (auto simp: split: option.splits)
qed

text \<open>A platform on which every call succeeds but the allocation of message buffers, so that nothing is sent.\<close>

definition silent_env :: "(dmroute_addr_t list, lease_ptr list) env" where
  "silent_env = sample_env\<lparr>env_malloc_buffer := (\<lambda>h n. None)\<rparr>"

lemma silent_env_ok: "env_ok silent_env" "fresh_malloc silent_env"
proof -
  show "env_ok silent_env" using sample_env_ok by (simp add: env_ok_def silent_env_def sample_env_def)
  have "Suc (sum_list (map malloced h)) \<notin> observe live_step {} h" for h
    using live_malloced [of _ h] by (meson not_less_eq_eq order_refl)
  then show "fresh_malloc silent_env" by (simp add: fresh_malloc_def silent_env_def sample_env_def)
qed

definition sample_open :: "(dmroute_addr_t list, lease_ptr list) sys" where
  "sample_open = snd (dmod_init silent_env empty_sys)"

lemma sample_open_reachable: "reachable silent_env sample_open"
  by (rule reachable.opened)
    (simp add: sample_open_def dmod_init_def dmdhcp_lease_table_init_def dmdhcp_input_register_def silent_env_def
      sample_env_def Let_def)

text \<open>A lease started on interface 1, and the same lease bound by an OFFER and an ACK from the wire.\<close>

definition sample_start :: action where
  "sample_start = Start (Some 1) None (Some 5) None"

definition sample_started :: "(dmroute_addr_t list, lease_ptr list) sys" where
  "sample_started = the (run_actions silent_env [sample_start] sample_open)"

definition sample_reply :: "u8 \<Rightarrow> u8 list" where
  "sample_reply ty = [2, 1, 6, 0, 0, 0, 0, 12] @ replicate 8 0 @ [192, 168, 1, 42] @ replicate 216 0
     @ [0x63, 0x82, 0x53, 0x63, 53, 1, ty, 54, 4, 192, 168, 1, 1, 51, 4, 0, 0, 14, 16, 6, 4, 8, 8, 8, 8, 42, 4, 10, 0, 0, 1, 255]"

definition sample_acquire :: "action list" where
  "sample_acquire = [sample_start, Datagram (Some 1) (Some (sample_reply 2)), Retransmit_expires 1,
     Datagram (Some 1) (Some (sample_reply 5)), Retransmit_expires 1]"

definition sample_acquired :: "(dmroute_addr_t list, lease_ptr list) sys" where
  "sample_acquired = the (run_actions silent_env sample_acquire sample_open)"

lemma sample_started_eval:
  "map_option (\<lambda>s. (leases silent_env s, map_option state (heap s 1), iface_of s 1, snd (timer_view s (Retransmit_timer 1)),
      map_option xid (heap s 1)))
     (run_actions silent_env [sample_start] sample_open) = Some ([1], Some dmdhcp_state_selecting, Some 1, True, Some 12)"
  by code_simp

lemma sample_acquired_eval:
  "map_option (\<lambda>s. (leases silent_env s, map_option state (heap s 1), map_option offered_ip (heap s 1),
      map_option lease_time_sec (heap s 1), map_option dns_servers (heap s 1), map_option ntp_servers (heap s 1),
      snd (timer_view s (Lease_timer 1)), map_option (\<lambda>l. (t1_sec l, t2_sec l, iface l)) (heap s 1), length (slog s)))
     (run_actions silent_env sample_acquire sample_open)
   = Some ([1], Some dmdhcp_state_bound, Some (addr_v4 (192, 168, 1, 42)), Some 3600,
       Some (Some [addr_v4 (8, 8, 8, 8)]), Some (Some [addr_v4 (10, 0, 0, 1)]), True,
       Some (1800, 3150, Some 1), 54)"
  by code_simp

lemma sample_started_run:
  "run_actions silent_env [sample_start] sample_open = Some sample_started"
  "leases silent_env sample_started = [1]" "map_option state (heap sample_started 1) = Some dmdhcp_state_selecting"
  "iface_of sample_started 1 = Some 1" "snd (timer_view sample_started (Retransmit_timer 1))"
  "map_option xid (heap sample_started 1) = Some 12"
  using sample_started_eval by (auto simp: sample_started_def simp del: run_actions.simps)

lemma sample_acquired_run:
  "run_actions silent_env sample_acquire sample_open = Some sample_acquired"
  "leases silent_env sample_acquired = [1]" "map_option state (heap sample_acquired 1) = Some dmdhcp_state_bound"
  "map_option offered_ip (heap sample_acquired 1) = Some (addr_v4 (192, 168, 1, 42))"
  "map_option lease_time_sec (heap sample_acquired 1) = Some 3600"
  "map_option dns_servers (heap sample_acquired 1) = Some (Some [addr_v4 (8, 8, 8, 8)])"
  "map_option ntp_servers (heap sample_acquired 1) = Some (Some [addr_v4 (10, 0, 0, 1)])"
  "snd (timer_view sample_acquired (Lease_timer 1))"
  "map_option (\<lambda>l. (t1_sec l, t2_sec l, iface l)) (heap sample_acquired 1) = Some (1800, 3150, Some 1)"
  "length (slog sample_acquired) = 54"
  using sample_acquired_eval by (auto simp: sample_acquired_def simp del: run_actions.simps)

lemma sample_acquired_lease:
  obtains l where "heap sample_acquired 1 = Some l" "state l = dmdhcp_state_bound"
    "dns_servers l = Some [addr_v4 (8, 8, 8, 8)]" "ntp_servers l = Some [addr_v4 (10, 0, 0, 1)]"
  using sample_acquired_run(3,6,7) by auto

lemmas sample_reachable =
  run_actions_reachable [OF sample_open_reachable sample_started_run(1)]
  run_actions_reachable [OF sample_open_reachable sample_acquired_run(1)]

end
