(* ===== verification/Dhcp_Frame.thy ===== *)
theory Dhcp_Frame
  imports Dhcp_System
begin

text \<open>
  Frame rules: code that leaves the state of an observer of the platform calls as it is. The rules follow the
  structure of the code, one for each way of putting code together; the interface \<open>bystander\<close> is an observer that
  reacts neither to the locks and timers that the handlers of a lease use nor to the calls of
  the application, and has the rules for the code that all handlers share.
\<close>

section \<open>The rules\<close>

definition still :: "('m \<Rightarrow> event \<Rightarrow> 'm) \<Rightarrow> ('l, 'a) lease_monad \<Rightarrow> bool" where
  "still obs m \<longleftrightarrow> (\<forall>s n. observe obs n (log (exec m s)) = observe obs n (log s))"

lemma stillD: "still obs m \<Longrightarrow> observe obs n (log (exec m s)) = observe obs n (log s)"
  by (simp add: still_def)

lemma still_pure: "still obs (State_Monad.return x)" "still obs (getl g)" "still obs (modl u)" "still obs getself" "still obs (ask a)"
  by (simp_all add: still_def run_simps)

lemma still_calls:
  "(\<And>n. obs n e = n) \<Longrightarrow> still obs (emit e)"
  "(\<And>r n. obs n (ev r) = n) \<Longrightarrow> still obs (call q ev)"
  by (simp_all add: still_def run_simps)

lemma still_bind: "still obs m \<Longrightarrow> (\<And>x. still obs (f x)) \<Longrightarrow> still obs (State_Monad.bind m f)"
  by (simp add: still_def run_simps)

lemma still_branch:
  "still obs m \<Longrightarrow> still obs k \<Longrightarrow> still obs (if b then m else k)"
  "still obs m \<Longrightarrow> (\<And>x. still obs (f x)) \<Longrightarrow> still obs (case opt of None \<Rightarrow> m | Some x \<Rightarrow> f x)"
  "(\<And>x y. still obs (g x y)) \<Longrightarrow> still obs (case pr of (x, y) \<Rightarrow> g x y)"
  "(\<And>e. still obs (h e)) \<Longrightarrow> (\<And>r. still obs (i r)) \<Longrightarrow> still obs (case sm of Inl e \<Rightarrow> h e | Inr r \<Rightarrow> i r)"
  by (auto split: option.splits prod.splits sum.splits)

lemma on_leaseD:
  assumes "on_lease p m s = Some (x, s')"
  obtains l where "heap s p = Some l" "leases E s' = leases E s"
    "heap s' = (heap s)(p := Some (cur (exec m \<lparr>self = p, cur = l, log = slog s\<rparr>)))"
    "slog s' = log (exec m \<lparr>self = p, cur = l, log = slog s\<rparr>)"
proof -
  from assms obtain l where l: "heap s p = Some l" by (auto simp: on_lease_def split: option.splits)
  from assms have "s' = s\<lparr>heap := (heap s)(p := Some (cur (exec m \<lparr>self = p, cur = l, log = slog s\<rparr>))),
      slog := log (exec m \<lparr>self = p, cur = l, log = slog s\<rparr>)\<rparr>"
    by (simp add: on_lease_eq [OF l] Let_def)
  with that l show ?thesis by (simp add: leases_def)
qed

lemma on_lease_still:
  assumes "on_lease p m s = Some (x, s')" and "still obs m"
  shows "observe obs n (slog s') = observe obs n (slog s)"
  using on_leaseD [OF assms(1)] stillD [OF assms(2)] by (metis lctx.select_convs(3))

section \<open>Observers of something else\<close>

fun own_call :: "event \<Rightarrow> bool" where
  "own_call (Mutex_lock _) = True"
| "own_call (Mutex_unlock _) = True"
| "own_call (Timer_set_period _ _) = True"
| "own_call (Timer_start _) = True"
| "own_call (Timer_fired _) = True"
| "own_call (Call_on_bound _ _ _ _) = True"
| "own_call (Call_on_expired _ _ _) = True"
| "own_call (Call_on_error _ _ _ _) = True"
| "own_call _ = False"

locale bystander = monitor obs for obs :: "'m \<Rightarrow> event \<Rightarrow> 'm" +
  assumes own_step: "own_call e \<Longrightarrow> obs m e = m"
begin

lemma step_same [simp]: "quiet e \<or> own_call e \<Longrightarrow> obs m e = m"
  using quiet_step own_step by blast

lemma still_basic:
  "still obs lock_lease" "still obs unlock_lease" "still obs (arm_timer tm p)"
  "list_all quiet es \<Longrightarrow> still obs (emits es)"
  by (simp_all add: still_def run_simps)

lemmas still_rules = still_bind still_branch still_pure still_basic still_calls

lemma still_quiet:
  assumes "\<And>s. \<exists>s' es. exec m s = s' \<and> log s' = log s @ es \<and> list_all quiet es"
  shows "still obs m"
  unfolding still_def
proof (intro allI)
  fix s n
  obtain s' es where "exec m s = s'" "log s' = log s @ es" "list_all quiet es" using assms by blast
  then show "observe obs n (log (exec m s)) = observe obs n (log s)" by simp
qed

lemma still_send: "still obs (send_message E ty ciaddr req sid dst via)"
  by (rule still_quiet) (use send_message_effect [of E ty ciaddr req sid dst via] in fastforce)

lemma still_senders:
  "still obs (send_discover E)" "still obs (send_request_selecting E)" "still obs (send_request_reboot E)"
  "still obs (send_request_renew E)" "still obs (send_request_rebind E)" "still obs (send_decline E)"
  "still obs (dmdhcp_output_send_release E)"
  unfolding send_discover_def send_request_selecting_def send_request_reboot_def send_request_renew_def
    send_request_rebind_def send_decline_def dmdhcp_output_send_release_def
  by (intro still_rules still_send)+

lemma still_clear:
  "still obs (dmdhcp_lease_table_clear_dns_servers E)" "still obs (dmdhcp_lease_table_clear_ntp_servers E)"
  unfolding dmdhcp_lease_table_clear_dns_servers_def dmdhcp_lease_table_clear_ntp_servers_def
  by (intro still_rules quiet_map_Free)+

lemma still_enter:
  "still obs (dmdhcp_output_start_discovery E)" "still obs (dmdhcp_output_start_reboot E)"
  "still obs (dmdhcp_output_start_renew E)" "still obs (dmdhcp_output_start_rebind E)" "still obs rearm_backoff"
  unfolding dmdhcp_output_start_discovery_def dmdhcp_output_start_reboot_def dmdhcp_output_start_renew_def
    dmdhcp_output_start_rebind_def rearm_backoff_def
  by (intro still_rules still_senders still_clear; simp)+

lemma still_acquire: "still obs (begin_acquire E options)"
  unfolding begin_acquire_def by (intro still_rules still_enter)

lemma still_restart: "still obs (handle_lost_restart E)"
  unfolding handle_lost_restart_def by (intro still_rules still_enter)

lemma still_conflict: "still obs (handle_conflict E)"
  unfolding handle_conflict_def by (intro still_rules still_senders) simp_all

lemma still_arm: "still obs dmdhcp_lifecycle_arm_t1" "still obs dmdhcp_lifecycle_arm_t2" "still obs dmdhcp_lifecycle_arm_expiry"
  unfolding dmdhcp_lifecycle_arm_t1_def dmdhcp_lifecycle_arm_t2_def dmdhcp_lifecycle_arm_expiry_def
  by (intro still_rules)+

end

section \<open>Observers of the objects of the platform\<close>

text \<open>
  An \<open>outsider\<close> does not react to the interfaces, the routes and stopped timers either. All code that runs on a lease
  between its creation and its destruction leaves it as it is.
\<close>

locale outsider = bystander obs for obs :: "'m \<Rightarrow> event \<Rightarrow> 'm" +
  assumes net_same: "net_call e \<Longrightarrow> obs m e = m" and stop_same: "obs m (Timer_stop t) = m"
begin

lemma still_host: "still obs (seed_lease E cbs ud options)"
  unfolding seed_lease_def by (intro still_rules; simp)

lemma still_lifecycle: "still obs (dmdhcp_lifecycle_apply E)" "still obs (dmdhcp_lifecycle_unapply E)"
  unfolding dmdhcp_lifecycle_apply_def dmdhcp_lifecycle_unapply_def Let_def
  by (intro still_rules; simp add: net_same stop_same)+

lemma still_final: "still obs (unapply_locked E)" "still obs (release_locked E)"
  unfolding unapply_locked_def release_locked_def by (intro still_rules still_lifecycle still_senders)+

lemma still_lost: "still obs (dmdhcp_lifecycle_handle_lost E)"
  unfolding dmdhcp_lifecycle_handle_lost_def handle_lost_teardown_def
  by (intro still_rules still_lifecycle still_clear still_restart; simp)

lemma still_push: "still obs (push_servers E servers servers_update opt i n)"
proof (induction n arbitrary: i)
  case 0
  show ?case unfolding push_servers.simps by (intro still_rules)
next
  case (Suc n)
  show ?case unfolding push_servers.simps by (intro still_rules Suc; simp)
qed

lemma still_populate: "still obs (populate_lease_from_options E msg options)"
  unfolding populate_lease_from_options_def by (intro still_rules still_clear still_push)

lemma still_dispatch: "still obs (dispatch_message E ty msg options)"
  unfolding dispatch_message_def
  by (intro still_rules still_populate still_enter still_lifecycle still_arm still_lost; simp)

lemma still_timers: "still obs (retransmit_timer_callback E)" "still obs (lease_timer_callback E)"
proof -
  have probe: "still obs (run_conflict_probe E)"
    unfolding run_conflict_probe_def by (intro still_rules still_conflict still_senders still_lifecycle still_arm; simp)
  show "still obs (retransmit_timer_callback E)"
    unfolding retransmit_timer_callback_def
    by (intro still_rules probe still_senders still_enter dmdhcp_state_t.split [of "still obs", THEN iffD2] conjI impI)
  show "still obs (lease_timer_callback E)"
    unfolding lease_timer_callback_def by (intro still_rules still_enter still_arm still_lost)
qed

lemma still_calls_of_api: "still obs (dmdhcp_renew E)" "still obs (dmdhcp_set_callbacks cbs ud)"
  unfolding dmdhcp_renew_def dmdhcp_set_callbacks_def bad_magic_def by (intro still_rules still_enter)+

lemma still_handle: "still obs (handle E tr)"
  by (cases tr; simp only: handle.simps; intro still_rules still_timers still_dispatch still_calls_of_api; simp)

end

end
