(* ===== verification/Dhcp_Objects.thy ===== *)
theory Dhcp_Objects
  imports Dhcp_Runs Dhcp_Frame
begin

text \<open>
  The objects of the platform (mutexes, timers and list containers): a monitor of those that exist, and a counter of the creations that
  failed. Each lease in the table owns five of them; the module owns the table's list and mutex; there are no others. What a start creates
  and what a stop, a release, a failed start and the end of the module destroy.
\<close>

section \<open>The monitors\<close>

datatype obj = Mutex mutex_id | Timer timer_id | Container list_kind

fun obj_step :: "obj set \<Rightarrow> event \<Rightarrow> obj set" where
  "obj_step X (Mutex_create m ok) = (if ok then insert (Mutex m) X else X)"
| "obj_step X (Timer_create t _ ok) = (if ok then insert (Timer t) X else X)"
| "obj_step X (List_create k ok) = (if ok then insert (Container k) X else X)"
| "obj_step X (Mutex_destroy (Some m)) = X - {Mutex m}"
| "obj_step X (Timer_destroy t) = X - {Timer t}"
| "obj_step X (List_destroy k) = X - {Container k}"
| "obj_step X _ = X"

interpretation om: outsider obj_step
proof
  fix e m
  assume "quiet e"
  then show "obj_step m e = m" by (cases e) simp_all
next
  fix e m
  assume "own_call e"
  then show "obj_step m e = m" by (cases e) simp_all
next
  fix e m
  assume "net_call e"
  then show "obj_step m e = m" by (cases e) simp_all
qed simp

abbreviation objects :: "('l, 't) sys \<Rightarrow> obj set" where
  "objects s \<equiv> observe obj_step {} (slog s)"

text \<open>The calls that create something and fail. The allocations of address entries, host names and buffers are not among them.\<close>

fun failed_creation :: "event \<Rightarrow> bool" where
  "failed_creation (Malloc_lease p) = (p = None)"
| "failed_creation (Mutex_create _ ok) = (\<not> ok)"
| "failed_creation (Timer_create _ _ ok) = (\<not> ok)"
| "failed_creation (List_create _ ok) = (\<not> ok)"
| "failed_creation _ = False"

definition failures :: "history \<Rightarrow> nat" where
  "failures es = length (filter failed_creation es)"

definition failure_step :: "nat \<Rightarrow> event \<Rightarrow> nat" where
  "failure_step n e = (if failed_creation e then Suc n else n)"

lemma failures_counted: "observe failure_step n es = n + failures es"
  by (induction es arbitrary: n) (simp_all add: failures_def failure_step_def)

interpretation fm: outsider failure_step
proof
  fix e m
  assume "quiet e"
  then show "failure_step m e = m" by (cases e) (simp_all add: failure_step_def)
next
  fix e m
  assume "own_call e"
  then show "failure_step m e = m" by (cases e) (simp_all add: failure_step_def)
next
  fix e m
  assume "net_call e"
  then show "failure_step m e = m" by (cases e) (simp_all add: failure_step_def)
qed (simp add: failure_step_def)

lemma failures_simps [simp]:
  "failures [] = 0" "failures (e # es) = (if failed_creation e then Suc (failures es) else failures es)"
  "failures (es @ fs) = failures es + failures fs"
  by (simp_all add: failures_def)

lemma still_failures: "still failure_step m \<Longrightarrow> failures (log (exec m s)) = failures (log s)"
  using stillD [of failure_step m 0 s] by (simp add: failures_counted)

section \<open>What a lease owns\<close>

definition own_objects :: "lease_ptr \<Rightarrow> obj set" where
  "own_objects p = {Mutex (Lease_lock p), Timer (Retransmit_timer p), Timer (Lease_timer p),
     Container (Dns_list p), Container (Ntp_list p)}"

text \<open>The part of them that a lease has handles of, while it is created and destroyed.\<close>

definition held :: "lease_ptr \<Rightarrow> 'l lease \<Rightarrow> obj set" where
  "held p l = (if lock l = None then {} else {Mutex (Lease_lock p)})
     \<union> (if retransmit_timer l = None then {} else {Timer (Retransmit_timer p)})
     \<union> (if lease_timer l = None then {} else {Timer (Lease_timer p)})
     \<union> (if dns_servers l = None then {} else {Container (Dns_list p)})
     \<union> (if ntp_servers l = None then {} else {Container (Ntp_list p)})"

definition own_handles :: "lease_ptr \<Rightarrow> 'l lease \<Rightarrow> bool" where
  "own_handles p l \<longleftrightarrow> lock l \<in> {None, Some (Lease_lock p)} \<and> own_timers p l"

lemma held_all: "handles_ok p l \<Longrightarrow> held p l = own_objects p" "handles_ok p l \<Longrightarrow> own_handles p l"
  by (auto simp: handles_ok_def held_def own_objects_def own_handles_def own_timers_def)

lemma held_own: "held p l \<subseteq> own_objects p"
  by (auto simp: held_def own_objects_def)

lemma own_objects_disjoint: "p \<noteq> q \<Longrightarrow> own_objects p \<inter> own_objects q = {}"
  by (auto simp: own_objects_def)

lemma create_objects:
  assumes "cur s = zero_lease" and run: "run_state (create_fields E ifc) s = (ok, s')"
  shows "observe obj_step X (log s') = observe obj_step X (log s) \<union> held (self s) (cur s')"
    and "own_handles (self s) (cur s')" and "failures (log s') = failures (log s) \<longleftrightarrow> ok"
proof -
  define a where "a = env_mutex_create E (log s) (Lease_lock (self s))"
  define h1 where "h1 = log s @ [Mutex_create (Lease_lock (self s)) a]"
  define d where "d = env_addr_list_create E h1"
  define h2 where "h2 = h1 @ [List_create (Dns_list (self s)) (d \<noteq> None)]"
  define n where "n = env_addr_list_create E h2"
  define h3 where "h3 = h2 @ [List_create (Ntp_list (self s)) (n \<noteq> None)]"
  define rt where "rt = env_timer_create E h3 (Retransmit_timer (self s))"
  define h4 where "h4 = h3 @ [Timer_create (Retransmit_timer (self s)) DMDHCP_RETRANSMIT_INITIAL_MS rt]"
  define lt where "lt = env_timer_create E h4 (Lease_timer (self s))"
  define h5 where "h5 = h4 @ [Timer_create (Lease_timer (self s)) DMDHCP_RETRANSMIT_INITIAL_MS lt]"
  let ?l = "zero_lease\<lparr>lock := if a then Some (Lease_lock (self s)) else None, dns_servers := d, ntp_servers := n,
    retransmit_timer := if rt then Some (Retransmit_timer (self s)) else None, lease_timer := if lt then Some (Lease_timer (self s)) else None\<rparr>"
  let ?ok = "a \<and> d \<noteq> None \<and> n \<noteq> None \<and> rt \<and> lt"
  define s1 where "s1 = s\<lparr>cur := (cur s)\<lparr>lock := if a then Some (Lease_lock (self s)) else None\<rparr>, log := h1\<rparr>"
  define s2 where "s2 = s1\<lparr>cur := (cur s1)\<lparr>dns_servers := d\<rparr>, log := h2\<rparr>"
  define s3 where "s3 = s2\<lparr>cur := (cur s2)\<lparr>ntp_servers := n\<rparr>, log := h3\<rparr>"
  have parts: "exec (create_lock E) s = s1" "exec (create_dns_list E) s1 = s2" "exec (create_ntp_list E) s2 = s3"
    "exec (create_timers E) s3 = s\<lparr>cur := ?l, log := h5\<rparr>"
    using assms(1)
    by (simp_all add: s1_def s2_def s3_def create_lock_def create_dns_list_def create_ntp_list_def create_timers_def
        dmdhcp_output_create_retransmit_timer_def dmdhcp_lifecycle_create_lease_timer_def run_simps
        a_def [symmetric] h1_def [symmetric] d_def [symmetric] h2_def [symmetric, simplified] n_def [symmetric] h3_def [symmetric, simplified]
        rt_def [symmetric] h4_def [symmetric] lt_def [symmetric] h5_def [symmetric])
  have "run_state (create_fields E ifc) s =
      (?ok, s\<lparr>cur := if ?ok then ?l\<lparr>iface := ifc, magic := DMDHCP_LEASE_MAGIC\<rparr> else ?l, log := h5\<rparr>)"
    unfolding create_fields_def run_bind parts by (auto simp: run_simps)
  with run have r: "ok = ?ok" "log s' = h5" "lock (cur s') = lock ?l" "dns_servers (cur s') = d" "ntp_servers (cur s') = n"
      "retransmit_timer (cur s') = retransmit_timer ?l" "lease_timer (cur s') = lease_timer ?l"
    by (auto split: if_splits)
  have log: "log s' = log s @ [Mutex_create (Lease_lock (self s)) a, List_create (Dns_list (self s)) (d \<noteq> None),
      List_create (Ntp_list (self s)) (n \<noteq> None), Timer_create (Retransmit_timer (self s)) DMDHCP_RETRANSMIT_INITIAL_MS rt,
      Timer_create (Lease_timer (self s)) DMDHCP_RETRANSMIT_INITIAL_MS lt]"
    using r(2) by (simp add: h1_def h2_def h3_def h4_def h5_def)
  show "own_handles (self s) (cur s')" using r by (simp add: own_handles_def own_timers_def)
  show "failures (log s') = failures (log s) \<longleftrightarrow> ok" unfolding log r(1) by auto
  show "observe obj_step X (log s') = observe obj_step X (log s) \<union> held (self s) (cur s')"
    unfolding log held_def r(3-7) by auto
qed

lemma destroy_objects:
  assumes E: "env_ok E" and own: "own_handles (self s) (cur s)"
  shows "observe obj_step X (log (exec (destroy_fields E dmdhcp_teardown_context_normal) s))
      = observe obj_step X (log s) - held (self s) (cur s)"
    and "failures (log (exec (destroy_fields E dmdhcp_teardown_context_normal) s)) = failures (log s)"
proof -
  obtain e1 e2 where run: "log (exec (destroy_fields E dmdhcp_teardown_context_normal) s) = log s
      @ timer_teardown False (retransmit_timer (cur s)) @ timer_teardown False (lease_timer (cur s))
      @ e1 @ (if dns_servers (cur s) \<noteq> None then [List_destroy (Dns_list (self s))] else [])
      @ e2 @ (if ntp_servers (cur s) \<noteq> None then [List_destroy (Ntp_list (self s))] else [])
      @ [if hostname (cur s) = None then Free_null else Free Hostname]
      @ (if lock (cur s) \<noteq> None then [Mutex_destroy (lock (cur s))] else []) @ [Free_lease (self s)]"
    and e: "list_all quiet e1" "list_all quiet e2"
    using destroy_fields_run [OF E, of dmdhcp_teardown_context_normal s] by (auto dest: heap_only_quiet)
  have timer: "observe obj_step Y (timer_teardown False t) = (case t of None \<Rightarrow> Y | Some t \<Rightarrow> Y - {Timer t})"
    "failures (timer_teardown False t) = 0" for Y t
    by (simp_all add: timer_teardown_def split: option.splits)
  have "failures e1 = 0" "failures e2 = 0" using fm.observe_quiet [OF e(1), of 0] fm.observe_quiet [OF e(2), of 0]
    by (simp_all add: failures_counted)
  then show "failures (log (exec (destroy_fields E dmdhcp_teardown_context_normal) s)) = failures (log s)"
    unfolding run by (simp add: timer)
  show "observe obj_step X (log (exec (destroy_fields E dmdhcp_teardown_context_normal) s))
      = observe obj_step X (log s) - held (self s) (cur s)"
    unfolding run held_def using own e
    by (cases "lock (cur s)"; cases "retransmit_timer (cur s)"; cases "lease_timer (cur s)"; cases "dns_servers (cur s)";
        cases "ntp_servers (cur s)") (simp_all add: timer own_handles_def own_timers_def, blast+)
qed

section \<open>The objects of the module\<close>

definition obj_inv :: "('l, 't) env \<Rightarrow> ('l, 't) sys \<Rightarrow> bool" where
  "obj_inv E s \<longleftrightarrow> objects s = {Container Lease_list, Mutex Table_mutex} \<union> (\<Union>p \<in> set (leases E s). own_objects p)"

lemma obj_inv_fresh: "obj_inv E s \<Longrightarrow> p \<notin> set (leases E s) \<Longrightarrow> own_objects p \<inter> objects s = {}"
  using own_objects_disjoint [of p] by (fastforce simp: obj_inv_def own_objects_def)

lemma obj_inv_remove:
  "obj_inv E s \<Longrightarrow> p \<in> set (leases E s) \<Longrightarrow> leases E s' = filter (\<lambda>q. q \<noteq> p) (leases E s) \<Longrightarrow>
   objects s' = objects s - own_objects p \<Longrightarrow> obj_inv E s'"
  using own_objects_disjoint [of p] by (fastforce simp: obj_inv_def own_objects_def)

lemma on_lease_objects:
  assumes "on_lease p m s = Some (x, s')" and "still obj_step m" and "still failure_step m"
  shows "objects s' = objects s" and "failures (slog s') = failures (slog s)"
  using on_lease_still [OF assms(1,2), of "{}"] on_lease_still [OF assms(1,3), of 0] by (simp_all add: failures_counted)

lemma destroy_lease_objects:
  assumes E: "env_ok E" and l: "heap s p = Some l" "own_handles p l" and d: "dmdhcp_lease_table_destroy E (Some p) s = Some (x, s')"
  shows "objects s' = objects s - held p l" and "failures (slog s') = failures (slog s)"
proof -
  let ?c = "\<lparr>self = p, cur = l, log = slog s\<rparr>"
  have "slog s' = log (exec (destroy_fields E dmdhcp_teardown_context_normal) ?c)"
    using d l(1) by (auto simp: dmdhcp_lease_table_destroy_def dmdhcp_lease_table_destroy_with_context_def on_lease_eq Let_def)
  with destroy_objects [OF E, of ?c] l(2) show "objects s' = objects s - held p l" "failures (slog s') = failures (slog s)"
    by simp_all
qed

lemma create_lease_objects:
  assumes E: "env_ok E" and new: "\<forall>p. env_malloc_lease E (slog s) = Some p \<longrightarrow> own_objects p \<inter> objects s = {}"
    and c: "dmdhcp_lease_table_create E ifc s = Some (r, s')"
  shows "r = None \<Longrightarrow> objects s' = objects s \<and> failures (slog s') \<noteq> failures (slog s)"
    and "r = Some p \<Longrightarrow> env_malloc_lease E (slog s) = Some p \<and> objects s' = objects s \<union> own_objects p
      \<and> failures (slog s') = failures (slog s) \<and> g_leases s' = g_leases s"
proof -
  let ?s = "\<lambda>p. s\<lparr>heap := (heap s)(p := Some zero_lease), slog := slog s @ [Malloc_lease (Some p)]\<rparr>"
  have upd: "s\<lparr>slog := slog s @ [Malloc_lease (Some p)], heap := (heap s)(p := Some zero_lease)\<rparr> = ?s p" for p by simp
  have "r = None \<and> objects s' = objects s \<and> failures (slog s') \<noteq> failures (slog s)
    \<or> (\<exists>p. r = Some p \<and> env_malloc_lease E (slog s) = Some p \<and> objects s' = objects s \<union> own_objects p
        \<and> failures (slog s') = failures (slog s) \<and> g_leases s' = g_leases s)"
  proof (cases "env_malloc_lease E (slog s)")
    case None
    with c show ?thesis by (auto simp: dmdhcp_lease_table_create_def sys_emit_def)
  next
    case (Some p)
    let ?c = "\<lparr>self = p, cur = zero_lease, log = slog s @ [Malloc_lease (Some p)]\<rparr>"
    obtain ok c' where run: "run_state (create_fields E ifc) ?c = (ok, c')" by fastforce
    define s1 where "s1 = (?s p)\<lparr>heap := (heap (?s p))(p := Some (cur c')), slog := log c'\<rparr>"
    have o: "on_lease p (create_fields E ifc) (?s p) = Some (ok, s1)" using run by (simp add: on_lease_def s1_def)
    note co = create_objects [OF _ run, simplified]
    have s1: "objects s1 = objects s \<union> held p (cur c')" "failures (slog s1) = failures (slog s) \<longleftrightarrow> ok" "g_leases s1 = g_leases s"
        "heap s1 p = Some (cur c')" "own_handles p (cur c')"
      using co by (simp_all add: s1_def)
    show ?thesis
    proof (cases ok)
      case True
      with c o Some have r: "r = Some p" "s' = s1" by (auto simp: dmdhcp_lease_table_create_def sys_emit_def upd Let_def)
      have "lock (cur c') \<noteq> None \<and> dns_servers (cur c') \<noteq> None \<and> ntp_servers (cur c') \<noteq> None
          \<and> retransmit_timer (cur c') \<noteq> None \<and> lease_timer (cur c') \<noteq> None"
        using run True by (auto simp: create_fields_def run_bind run_simps split: if_splits)
      then have "held p (cur c') = own_objects p" by (auto simp: held_def own_objects_def)
      with r Some s1 True show ?thesis by simp
    next
      case False
      with c o Some obtain x where d: "dmdhcp_lease_table_destroy E (Some p) s1 = Some (x, s')" and r: "r = None"
        by (auto simp: dmdhcp_lease_table_create_def sys_emit_def upd Let_def bind_eq_Some_conv)
      have "objects s \<union> held p (cur c') - held p (cur c') = objects s" using new Some held_own [of p "cur c'"] by blast
      with destroy_lease_objects [OF E s1(4,5) d] s1(1,2) False r show ?thesis by simp
    qed
  qed
  then show "r = None \<Longrightarrow> objects s' = objects s \<and> failures (slog s') \<noteq> failures (slog s)"
    "r = Some p \<Longrightarrow> env_malloc_lease E (slog s) = Some p \<and> objects s' = objects s \<union> own_objects p
      \<and> failures (slog s') = failures (slog s) \<and> g_leases s' = g_leases s"
    by auto
qed

text \<open>The table's container refuses the new lease.\<close>

definition refused :: "('l, 't) env \<Rightarrow> ('l, 't) sys \<Rightarrow> bool" where
  "refused E s \<longleftrightarrow> (\<exists>t p. g_leases s = Some t \<and> env_malloc_lease E (slog s) = Some p \<and> \<not> fst (dmlist_push_back (tlist E) t p))"

lemma insert_objects:
  assumes "dmdhcp_lease_table_insert E p s = Some (r, s')"
  shows "objects s' = objects s" "failures (slog s') = failures (slog s)"
  using assms by (auto simp: dmdhcp_lease_table_insert_def sys_emit_def Let_def split: option.splits if_splits prod.splits)

text \<open>From the new lease to the outcome of its insertion.\<close>

lemma insert_seeded:
  assumes E: "env_ok E" and core: "core_inv E {} s" and l: "heap s p = Some l" "p \<notin> set (leases E s)" "fresh_lease E p ifc l" "named l = 0"
  obtains s2 r3 s3 k where "on_lease p (seed_lease E cbs ud options) s = Some ((), s2)" "dmdhcp_lease_table_insert E p s2 = Some (r3, s3)"
    "objects s3 = objects s" "failures (slog s3) = failures (slog s)" "heap s3 p = Some k" "handles_ok p k"
    "isl r3 \<longleftrightarrow> ifc \<in> iface_of s ` set (leases E s) \<or> \<not> fst (dmlist_push_back (tlist E) (the (g_leases s)) p)"
proof -
  obtain s2 k where sd: "on_lease p (seed_lease E cbs ud options) s = Some ((), s2)" "core_inv E {} s2"
      "leases E s2 = leases E s" "heap s2 = (heap s)(p := Some k)" "fresh_lease E p ifc k"
    using seed_core [OF core l] by blast
  have h2: "heap s2 p = Some k" "p \<notin> set (leases E s2)" "iface k = ifc" "handles_ok p k" "g_leases s2 = g_leases s"
    using sd l(2) by (auto simp: fresh_lease_def on_lease_def split: option.splits prod.splits)
  have img: "iface_of s2 ` set (leases E s2) = iface_of s ` set (leases E s)"
    using sd(3,4) l(2) by (intro image_cong) (auto simp: iface_of_def)
  obtain r3 s3 where ins: "dmdhcp_lease_table_insert E p s2 = Some (r3, s3)" "heap s3 = heap s2"
    and occ: "isl r3 \<longleftrightarrow> iface k \<in> iface_of s2 ` set (leases E s2) \<or> \<not> fst (dmlist_push_back (tlist E) (the (g_leases s2)) p)"
    using insert_core [OF E sd(2) h2(1,2)] by (elim exE conjE) (rule that)
  show ?thesis
    by (rule that [OF sd(1) ins(1)])
      (use insert_objects [OF ins(1)] on_lease_objects [OF sd(1) om.still_host fm.still_host] ins(2) h2 occ img in simp_all)
qed

lemma start_created:
  assumes E: "env_ok E" and ifc: "ifc \<noteq> None" and c: "dmdhcp_lease_table_create E ifc s0 = Some (Some p, s)"
    and core: "core_inv E {} s" and l: "heap s p = Some l" "p \<notin> set (leases E s)" "fresh_lease E p ifc l" "named l = 0"
    and run: "dmdhcp_start E ifc cbs ud options s0 = Some (r, s')"
  shows "failures (slog s') = failures (slog s)"
    and "if ifc \<in> iface_of s ` set (leases E s) \<or> \<not> fst (dmlist_push_back (tlist E) (the (g_leases s)) p)
      then r = None \<and> objects s' = objects s - own_objects p else r = Some p \<and> objects s' = objects s"
proof -
  obtain s2 r3 s3 k where s3: "on_lease p (seed_lease E cbs ud options) s = Some ((), s2)" "dmdhcp_lease_table_insert E p s2 = Some (r3, s3)"
    "objects s3 = objects s" "failures (slog s3) = failures (slog s)" "heap s3 p = Some k" "handles_ok p k"
    and bad: "isl r3 \<longleftrightarrow> ifc \<in> iface_of s ` set (leases E s) \<or> \<not> fst (dmlist_push_back (tlist E) (the (g_leases s)) p)"
    by (rule insert_seeded [OF E core l])
  have "failures (slog s') = failures (slog s) \<and> (if isl r3 then r = None \<and> objects s' = objects s - own_objects p else r = Some p \<and> objects s' = objects s)"
  proof (cases "isl r3")
    case True
    with run c s3(1,2) ifc obtain x where d: "dmdhcp_lease_table_destroy E (Some p) s3 = Some (x, s')" and r: "r = None"
      by (auto simp: dmdhcp_start_def bind_eq_Some_conv)
    from destroy_lease_objects [OF E s3(5) held_all(2) [OF s3(6)] d] held_all(1) [OF s3(6)] s3(3,4) r True show ?thesis by simp
  next
    case False
    with run c s3(1,2) ifc obtain x where b: "on_lease p (begin_acquire E options) s3 = Some (x, s')" and r: "r = Some p"
      by (auto simp: dmdhcp_start_def bind_eq_Some_conv)
    from on_lease_objects [OF b om.still_acquire fm.still_acquire] s3(3,4) r False show ?thesis by simp
  qed
  then show "failures (slog s') = failures (slog s)"
    "if ifc \<in> iface_of s ` set (leases E s) \<or> \<not> fst (dmlist_push_back (tlist E) (the (g_leases s)) p)
      then r = None \<and> objects s' = objects s - own_objects p else r = Some p \<and> objects s' = objects s"
    unfolding bad by blast+
qed

lemma start_objects:
  assumes E: "env_ok E" "fresh_malloc E" and inv: "sys_inv E s" and obj: "obj_inv E s"
    and run: "dmdhcp_start E ifc cbs ud options s = Some (r, s')"
  shows "(r = None \<longleftrightarrow> ifc = None \<or> ifc \<in> iface_of s ` set (leases E s) \<or> failures (slog s') \<noteq> failures (slog s) \<or> refused E s)
    \<and> objects s' = objects s \<union> (case r of None \<Rightarrow> {} | Some p \<Rightarrow> own_objects p)"
proof (cases "ifc = None")
  case True
  with run show ?thesis by (simp add: dmdhcp_start_def)
next
  case False
  have core: "core_inv E {} s" and dom: "dom (heap s) = set (leases E s)" using inv by (simp_all add: sys_inv_def)
  have "p \<notin> set (leases E s)" if "env_malloc_lease E (slog s) = Some p" for p
    using E(2) that core_invD(4) [OF core] dom unfolding fresh_malloc_def by blast
  then have new: "\<forall>p. env_malloc_lease E (slog s) = Some p \<longrightarrow> own_objects p \<inter> objects s = {}"
    using obj_inv_fresh [OF obj] by blast
  obtain r1 s1 where c: "dmdhcp_lease_table_create E ifc s = Some (r1, s1)" "core_inv E {} s1" "leases E s1 = leases E s"
    and r1: "case r1 of None \<Rightarrow> heap s1 = heap s \<and> \<not> resources E
       | Some p \<Rightarrow> p \<notin> dom (heap s) \<and> (\<exists>l. heap s1 = (heap s)(p := Some l) \<and> fresh_lease E p ifc l \<and> named l = 0
           \<and> callbacks l = no_callbacks)"
    using create_core [OF E core] by blast
  note co = create_lease_objects [OF E(1) new c(1)]
  show ?thesis
  proof (cases r1)
    case None
    with run c(1) False have "r = None" "s' = s1" by (simp_all add: dmdhcp_start_def)
    with co(1) [OF None] show ?thesis by simp
  next
    case (Some p)
    note cp = co(2) [OF Some]
    from r1 Some obtain l where p: "p \<notin> set (leases E s)" and l: "heap s1 = (heap s)(p := Some l)" "fresh_lease E p ifc l" "named l = 0"
      using dom by auto
    have "iface_of s1 ` set (leases E s1) = iface_of s ` set (leases E s)"
      using c(3) l(1) p by (intro image_cong) (auto simp: iface_of_def)
    moreover obtain t where "g_leases s = Some t" using core_invD(1) [OF core] by blast
    ultimately have bad: "ifc \<in> iface_of s1 ` set (leases E s1) \<or> \<not> fst (dmlist_push_back (tlist E) (the (g_leases s1)) p)
        \<longleftrightarrow> ifc \<in> iface_of s ` set (leases E s) \<or> refused E s"
      using cp by (simp add: refused_def)
    have "heap s1 p = Some l" "p \<notin> set (leases E s1)" using l(1) p c(3) by simp_all
    from start_created [OF E(1) False c(1) [unfolded Some] c(2) this l(2,3) run, unfolded bad] cp new False show ?thesis
      by (auto split: if_splits)
  qed
qed

section \<open>Every reachable state\<close>

lemma remove_objects:
  assumes "dmdhcp_lease_table_remove E p s = Some (x, s')"
  shows "objects s' = objects s" "heap s' = heap s"
  using assms by (auto simp: dmdhcp_lease_table_remove_def sys_emit_def Let_def split: option.splits)

lemma final_objects:
  assumes E: "env_ok E" and l: "heap s p = Some l" "handles_ok p l" and m: "still obj_step m"
    and final: "\<And>c. \<exists>es r. exec m c =
      c\<lparr>cur := (cur c)\<lparr>default_route := r, iface_configured := False\<rparr>,
        log := log c @ Mutex_lock (lock (cur c)) # es @ [Mutex_unlock (lock (cur c))]\<rparr> \<and> calm 0 es"
    and run: "on_lease p m s = Some (x, s1)" "dmdhcp_lease_table_destroy E (Some p) s1 = Some (y, s2)"
  shows "objects s2 = objects s - own_objects p"
proof -
  let ?k = "cur (exec m \<lparr>self = p, cur = l, log = slog s\<rparr>)"
  have s1: "heap s1 p = Some ?k" "objects s1 = objects s"
    using run(1) l(1) on_lease_still [OF run(1) m] by (auto simp: on_lease_eq [of _ p l] Let_def)
  have "handles_ok p ?k" using l(2) final [of "\<lparr>self = p, cur = l, log = slog s\<rparr>"] by (auto simp: handles_ok_def)
  from destroy_lease_objects(1) [OF E s1(1) held_all(2) [OF this] run(2)] held_all(1) [OF this] s1(2) show ?thesis by simp
qed

lemma stop_objects:
  assumes E: "env_ok E" and inv: "sys_inv E s" and p: "p \<in> set (leases E s)"
  shows "dmdhcp_stop E (Some p) s = Some (x, s') \<Longrightarrow> objects s' = objects s - own_objects p"
    and "dmdhcp_release E (Some p) s = Some (y, s') \<Longrightarrow> objects s' = objects s - own_objects p"
proof -
  obtain l where l: "heap s p = Some l" "lease_inv E p l" by (rule sys_inv_lease [OF inv p])
  then have h: "handles_ok p l" by (simp add: lease_inv_def)
  have end1: "objects s2 = objects s - own_objects p"
    if "dmdhcp_lease_table_remove E p s = Some (a, s0)" "on_lease p m s0 = Some (b, s1)"
      "dmdhcp_lease_table_destroy E (Some p) s1 = Some (c, s2)" "m = unapply_locked E \<or> m = release_locked E" for m a b c s0 s1 s2
  proof -
    note r = remove_objects [OF that(1)]
    have "heap s0 p = Some l" using r(2) l(1) by simp
    from that(4) final_objects [OF E this h om.still_final(1) unapply_locked_effect _ that(3)]
      final_objects [OF E this h om.still_final(2) release_locked_effect _ that(3)] that(2) r(1) show ?thesis by auto
  qed
  note v = valid_handle_live [OF inv p]
  show "dmdhcp_stop E (Some p) s = Some (x, s') \<Longrightarrow> objects s' = objects s - own_objects p"
    using end1 by (auto simp: dmdhcp_stop_def v bind_eq_Some_conv)
  show "dmdhcp_release E (Some p) s = Some (y, s') \<Longrightarrow> objects s' = objects s - own_objects p"
    using end1 by (auto simp: dmdhcp_release_def v bind_eq_Some_conv)
qed

lemma init_objects:
  assumes "env_ok E" and init: "dmod_init E empty_sys = (Inr (), s)"
  shows "obj_inv E s"
proof -
  have "objects s = {Container Lease_list, Mutex Table_mutex}"
    using init
    by (auto simp: dmod_init_def dmdhcp_lease_table_init_def dmdhcp_input_register_def Let_def sys_emit_def empty_sys_def
        split: sum.splits if_splits prod.splits)
  with init_inv [OF assms] show ?thesis by (simp add: obj_inv_def)
qed

lemma obj_inv_same: "obj_inv E s \<Longrightarrow> objects s' = objects s \<Longrightarrow> leases E s' = leases E s \<Longrightarrow> obj_inv E s'"
  by (simp add: obj_inv_def)

lemma on_lease_obj_inv:
  assumes "obj_inv E s" and "on_lease p m s = Some (x, s')" and "still obj_step m"
  shows "obj_inv E s'"
  by (rule obj_inv_same [OF assms(1) on_lease_still [OF assms(2,3)]]) (rule on_leaseD [OF assms(2)])

lemma with_handle_obj_inv:
  "obj_inv E s \<Longrightarrow> map_option snd (with_handle h x m s) = Some s' \<Longrightarrow> still obj_step m \<Longrightarrow> obj_inv E s'"
  by (cases h) (auto simp: with_handle_def dest: on_lease_obj_inv)

lemma still_access: "still obj_step (access E what)"
  unfolding still_def
proof (intro allI)
  fix s X
  obtain es where "exec (access E what) s = s\<lparr>log := log s @ es\<rparr>" "es \<in> {[], [Mutex_lock (lock (cur s)), Mutex_unlock (lock (cur s))]}"
    using access_effect by blast
  then show "observe obj_step X (log (exec (access E what) s)) = observe obj_step X (log s)" by auto
qed

lemma sections_objects: "observe obj_step X (all_sections ps) = X"
proof -
  have "observe obj_step X (concat (map lease_section ps)) = X" by (induction ps) (simp_all add: lease_section_def)
  then show ?thesis by (simp add: all_sections_def)
qed

lemma datagram_obj_inv:
  assumes obj: "obj_inv E s" and run: "dmdhcp_handle_datagram E ifc payload s = Some (x, s')"
  shows "obj_inv E s'"
proof (cases "\<exists>m off. dmdhcp_parse_message payload True True = Inr (m, off) \<and> msg_op m = dmdhcp_op_bootreply")
  case False
  with run obj show ?thesis by (auto simp: dmdhcp_handle_datagram_def split: sum.splits if_splits)
next
  case True
  then obtain m off where m: "dmdhcp_parse_message payload True True = Inr (m, off)" "msg_op m = dmdhcp_op_bootreply" by blast
  with run obtain h s1 where f: "dmdhcp_lease_table_find_by_xid E ifc (msg_xid m) s = Some (h, s1)"
    by (auto simp: dmdhcp_handle_datagram_def bind_eq_Some_conv)
  have obj1: "obj_inv E s1"
    by (rule obj_inv_same [OF obj]) (use f in \<open>auto simp: dmdhcp_lease_table_find_by_xid_def sys_emit_def Let_def leases_def
        split: option.splits if_splits\<close>)
  show ?thesis
  proof (cases h)
    case None
    with run m f obj1 show ?thesis by (simp add: dmdhcp_handle_datagram_def)
  next
    case (Some p)
    with run m f obj1 show ?thesis
      by (auto simp: dmdhcp_handle_datagram_def Let_def split: sum.splits if_splits
          intro: on_lease_obj_inv [OF _ _ om.still_dispatch])
  qed
qed

lemma perform_obj_inv:
  assumes E: "env_ok E" "fresh_malloc E" and inv: "sys_inv E s" and obj: "obj_inv E s" and en: "enabled E s a"
    and run: "perform E a s = Some s'"
  shows "obj_inv E s'"
proof (cases a)
  case (Start ifc cbs ud options)
  then obtain r where r: "dmdhcp_start E ifc cbs ud options s = Some (r, s')" using run by auto
  obtain r' s1 where "dmdhcp_start E ifc cbs ud options s = Some (r', s1)"
      "case r' of None \<Rightarrow> leases E s1 = leases E s | Some p \<Rightarrow> leases E s1 = leases E s @ [p]"
    using start_inv [OF E inv, of ifc cbs ud options] by (auto split: option.splits)
  with start_objects [OF E inv obj r] r obj show ?thesis by (auto simp: obj_inv_def split: option.splits)
next
  case (Stop h)
  show ?thesis
  proof (cases h)
    case (Some p)
    with Stop en have p: "p \<in> set (leases E s)" by (simp add: usable_def)
    with Stop Some run stop_inv [OF E(1) inv p] stop_objects(1) [OF E(1) inv p] show ?thesis by (auto intro: obj_inv_remove [OF obj p])
  qed (use Stop run obj in \<open>simp add: dmdhcp_stop_def valid_handle_def\<close>)
next
  case (Release h)
  show ?thesis
  proof (cases h)
    case (Some p)
    with Release en have p: "p \<in> set (leases E s)" by (simp add: usable_def)
    with Release Some run release_inv [OF E(1) inv p] stop_objects(2) [OF E(1) inv p] show ?thesis
      by (auto intro: obj_inv_remove [OF obj p])
  qed (use Release run obj in \<open>simp add: dmdhcp_release_def valid_handle_def\<close>)
next
  case (Renew h)
  with run show ?thesis by (intro with_handle_obj_inv [OF obj _ om.still_calls_of_api(1)]) simp
next
  case (Set_callbacks h cbs ud)
  with run show ?thesis by (intro with_handle_obj_inv [OF obj _ om.still_calls_of_api(2)]) simp
next
  case (Access what h)
  with run show ?thesis by (intro with_handle_obj_inv [OF obj _ still_access]) simp
next
  case (Get_ntp_servers out n)
  with run obj reader_effect(1) [OF E(1) inv, of out n] show ?thesis
    by (auto simp: sections_objects leases_def simp del: perform.simps intro: obj_inv_same)
next
  case (Provide_dns add ctx)
  with run obj reader_effect(2) [OF E(1) inv, of add ctx] show ?thesis
    by (auto simp: sections_objects leases_def simp del: perform.simps intro: obj_inv_same)
next
  case (Provide_ntp add ctx)
  with run obj reader_effect(3) [OF E(1) inv, of add ctx] show ?thesis
    by (auto simp: sections_objects leases_def simp del: perform.simps intro: obj_inv_same)
next
  case (Datagram ifc payload)
  with run obj show ?thesis by (auto intro: datagram_obj_inv)
next
  case (Retransmit_expires p)
  with run obj show ?thesis by (auto simp del: handle.simps intro: on_lease_obj_inv om.still_handle)
next
  case (Lease_timer_expires p)
  with run obj show ?thesis by (auto simp del: handle.simps intro: on_lease_obj_inv om.still_handle)
qed

lemma reachable_obj_inv:
  assumes E: "env_ok E" "fresh_malloc E"
  shows "reachable E s \<Longrightarrow> obj_inv E s"
proof (induction rule: reachable.induct)
  case (opened s)
  then show ?case by (rule init_objects [OF E(1)])
next
  case (stepped s a s')
  then show ?case using perform_obj_inv [OF E reachable_sys_inv [OF E stepped.hyps(1)] stepped.IH] by (auto simp: step_iff)
qed

section \<open>Closing the module\<close>

lemma deinit_loop_objects:
  assumes E: "env_ok E"
  shows "sys_inv E s \<Longrightarrow> obj_inv E s \<Longrightarrow> n = length (leases E s) \<Longrightarrow> deinit_loop E n s = Some (x, s') \<Longrightarrow>
    objects s' = {Container Lease_list, Mutex Table_mutex}"
proof (induction n arbitrary: s)
  case 0
  then show ?case by (simp add: obj_inv_def)
next
  case (Suc n)
  then obtain p ps where pps: "leases E s = p # ps" by (cases "leases E s") simp_all
  obtain l where l: "heap s p = Some l" "lease_inv E p l" using sys_inv_lease [OF Suc.prems(1), of p] pps by auto
  then have h: "handles_ok p l" by (simp add: lease_inv_def)
  obtain s1 s2 s3 where s: "heap s1 = heap s" "slog s1 = slog s" "on_lease p (unapply_locked E) s1 = Some ((), s2)"
      "dmdhcp_lease_table_destroy E (Some p) s2 = Some ((), s3)" "\<And>n. deinit_loop E (Suc n) s = deinit_loop E n s3"
      "sys_inv E s3" "leases E s3 = ps"
    using deinit_step [OF E Suc.prems(1) pps] by metis
  have "heap s1 p = Some l" using s(1) l(1) by simp
  from final_objects [OF E this h om.still_final(1) unapply_locked_effect s(3,4)] have o: "objects s3 = objects s - own_objects p"
    by (simp add: s(2))
  have "distinct (leases E s)" using distinct_leases [of E "{}" s] Suc.prems(1) by (simp add: sys_inv_def)
  then have "leases E s3 = filter (\<lambda>q. q \<noteq> p) (leases E s)" using s(7) pps by (auto intro: filter_True [symmetric])
  then have "obj_inv E s3" by (intro obj_inv_remove [OF Suc.prems(2), of p]) (use pps o in simp_all)
  with Suc.IH [of s3] Suc.prems(3,4) s(5-7) pps show ?case by simp
qed

lemma deinit_objects:
  assumes E: "env_ok E" and inv: "sys_inv E s" and obj: "obj_inv E s" and run: "dmod_deinit E s = Some (r, s')"
  shows "objects s' = {}"
proof -
  let ?s = "s\<lparr>slog := slog s @ [Udp_unbind DMDHCP_CLIENT_PORT]\<rparr>"
  have inv1: "sys_inv E ?s" by (rule sys_inv_log [OF inv]) simp_all
  have obj1: "obj_inv E ?s" by (rule obj_inv_same [OF obj]) (simp_all add: leases_def)
  obtain t where t: "g_leases s = Some t" using inv core_invD(1) [of E "{}" s] by (auto simp: sys_inv_def)
  have n: "dmlist_size (tlist E) t = length (leases E ?s)" using t by (simp add: leases_def)
  obtain s1 where s1: "deinit_loop E (dmlist_size (tlist E) t) ?s = Some ((), s1)" "sys_inv E s1"
    using deinit_loop_inv [OF E inv1 n] by blast
  have m: "g_leases_mutex s1 = Some Table_mutex" using s1(2) core_invD(2) [of E "{}" s1] by (simp add: sys_inv_def)
  have "dmod_deinit E s = Some (Inr (), s1\<lparr>g_leases := None, g_leases_mutex := None,
      slog := slog s1 @ [List_destroy Lease_list, Mutex_destroy (Some Table_mutex)]\<rparr>)"
    using t s1(1) m by (simp add: dmod_deinit_def dmdhcp_lease_table_deinit_def dmdhcp_input_unregister_def sys_emit_def)
  with run have "slog s' = slog s1 @ [List_destroy Lease_list, Mutex_destroy (Some Table_mutex)]" by auto
  moreover have "objects s1 = {Container Lease_list, Mutex Table_mutex}" by (rule deinit_loop_objects [OF E inv1 obj1 n s1(1)])
  ultimately show ?thesis by simp
qed

end
