(* ===== verification/Dhcp_Module.thy ===== *)
theory Dhcp_Module
  imports Dhcp_Objects
begin

text \<open>
  The properties of the module as a whole: what holds in every reachable state, what each entry
  point does there, and that closing the module leaves nothing behind.
\<close>

section \<open>Every reachable state\<close>

text \<open>
  C1. The lease table. In every reachable state there is at most one lease per interface, exactly the
  leases in the table are allocated, and each of them is in its invariant: it has its
  lock, timers and lists; it is past initialisation; its interface is configured and has a
  default route only while the lease is valid; it has an IPv4 address in every state but
  selecting; the retransmission interval is between 4 and 64 s; at most 4 retries and 3
  declined addresses are counted before the lease fails; all its servers are IPv4.
\<close>

theorem table_invariant:
  assumes "env_ok E" and "fresh_malloc E" and "reachable E s"
  shows "distinct (map (iface_of s) (leases E s)) \<and> dom (heap s) = set (leases E s)
    \<and> (\<forall>p \<in> set (leases E s). \<exists>l. heap s p = Some l \<and> lease_inv E p l)"
proof -
  have inv: "sys_inv E s" by (rule reachable_sys_inv [OF assms])
  then have "distinct (map (iface_of s) (leases E s))" using core_invD(6) by (auto simp: sys_inv_def)
  moreover have "\<forall>p \<in> set (leases E s). \<exists>l. heap s p = Some l \<and> lease_inv E p l"
    using sys_inv_lease [OF inv] by metis
  ultimately show ?thesis using sys_inv_dom [OF inv] by blast
qed

theorem table_invariant_witness: "\<exists>l. heap sample_acquired 1 = Some l \<and> lease_inv silent_env 1 l"
  using table_invariant [OF silent_env_ok sample_reachable(2)] sample_acquired_run(2) by simp

text \<open>
  C2. No undefined behaviour. In every reachable state, every action the environment can take (an API call with NULL or
  with the handle of a lease that was not stopped or released, a datagram of any bytes on any
  interface, a running timer that fires) runs to its end without touching freed memory or the
  table before it exists, and leads to a reachable state.
\<close>

theorem no_undefined_behaviour:
  assumes "env_ok E" and "fresh_malloc E" and "reachable E s" and "enabled E s a"
  shows "\<exists>s'. step E a s s' \<and> reachable E s'"
  using run_actions_total [OF assms] assms(4) by (auto simp: step_iff)

theorem no_undefined_behaviour_witness:
  "\<exists>s'. step silent_env (Retransmit_expires 1) sample_started s' \<and> reachable silent_env s'"
  using no_undefined_behaviour [OF silent_env_ok sample_reachable(1), of "Retransmit_expires 1"] sample_started_run(5)
  by simp

text \<open>
  C10. Locks. Up to every reachable state every mutex was taken in the order of the lock hierarchy (the
  table's mutex before a lease's lock, never two leases' locks), so no two threads that keep to it can wait for each
  other; none was unlocked out of order or destroyed while held; no callback of the
  application ran and no timer was destroyed under a lock; and between two actions no lock
  is held.
\<close>

theorem lock_discipline_holds:
  assumes "env_ok E" and "fresh_malloc E" and "reachable E s"
  shows "observe lock_step (Some []) (slog s) = Some []"
  using reachable_sys_inv [OF assms] core_invD(7) by (auto simp: sys_inv_def)

theorem lock_discipline_holds_witness: "observe lock_step (Some []) (slog sample_acquired) = Some []"
  by (rule lock_discipline_holds [OF silent_env_ok sample_reachable(2)])

text \<open>
  C9. No lease is stuck and no timer dangles. In every reachable state each lease that has not failed has a
  running timer that will drive it: the retransmission timer in every state that waits for an
  answer, the lease timer in every state with a valid lease; and every running timer belongs to a
  lease in the table, so a timer never fires for a freed lease.
\<close>

theorem leases_not_stuck:
  assumes E: "env_ok E" "fresh_malloc E" and r: "reachable E s"
  shows "(\<forall>p \<in> set (leases E s). \<exists>l. heap s p = Some l \<and>
      (state l = dmdhcp_state_failed
       \<or> waiting (state l) \<and> snd (timer_view s (Retransmit_timer p))
       \<or> state l = dmdhcp_state_bound \<and> snd (timer_view s (Lease_timer p)))
      \<and> (holds_valid_lease l \<longrightarrow> snd (timer_view s (Lease_timer p))))
    \<and> (\<forall>t. snd (timer_view s t) \<longrightarrow> timer_owner t \<in> set (leases E s))"
proof (intro conjI ballI allI impI)
  fix p
  assume "p \<in> set (leases E s)"
  then obtain l where l: "heap s p = Some l" "lease_inv E p l" "timers_ok None (timer_view s) p l"
    by (rule sys_inv_lease [OF reachable_sys_inv [OF E r]])
  then have "state l \<noteq> dmdhcp_state_init" "state l \<noteq> dmdhcp_state_init_reboot" by (simp_all add: inv_defs)
  with l show "\<exists>l. heap s p = Some l \<and> (state l = dmdhcp_state_failed
       \<or> waiting (state l) \<and> snd (timer_view s (Retransmit_timer p))
       \<or> state l = dmdhcp_state_bound \<and> snd (timer_view s (Lease_timer p)))
      \<and> (holds_valid_lease l \<longrightarrow> snd (timer_view s (Lease_timer p)))"
    by (auto simp: timers_ok_def waiting_def holds_valid_lease_def)
next
  fix t
  assume "snd (timer_view s t)"
  then show "timer_owner t \<in> set (leases E s)"
    using reachable_sys_inv [OF E r] core_invD(12) [of E "{}" s t] by (simp add: sys_inv_def)
qed

theorem leases_not_stuck_witness: "\<not> snd (timer_view sample_acquired (Retransmit_timer 2))"
  using leases_not_stuck [OF silent_env_ok sample_reachable(2)] sample_acquired_run(2) by force

text \<open>
  C13. Memory and objects. In every reachable state the blocks that are allocated are those that the leases in the table
  hold: as many address entries as there are DNS and NTP servers, as many host names as
  leases with one, and no message buffer; and the mutexes, timers and lists that exist are the mutex, the two timers and the
  two lists of each lease in the table, and the table's own list and mutex.
\<close>

theorem no_leaks:
  assumes "env_ok E" and "fresh_malloc E" and "reachable E s"
  shows "observe live_step {} (slog s) = set (leases E s)
    \<and> balance Addr_entry (slog s) = (\<Sum>p \<in> set (leases E s). stored E (the (heap s p)))
    \<and> balance Hostname (slog s) = (\<Sum>p \<in> set (leases E s). named (the (heap s p)))
    \<and> balance Msg_buffer (slog s) = 0
    \<and> objects s = {Container Lease_list, Mutex Table_mutex} \<union> (\<Union>p \<in> set (leases E s). own_objects p)"
proof -
  have core: "core_inv E {} s" and dom: "dom (heap s) = set (leases E s)"
    using reachable_sys_inv [OF assms] by (simp_all add: sys_inv_def)
  from core_invD(4,9-11) [OF core] reachable_obj_inv [OF assms] show ?thesis unfolding dom obj_inv_def by blast
qed

theorem no_leaks_witness:
  "balance Msg_buffer (slog sample_acquired) = 0 \<and> observe live_step {} (slog sample_acquired) = {1}"
  using no_leaks [OF silent_env_ok sample_reachable(2)] sample_acquired_run(2) by simp

section \<open>Received datagrams\<close>

definition bootreply :: "u8 list option \<Rightarrow> (dmdhcp_message_t \<times> u8 list) option" where
  "bootreply payload =
     (case payload of
        None \<Rightarrow> None
      | Some b \<Rightarrow>
          (case dmdhcp_parse_message (Some b) True True of
             Inr (m, off) \<Rightarrow> if msg_op m = dmdhcp_op_bootreply then Some (m, drop off b) else None
           | Inl _ \<Rightarrow> None))"

definition message_type :: "u8 list \<Rightarrow> u8 option" where
  "message_type options = (case map_of (fst (tlv_decode options)) DMDHCP_OPT_MSG_TYPE of Some [ty] \<Rightarrow> Some ty | _ \<Rightarrow> None)"

definition owner :: "('l, 't) env \<Rightarrow> ('l, 't) sys \<Rightarrow> dmnetif_iface_t \<Rightarrow> u32 \<Rightarrow> lease_ptr option" where
  "owner E s ifc x = List.find (\<lambda>p. iface_of s p = ifc \<and> xid (the (heap s p)) = x) (leases E s)"

lemma message_type_find:
  "message_type options = (case dmdhcp_options_find (Some options) DMDHCP_OPT_MSG_TYPE True of
     Inl _ \<Rightarrow> None | Inr opt \<Rightarrow> if opt_length opt \<noteq> 1 then None else Some (the (opt_data opt) ! 0))"
proof (cases "dmdhcp_options_find (Some options) DMDHCP_OPT_MSG_TYPE True")
  case (Inl e)
  then show ?thesis by (simp add: message_type_def flip: found_bytes_decode) (simp add: found_bytes_def)
next
  case (Inr opt)
  have "wf_option opt" "opt_data opt \<noteq> None"
    using options_find_wf [OF Inr] by (simp_all add: opt_consts)
  then obtain d where d: "opt_data opt = Some d" "length (opt_bytes opt) = unat (opt_length opt)"
    by (auto simp: wf_option_def)
  have found: "map_of (fst (tlv_decode options)) DMDHCP_OPT_MSG_TYPE = Some (opt_bytes opt)"
    using Inr by (simp add: found_bytes_def flip: found_bytes_decode)
  show ?thesis
  proof (cases "opt_length opt = 1")
    case True
    with d obtain x where "opt_bytes opt = [x]" by (auto simp: length_Suc_conv)
    moreover from this d True have "d ! 0 = x" by (cases d) (auto simp: opt_bytes_def)
    ultimately show ?thesis using Inr found True d by (simp add: message_type_def)
  next
    case False
    then have "length (opt_bytes opt) \<noteq> 1" using d(2) by (metis unat_1 word_unat_eq_iff)
    then have "message_type options = None"
      using found by (auto simp: message_type_def split: list.splits)
    with Inr False show ?thesis by simp
  qed
qed

lemma datagram_eq:
  assumes E: "env_ok E" and inv: "sys_inv E s"
  shows "dmdhcp_handle_datagram E ifc payload s =
    (case bootreply payload of
       None \<Rightarrow> Some ((), s)
     | Some (m, options) \<Rightarrow>
         (case (owner E s ifc (msg_xid m), message_type options) of
            (Some p, Some ty) \<Rightarrow> on_lease p (handle E (Received ty m options)) (s\<lparr>slog := slog s @ table_section\<rparr>)
          | _ \<Rightarrow> Some ((), s\<lparr>slog := slog s @ table_section\<rparr>)))"
proof (cases "dmdhcp_parse_message payload True True")
  case (Inl e)
  then have "bootreply payload = None" by (cases payload) (simp_all add: bootreply_def)
  with Inl show ?thesis by (simp add: dmdhcp_handle_datagram_def)
next
  case (Inr r)
  obtain m off where r: "r = (m, off)" by (cases r)
  from Inr obtain b where b: "payload = Some b" by (cases payload) (simp_all add: dmdhcp_parse_message_def)
  have core: "core_inv E {} s" using inv by (simp add: sys_inv_def)
  have view: "wire_view m = m" using Inr r b by (auto intro: parsed_wire_view)
  note run = dmdhcp_handle_datagram_def Inr [unfolded b r] find_by_xid_eq [OF E core, folded owner_def] b bootreply_def
  show ?thesis
    by (cases "owner E s ifc (msg_xid m)") (simp_all add: run message_type_find view Let_def split: sum.splits)
qed

text \<open>
  C8. The receive path on any bytes. A payload that is not a well-formed BOOTREPLY changes nothing. A
  BOOTREPLY is dropped unless a lease on the same interface has its transaction id and
  the options hold a message type of one byte (according to the independent decoder of the option
  area); otherwise that lease, and no other, takes the protocol step for the message.
\<close>

theorem datagram_routing:
  assumes E: "env_ok E" "fresh_malloc E" and r: "reachable E s"
  shows "dmdhcp_handle_datagram E ifc payload s =
    (case bootreply payload of
       None \<Rightarrow> Some ((), s)
     | Some (m, options) \<Rightarrow>
         (case (owner E s ifc (msg_xid m), message_type options) of
            (Some p, Some ty) \<Rightarrow> on_lease p (handle E (Received ty m options)) (s\<lparr>slog := slog s @ table_section\<rparr>)
          | _ \<Rightarrow> Some ((), s\<lparr>slog := slog s @ table_section\<rparr>)))
    \<and> (\<exists>s'. dmdhcp_handle_datagram E ifc payload s = Some ((), s')
       \<and> (\<forall>q. (\<forall>m options. bootreply payload = Some (m, options) \<longrightarrow> owner E s ifc (msg_xid m) \<noteq> Some q)
            \<longrightarrow> heap s' q = heap s q))"
proof -
  have inv: "sys_inv E s" by (rule reachable_sys_inv [OF E r])
  obtain s' where s': "dmdhcp_handle_datagram E ifc payload s = Some ((), s')"
    using datagram_inv [OF E(1) inv] by blast
  have frame: "on_lease p mm t = Some (x, s') \<Longrightarrow> q \<noteq> p \<Longrightarrow> heap t q = heap s q \<Longrightarrow> heap s' q = heap s q"
    for p q x t and mm :: "('a, unit) lease_monad"
    by (auto simp: on_lease_def split: option.splits prod.splits)
  have "heap s' q = heap s q"
    if "\<forall>m options. bootreply payload = Some (m, options) \<longrightarrow> owner E s ifc (msg_xid m) \<noteq> Some q" for q
    using s' that unfolding datagram_eq [OF E(1) inv]
    by (auto split: option.splits prod.splits dest!: frame)
  with s' datagram_eq [OF E(1) inv] show ?thesis by blast
qed

theorem datagram_routing_witness:
  "\<exists>s'. dmdhcp_handle_datagram silent_env (Some 2) (Some [1, 2, 3]) sample_started = Some ((), s') \<and> heap s' 1 = heap sample_started 1"
proof -
  have "bootreply (Some [1, 2, 3]) = None" by (simp add: bootreply_def dmdhcp_parse_message_def wire_consts)
  with datagram_routing [OF silent_env_ok sample_reachable(1), of "Some 2" "Some [1, 2, 3]"] show ?thesis by auto
qed

section \<open>Starting, stopping and releasing\<close>

lemma performed_reachable:
  assumes E: "env_ok E" "fresh_malloc E" and r: "reachable E s" and a: "enabled E s a" "perform E a s = Some s'"
  shows "reachable E s'"
  using run_actions_total [OF E r a(1)] a(2) by auto

lemma start_reachable:
  assumes "env_ok E" "fresh_malloc E" "reachable E s" "dmdhcp_start E ifc cbs ud options s = Some (r, s')"
  shows "reachable E s'"
  using performed_reachable [OF assms(1-3), of "Start ifc cbs ud options" s'] assms(4) by simp

text \<open>The memory that is allocated is determined by the leases.\<close>

lemma memory_same:
  assumes inv: "sys_inv E s" "sys_inv E s'" and h: "heap s' = heap s"
  shows "observe live_step {} (slog s') = observe live_step {} (slog s)" "balance k (slog s') = balance k (slog s)"
proof -
  have core: "core_inv E {} s" "core_inv E {} s'" using inv by (simp_all add: sys_inv_def)
  show "observe live_step {} (slog s') = observe live_step {} (slog s)"
    using core_invD(4) [OF core(1)] core_invD(4) [OF core(2)] h by simp
  show "balance k (slog s') = balance k (slog s)"
    using core_invD(9-11) [OF core(1)] core_invD(9-11) [OF core(2)] h by (cases k) simp_all
qed

text \<open>
  C14. \<open>dmdhcp_start()\<close>. It returns NULL in these cases and no others: the interface is NULL, it already has a lease,
  the creation of the lease, its mutex, one of its two lists or one of its two timers failed in this call, or the table's
  container refused the new lease. Then the table and every lease are as they were, and so are the existing objects, leases and
  blocks of memory: nothing leaks. In every other case it returns the new lease, last in the table and within the invariant (with its mutex, lists and
  timers), on the given interface, with
  the caller's callbacks and user data, in state rebooting when an IPv4 address is requested and
  else in selecting; its host name is a copy of the caller's, made after its objects were created. When there is no memory for
  the copy, and only then, the lease is returned without the host name: that is no failure.
\<close>

theorem start_result:
  assumes E: "env_ok E" "fresh_malloc E" and r: "reachable E s"
  shows "\<exists>r s'. dmdhcp_start E ifc cbs ud options s = Some (r, s') \<and> reachable E s'
    \<and> (r = None \<longleftrightarrow> ifc = None \<or> ifc \<in> iface_of s ` set (leases E s) \<or> failures (slog s') \<noteq> failures (slog s) \<or> refused E s)
    \<and> (case r of
         None \<Rightarrow> leases E s' = leases E s \<and> heap s' = heap s \<and> objects s' = objects s
           \<and> observe live_step {} (slog s') = observe live_step {} (slog s) \<and> (\<forall>k. balance k (slog s') = balance k (slog s))
       | Some p \<Rightarrow> p \<notin> set (leases E s) \<and> leases E s' = leases E s @ [p] \<and> iface_of s' p = ifc
           \<and> objects s' = objects s \<union> own_objects p
           \<and> (\<exists>l. heap s' = (heap s)(p := Some l) \<and> lease_inv E p l \<and> state l = first_state options
               \<and> callbacks l = (case cbs of None \<Rightarrow> no_callbacks | Some c \<Rightarrow> c) \<and> user_data l = ud
               \<and> hostname l = host_copy E (slog s @ creation_calls p) options))"
proof -
  obtain r s' where s': "dmdhcp_start E ifc cbs ud options s = Some (r, s')"
    and post: "case r of
         None \<Rightarrow> leases E s' = leases E s \<and> heap s' = heap s
           \<and> (ifc = None \<or> ifc \<in> iface_of s ` set (leases E s) \<or> \<not> resources E)
       | Some p \<Rightarrow> p \<notin> set (leases E s) \<and> leases E s' = leases E s @ [p] \<and> iface_of s' p = ifc
           \<and> ifc \<noteq> None \<and> ifc \<notin> iface_of s ` set (leases E s)
           \<and> (\<exists>l. heap s' = (heap s)(p := Some l) \<and> state l = first_state options
               \<and> callbacks l = (case cbs of None \<Rightarrow> no_callbacks | Some c \<Rightarrow> c) \<and> user_data l = ud
               \<and> hostname l = host_copy E (slog s @ creation_calls p) options)"
    using start_inv [OF E reachable_sys_inv [OF E r], of ifc cbs ud options] by (elim exE conjE) (rule that)
  note obj = start_objects [OF E reachable_sys_inv [OF E r] reachable_obj_inv [OF E r] s']
  note r' = start_reachable [OF E r s']
  note inv' = reachable_sys_inv [OF E r']
  show ?thesis
  proof (cases r)
    case None
    with post have "heap s' = heap s" by simp
    with None post obj r' memory_same [OF reachable_sys_inv [OF E r] inv'] s' show ?thesis by simp
  next
    case (Some p)
    with post obtain l where l: "heap s' = (heap s)(p := Some l)" "leases E s' = leases E s @ [p]" "state l = first_state options"
        "callbacks l = (case cbs of None \<Rightarrow> no_callbacks | Some c \<Rightarrow> c)" "user_data l = ud" "hostname l = host_copy E (slog s @ creation_calls p) options"
      by auto
    then have "lease_inv E p l" using sys_inv_lease [OF inv', of p] by auto
    with Some post obj r' s' l show ?thesis by (intro exI [of _ r] exI [of _ s']) auto
  qed
qed

theorem start_result_witness:
  "\<exists>s'. dmdhcp_start silent_env (Some 1) None None None sample_started = Some (None, s') \<and> leases silent_env s' = [1]"
  using start_result [OF silent_env_ok sample_reachable(1), of "Some 1" None None None] sample_started_run(2,4) by auto

text \<open>One lease is taken out of the table and destroyed with all that belongs to it, and nothing else is.\<close>

definition taken_down :: "('l, 't) env \<Rightarrow> lease_ptr \<Rightarrow> ('l, 't) sys \<Rightarrow> ('l, 't) sys \<Rightarrow> bool" where
  "taken_down E p s s' \<longleftrightarrow>
     leases E s' = filter (\<lambda>q. q \<noteq> p) (leases E s) \<and> heap s' = (heap s)(p := None)
   \<and> observe live_step {} (slog s') = observe live_step {} (slog s) - {p}
   \<and> objects s' = objects s - {Mutex (Lease_lock p), Timer (Retransmit_timer p), Timer (Lease_timer p),
       Container (Dns_list p), Container (Ntp_list p)}
   \<and> balance Addr_entry (slog s') = balance Addr_entry (slog s) - stored E (the (heap s p))
   \<and> balance Hostname (slog s') = balance Hostname (slog s) - named (the (heap s p))
   \<and> balance Msg_buffer (slog s') = balance Msg_buffer (slog s)
   \<and> \<not> snd (timer_view s' (Retransmit_timer p)) \<and> \<not> snd (timer_view s' (Lease_timer p))"

lemma taken_downI:
  assumes inv: "sys_inv E s" "sys_inv E s'" and p: "p \<in> set (leases E s)"
    and ls: "leases E s' = filter (\<lambda>q. q \<noteq> p) (leases E s)" and h: "heap s' = (heap s)(p := None)"
    and obj: "objects s' = objects s - own_objects p"
  shows "taken_down E p s s'"
proof -
  have core: "core_inv E {} s" "core_inv E {} s'" using inv by (simp_all add: sys_inv_def)
  note c = core_invD [OF core(1)] and c' = core_invD [OF core(2)]
  obtain l where l: "heap s p = Some l" by (rule sys_inv_lease [OF inv(1) p])
  have "\<not> snd (timer_view s' t)" if "timer_owner t = p" for t using c'(12) [of t] h that by auto
  moreover have "observe live_step {} (slog s') = observe live_step {} (slog s) - {p}" using c(4) c'(4) h by auto
  moreover have "balance Addr_entry (slog s') = balance Addr_entry (slog s) - stored E l"
    "balance Hostname (slog s') = balance Hostname (slog s) - named l"
    using c(9,10) c'(9,10) h sum_delete [OF c(3) l, of "stored E"] sum_delete [OF c(3) l, of named] by simp_all
  moreover have "balance Msg_buffer (slog s') = balance Msg_buffer (slog s)" using c(11) c'(11) by simp
  ultimately show ?thesis using ls h obj l by (simp add: taken_down_def own_objects_def)
qed

text \<open>
  C15. \<open>dmdhcp_stop()\<close> and \<open>dmdhcp_release()\<close> on the handle of a lease in the table
  take it out of the table, stop its timers, free the lease and everything it owns, and nothing else: its mutex, its two timers and its two lists are
  destroyed, its address entries (one for each of its DNS and NTP servers) and its host name are freed, and no message buffer is left. Every other lease is as it
  was. On NULL they do nothing, and release returns -EINVAL.
\<close>

theorem stop_and_release:
  assumes E: "env_ok E" "fresh_malloc E" and r: "reachable E s" and p: "p \<in> set (leases E s)"
  shows "(\<exists>s'. dmdhcp_stop E (Some p) s = Some ((), s') \<and> reachable E s' \<and> taken_down E p s s')
    \<and> (\<exists>s'. dmdhcp_release E (Some p) s = Some (Inr (), s') \<and> reachable E s' \<and> taken_down E p s s')
    \<and> dmdhcp_stop E None s = Some ((), s) \<and> dmdhcp_release E None s = Some (Inl EINVAL, s)"
proof -
  have inv: "sys_inv E s" by (rule reachable_sys_inv [OF E r])
  have "reachable E s'" if "dmdhcp_stop E (Some p) s = Some ((), s')" for s'
    using performed_reachable [OF E r, of "Stop (Some p)" s'] that p by (simp add: usable_def)
  moreover have "reachable E s'" if "dmdhcp_release E (Some p) s = Some (Inr (), s')" for s'
    using performed_reachable [OF E r, of "Release (Some p)" s'] that p by (simp add: usable_def)
  ultimately show ?thesis
    using stop_inv [OF E(1) inv p] release_inv [OF E(1) inv p] stop_objects [OF E(1) inv p] taken_downI [OF inv _ p]
    by (auto simp: dmdhcp_stop_def [of E None] dmdhcp_release_def [of E None] valid_handle_def)
qed

theorem stop_and_release_witness:
  "\<exists>s'. dmdhcp_release silent_env (Some 1) sample_acquired = Some (Inr (), s') \<and> leases silent_env s' = []"
  using stop_and_release [OF silent_env_ok sample_reachable(2), of 1] sample_acquired_run(2) by (auto simp: taken_down_def)

text \<open>
  C16. \<open>dmod_deinit()\<close> from any reachable state frees every lease, address entry, host name and
  message buffer, releases every lock and stops every timer, and no mutex, timer or list is left.
\<close>

theorem deinit_frees_all:
  assumes "env_ok E" and "fresh_malloc E" and "reachable E s"
  shows "\<exists>s'. dmod_deinit E s = Some (Inr (), s') \<and> nothing_left s' \<and> objects s' = {}"
  using deinit_inv [OF assms(1) reachable_sys_inv [OF assms]]
    deinit_objects [OF assms(1) reachable_sys_inv [OF assms] reachable_obj_inv [OF assms]] by blast

theorem deinit_frees_all_witness: "\<exists>s'. dmod_deinit silent_env sample_acquired = Some (Inr (), s') \<and> nothing_left s' \<and> objects s' = {}"
  by (rule deinit_frees_all [OF silent_env_ok sample_reachable(2)])

text \<open>
  C36. The command \<open>dhcpc\<close>: -EINVAL without a name, -ENODEV for an unknown interface, else it starts a
  lease, and fails with -EALREADY, changing no lease, when the interface already has one, and also when the lease cannot be created
  because memory or another resource is missing.
\<close>

theorem dhcpc_result:
  fixes argv :: "string option list"
  assumes E: "env_ok E" "fresh_malloc E" and r: "reachable E s"
  defines "ifc \<equiv> env_find_by_name E (slog s) (the (argv ! 1))"
  shows "\<exists>r s'. dhcpc_main E argc argv s = Some (r, s') \<and> reachable E s'
    \<and> (if argc < 2 \<or> argv ! 1 = None \<or> argv ! 1 = Some [] then r = Inl EINVAL \<and> s' = s
       else if ifc = None then r = Inl ENODEV \<and> s' = s
       else if ifc \<in> iface_of s ` set (leases E s) then r = Inl EALREADY \<and> heap s' = heap s
       else r = Inr () \<and> (\<exists>p. leases E s' = leases E s @ [p] \<and> iface_of s' p = ifc)
         \<or> r = Inl EALREADY \<and> heap s' = heap s \<and> \<not> resources E)"
proof (cases "argc < 2 \<or> argv ! 1 = None \<or> argv ! 1 = Some [] \<or> ifc = None")
  case True
  with r show ?thesis by (auto simp: dhcpc_main_def ifc_def Let_def)
next
  case False
  obtain h s' where h: "dmdhcp_start E ifc None None None s = Some (h, s')"
    and post: "case h of
         None \<Rightarrow> leases E s' = leases E s \<and> heap s' = heap s
           \<and> (ifc = None \<or> ifc \<in> iface_of s ` set (leases E s) \<or> \<not> resources E)
       | Some p \<Rightarrow> p \<notin> set (leases E s) \<and> leases E s' = leases E s @ [p] \<and> iface_of s' p = ifc
           \<and> ifc \<noteq> None \<and> ifc \<notin> iface_of s ` set (leases E s)
           \<and> (\<exists>l. heap s' = (heap s)(p := Some l) \<and> state l = first_state None
               \<and> callbacks l = (case None of None \<Rightarrow> no_callbacks | Some c \<Rightarrow> c) \<and> user_data l = None
               \<and> hostname l = host_copy E (slog s @ creation_calls p) None)"
    using start_inv [OF E reachable_sys_inv [OF E r], of ifc None None None] by (elim exE conjE) (rule that)
  have main: "dhcpc_main E argc argv s = Some (if h = None then Inl EALREADY else Inr (), s')"
    using False h by (simp add: dhcpc_main_def Let_def ifc_def)
  show ?thesis
  proof (cases h)
    case None
    with main post False start_reachable [OF E r h] show ?thesis by auto
  next
    case (Some p)
    with main post False start_reachable [OF E r h] show ?thesis by simp
  qed
qed

theorem dhcpc_result_witness:
  "\<exists>s'. dhcpc_main silent_env 2 [Some ''dhcpc'', Some ''eth0''] sample_started = Some (Inl EALREADY, s')"
proof -
  have "env_find_by_name silent_env h n = Some 1" for h n by (simp add: silent_env_def sample_env_def)
  with dhcpc_result [OF silent_env_ok sample_reachable(1), of 2 "[Some ''dhcpc'', Some ''eth0'']"] sample_started_run(2,4)
  show ?thesis by auto
qed

section \<open>Readers of the table\<close>

text \<open>
  C33. \<open>dmdhcp_get_ntp_servers()\<close> writes the NTP servers of the leases that are bound, renewing or rebinding,
  in the order of the table and of each lease's list, and at most \<open>max_count\<close> of them; no lease is changed.
  Without a buffer, or with room for none, it returns -EINVAL.
\<close>

theorem ntp_servers_reported:
  assumes E: "env_ok E" "fresh_malloc E" and r: "reachable E s"
  shows "\<exists>s'. dmdhcp_get_ntp_servers E out n s =
      Some (if out \<and> 0 < n then Inr (take n (concat (map (\<lambda>p. valid_ntp E (the (heap s p))) (leases E s)))) else Inl EINVAL, s')
    \<and> heap s' = heap s \<and> leases E s' = leases E s"
proof (cases "out \<and> 0 < n")
  case True
  with get_ntp_servers_eq [OF E(1) reachable_sys_inv [OF E r], of n] show ?thesis by (auto simp: leases_def)
next
  case False
  then have "dmdhcp_get_ntp_servers E out n s = Some (Inl EINVAL, s)" by (auto simp: dmdhcp_get_ntp_servers_def)
  with False show ?thesis by auto
qed

lemma sample_valid:
  "valid_ntp silent_env (the (heap sample_acquired 1)) = [addr_v4 (10, 0, 0, 1)]"
  "valid_dns silent_env (the (heap sample_acquired 1)) = [addr_v4 (8, 8, 8, 8)]"
proof -
  obtain l where "heap sample_acquired 1 = Some l" "state l = dmdhcp_state_bound"
    "dns_servers l = Some [addr_v4 (8, 8, 8, 8)]" "ntp_servers l = Some [addr_v4 (10, 0, 0, 1)]"
    by (rule sample_acquired_lease)
  then show "valid_ntp silent_env (the (heap sample_acquired 1)) = [addr_v4 (10, 0, 0, 1)]"
    "valid_dns silent_env (the (heap sample_acquired 1)) = [addr_v4 (8, 8, 8, 8)]"
    by (simp_all add: valid_ntp_def valid_dns_def holds_valid_lease_def silent_env_def)
qed

theorem ntp_servers_reported_witness:
  "\<exists>s'. dmdhcp_get_ntp_servers silent_env True 3 sample_acquired = Some (Inr [addr_v4 (10, 0, 0, 1)], s')"
  using ntp_servers_reported [OF silent_env_ok sample_reachable(2), of True 3] sample_acquired_run(2) sample_valid by auto

text \<open>
  C34. The DNS provider calls the sink for every DNS server of every valid lease and for no other, in the order
  of the table; the NTP provider does the same for the IPv4 bytes of the NTP servers until the sink asks to stop, and
  then goes on with the next lease. Both leave the leases as they are.
\<close>

theorem providers_report_valid_leases:
  assumes E: "env_ok E" "fresh_malloc E" and r: "reachable E s"
  shows "(\<exists>s'. dmdns_provide_servers E (Some add) ctx s =
        Some (foldl add ctx (concat (map (\<lambda>p. valid_dns E (the (heap s p))) (leases E s))), s') \<and> heap s' = heap s)
    \<and> (\<exists>s'. dmntp_provide_servers E (Some add4) ctx4 s =
        Some (foldl (\<lambda>c p. visit_until add4 c (map v4 (valid_ntp E (the (heap s p))))) ctx4 (leases E s), s') \<and> heap s' = heap s)"
  by (simp add: provide_dns_eq [OF E(1) reachable_sys_inv [OF E r]] provide_ntp_eq [OF E(1) reachable_sys_inv [OF E r]])

theorem providers_report_valid_leases_witness:
  "\<exists>s'. dmdns_provide_servers silent_env (Some (\<lambda>c a. a # c)) [] sample_acquired = Some ([addr_v4 (8, 8, 8, 8)], s')"
  using providers_report_valid_leases [OF silent_env_ok sample_reachable(2), where add = "\<lambda>c a. a # c" and ctx = "[]",
      THEN conjunct1] sample_acquired_run(2) sample_valid by auto

lemma count_first: "visit_until (\<lambda>k _. (True, Suc k)) k xs = (if xs = [] then k else Suc k)"
  by (cases xs) simp_all

text \<open>
  A sink that asks the NTP provider to stop at once is still called once for every valid lease that has
  NTP servers: the stop ends the loop over one lease only.
\<close>

lemma ntp_stop_ends_one_lease:
  assumes E: "env_ok E" "fresh_malloc E" and r: "reachable E s"
  shows "\<exists>s'. dmntp_provide_servers E (Some (\<lambda>k _. (True, Suc k))) 0 s =
    Some (length (filter (\<lambda>p. valid_ntp E (the (heap s p)) \<noteq> []) (leases E s)), s')"
proof -
  have "foldl (\<lambda>c p. visit_until (\<lambda>k _. (True, Suc k)) c (map v4 (valid_ntp E (the (heap s p))))) k ps
      = k + length (filter (\<lambda>p. valid_ntp E (the (heap s p)) \<noteq> []) ps)" for k ps
    by (induction ps arbitrary: k) (simp_all add: count_first)
  then show ?thesis by (simp add: provide_ntp_eq [OF E(1) reachable_sys_inv [OF E r]])
qed

section \<open>The table as a map\<close>

text \<open>
  C25. The lease table implements a map from interfaces to leases. \<open>find_by_iface\<close> is lookup; \<open>insert\<close> of
  an allocated lease that is not in the table adds it under its interface, or fails without
  effect, with -EEXIST exactly when the interface is taken; \<open>remove\<close> deletes that lease's entry and no
  other.
\<close>

theorem table_refines_map:
  assumes E: "env_ok E" and s: "consistent E s"
  shows "(\<exists>s'. dmdhcp_lease_table_find_by_iface E k s = Some (table_view E s k, s') \<and> table_view E s' = table_view E s)
    \<and> (insertable E s p \<longrightarrow> (\<exists>r s'. dmdhcp_lease_table_insert E p s = Some (r, s')
        \<and> (case r of
             Inr _ \<Rightarrow> table_view E s (iface_of s p) = None \<and> table_view E s' = (table_view E s)(iface_of s p \<mapsto> p)
           | Inl e \<Rightarrow> table_view E s' = table_view E s \<and> (e = EEXIST \<longleftrightarrow> table_view E s (iface_of s p) \<noteq> None))))
    \<and> (\<exists>s'. dmdhcp_lease_table_remove E q s = Some ((), s') \<and> table_view E s' =
        (if table_view E s (iface_of s q) = Some q then (table_view E s)(iface_of s q := None) else table_view E s))"
  using table.find_view [of E s k] table.insert_view [of E s p] table.remove_view [of E s q] E s by blast

theorem table_refines_map_witness:
  "\<exists>s'. dmdhcp_lease_table_remove silent_env 1 sample_started = Some ((), s') \<and> table_view silent_env s' (Some 1) = None"
proof -
  have "consistent silent_env sample_started"
    using reachable_sys_inv [OF silent_env_ok sample_reachable(1)] by (auto simp: consistent_def sys_inv_def)
  moreover have "table_view silent_env sample_started (Some 1) = Some 1" "iface_of sample_started 1 = Some 1"
    using sample_started_run(2,4) by (simp_all add: table_view_def)
  ultimately show ?thesis
    using table_refines_map [OF silent_env_ok(1), of sample_started None 1 1] by auto
qed

end
