(* ===== verification/Dhcp_Network.thy ===== *)
theory Dhcp_Network
  imports Dhcp_Runs Dhcp_Frame "HOL-Library.Multiset"
begin

text \<open>
  What the handlers of one lease do to the network, on a platform whose interface and route calls
  succeed: they keep the configuration of the lease's interface equal to what the lease asks for, touch no other
  interface, and give up no route the lease still owns. The contract is the interface
  \<open>net_handler\<close>; the first section has the code that makes no network call.
\<close>

section \<open>Code that leaves the network alone\<close>

lemma net_mutex [simp]: "net_step n (Mutex_create m ok) = n" "net_step n (Timer_create t p ok) = n"
  by simp_all

interpretation net_frame: bystander net_step
proof
  fix e m
  assume "own_call e"
  then show "net_step m e = m" by (cases e) simp_all
qed

lemma still_seed: "still net_step (seed_lease E cbs ud options)"
  unfolding seed_lease_def by (intro net_frame.still_rules) simp_all

lemma still_create: "still net_step (create_fields E ifc)"
  unfolding create_fields_def create_lock_def create_dns_list_def create_ntp_list_def create_timers_def
    dmdhcp_output_create_retransmit_timer_def dmdhcp_lifecycle_create_lease_timer_def
  by (intro net_frame.still_rules) simp_all

lemma still_destroy: "still net_step (destroy_fields E context)"
  unfolding destroy_fields_def destroy_timer_def
  by (intro net_frame.still_rules net_frame.still_clear) simp_all

section \<open>The contract of a handler\<close>

definition blank :: ifcfg where
  "blank = \<lparr>if_ip = addr_none, if_netmask = addr_none, if_broadcast = addr_none\<rparr>"

definition lease_cfg :: "'l lease \<Rightarrow> ifcfg" where
  "lease_cfg l = \<lparr>if_ip = offered_ip l, if_netmask = netmask l,
     if_broadcast = (if family (netmask l) = dmroute_family_v4
       then addr_v4 (broadcast_v4 (v4 (offered_ip l)) (v4 (netmask l))) else addr_none)\<rparr>"

text \<open>The configuration \<open>c\<close> of its interface is what the lease asks for.\<close>

definition mirrors :: "ifcfg \<Rightarrow> 'l lease \<Rightarrow> bool" where
  "mirrors c l \<longleftrightarrow> iface_configured l = holds_valid_lease l
     \<and> c = (if holds_valid_lease l then lease_cfg l else blank)
     \<and> (default_route l \<noteq> None \<longleftrightarrow> holds_valid_lease l \<and> family (gateway l) = dmroute_family_v4)"

text \<open>The route a lease owns, as a multiset: platforms may give out one handle twice.\<close>

definition owned :: "'l lease \<Rightarrow> dmroute_route_t multiset" where
  "owned l = (case default_route l of None \<Rightarrow> {#} | Some r \<Rightarrow> {#r#})"

definition reconfigures :: "'l lctx \<Rightarrow> 'l lctx \<Rightarrow> bool" where
  "reconfigures s s' \<longleftrightarrow> iface (cur s') = iface (cur s) \<and>
     (\<forall>n. mirrors (ifs (net n s) (iface (cur s))) (cur s) \<longrightarrow>
       (\<exists>c. ifs (net n s') = (ifs (net n s))(iface (cur s) := c) \<and> mirrors c (cur s'))
       \<and> mset (routes (net n s)) + owned (cur s') \<subseteq># mset (routes (net n s')) + owned (cur s))"

locale net_handler =
  fixes E :: "('l, 't) env"
    and handler :: "('l, 'a) lease_monad"
  assumes reconfigures_net: "env_ok E \<Longrightarrow> netif_up E \<Longrightarrow> lease_inv E (self s) (cur s) \<Longrightarrow>
    reconfigures s (exec handler s)"
begin

lemma mirrors_kept:
  assumes "env_ok E" "netif_up E" "lease_inv E (self s) (cur s)"
    and "mirrors (ifs (net n s) (iface (cur s))) (cur s)"
  shows "mirrors (ifs (net n (exec handler s)) (iface (cur s))) (cur (exec handler s))"
    and "i \<noteq> iface (cur s) \<Longrightarrow> ifs (net n (exec handler s)) i = ifs (net n s) i"
  using reconfigures_net [OF assms(1-3)] assms(4) by (auto simp: reconfigures_def)

end

text \<open>A handler that makes no network call and changes nothing the configuration depends on.\<close>

lemma reconfigures_same:
  assumes "\<And>n. net n s' = net n s" and "iface (cur s') = iface (cur s)"
    and "holds_valid_lease (cur s') = holds_valid_lease (cur s)"
    and "iface_configured (cur s') = iface_configured (cur s)" "default_route (cur s') = default_route (cur s)"
    and "holds_valid_lease (cur s) \<Longrightarrow> offered_ip (cur s') = offered_ip (cur s) \<and> netmask (cur s') = netmask (cur s)
      \<and> gateway (cur s') = gateway (cur s)"
  shows "reconfigures s s'"
  using assms by (auto simp: reconfigures_def mirrors_def lease_cfg_def owned_def)


section \<open>The handlers keep the contract\<close>

text \<open>What applying a lease does to the network.\<close>

lemma apply_calls_net:
  assumes "r \<noteq> None \<longleftrightarrow> family (gateway l) = dmroute_family_v4"
  shows "ifs (observe net_step n (apply_calls E l r)) = (ifs n)(iface l := \<lparr>if_ip = offered_ip l, if_netmask = netmask l,
      if_broadcast = (if family (netmask l) = dmroute_family_v4
        then addr_v4 (broadcast_v4 (v4 (offered_ip l)) (v4 (netmask l))) else if_broadcast (ifs n (iface l)))\<rparr>)"
    and "routes (observe net_step n (apply_calls E l r)) = (case r of None \<Rightarrow> [] | Some r \<Rightarrow> [r]) @ routes n"
  using assms by (auto simp: apply_calls_def split: option.splits)

text \<open>
  An application that ends in the bound state: from no valid lease, or from a valid one whose
  netmask was not taken away.
\<close>

lemma reconfigures_apply:
  assumes net: "\<And>n. net n s' = observe net_step (net n s) (apply_calls E l r)"
    and l: "iface l = iface (cur s)"
      "cur s' = l\<lparr>default_route := r, iface_configured := True, state := dmdhcp_state_bound, decline_retry_count := 0\<rparr>"
    and r: "r \<noteq> None \<longleftrightarrow> family (gateway l) = dmroute_family_v4"
    and mask: "holds_valid_lease (cur s) \<Longrightarrow> family (netmask l) = dmroute_family_v4 \<or> netmask l = netmask (cur s)"
  shows "reconfigures s s'"
  unfolding reconfigures_def
proof (intro conjI allI impI)
  fix n
  assume m: "mirrors (ifs (net n s) (iface (cur s))) (cur s)"
  have "if_broadcast (ifs (net n s) (iface l)) = addr_none" if "family (netmask l) \<noteq> dmroute_family_v4"
    using m mask that l(1) by (auto simp: mirrors_def blank_def lease_cfg_def split: if_splits)
  then have "ifs (net n s') = (ifs (net n s))(iface (cur s) := lease_cfg (cur s'))"
    unfolding net apply_calls_net(1) [OF r] using l by (simp add: lease_cfg_def)
  moreover have "mirrors (lease_cfg (cur s')) (cur s')"
    using l r by (simp add: mirrors_def holds_valid_lease_def)
  ultimately show "\<exists>c. ifs (net n s') = (ifs (net n s))(iface (cur s) := c) \<and> mirrors c (cur s')" by blast
  show "mset (routes (net n s)) + owned (cur s') \<subseteq># mset (routes (net n s')) + owned (cur s)"
    unfolding net apply_calls_net(2) [OF r] using l(2) by (cases r) (simp_all add: owned_def)
qed (use l in simp)

text \<open>Taking a lease back.\<close>

lemma unapply_net:
  assumes up: "netif_up E" and m: "mirrors (ifs (net n s) (iface (cur s))) (cur s)"
  shows "ifs (net n (exec (dmdhcp_lifecycle_unapply E) s)) = (ifs (net n s))(iface (cur s) := blank)"
    and "mset (routes (net n s)) \<subseteq># mset (routes (net n (exec (dmdhcp_lifecycle_unapply E) s))) + owned (cur s)"
proof -
  have "ifs (net n (exec (dmdhcp_lifecycle_unapply E) s)) = (ifs (net n s))(iface (cur s) := blank)
    \<and> mset (routes (net n s)) \<subseteq># mset (routes (net n (exec (dmdhcp_lifecycle_unapply E) s))) + owned (cur s)"
  proof (cases "iface_configured (cur s)")
    case True
    have "M \<subseteq># add_mset r (M - {#r#})" for M and r :: dmroute_route_t by (simp add: subseteq_mset_def)
    with True show ?thesis
      by (cases "default_route (cur s)") (auto simp: unapply_up [OF up True] blank_def owned_def)
  next
    case False
    with m have "ifs (net n s) (iface (cur s)) = blank" by (simp add: mirrors_def)
    with False show ?thesis by (auto simp: dmdhcp_lifecycle_unapply_def run_simps)
  qed
  then show "ifs (net n (exec (dmdhcp_lifecycle_unapply E) s)) = (ifs (net n s))(iface (cur s) := blank)"
    and "mset (routes (net n s)) \<subseteq># mset (routes (net n (exec (dmdhcp_lifecycle_unapply E) s))) + owned (cur s)"
    by blast+
qed

lemma net_bind_still: "(\<And>x. still net_step (f x)) \<Longrightarrow> net n (exec (State_Monad.bind m f) s) = net n (exec m s)"
  by (simp add: run_simps stillD)

lemma lost_net:
  "net n (exec (dmdhcp_lifecycle_handle_lost E) s)
     = net n (exec (dmdhcp_lifecycle_unapply E) (s\<lparr>log := log s @ [Mutex_lock (lock (cur s))]\<rparr>))"
proof -
  have rest: "still net_step (do { p \<leftarrow> getself;
       (case fst x of None \<Rightarrow> State_Monad.return () | Some f \<Rightarrow> emit (Call_on_expired f p (snd x)));
       handle_lost_restart E })" for x
    by (intro net_frame.still_rules net_frame.still_restart) simp
  have tear: "still net_step (do { dmdhcp_lease_table_clear_ntp_servers E;
       on_expired \<leftarrow> getl (\<lambda>l. on_expired_or_lost (callbacks l));
       ud \<leftarrow> getl user_data;
       unlock_lease;
       State_Monad.return (on_expired, ud) })"
    by (intro net_frame.still_rules net_frame.still_clear)
  have "net n (exec (dmdhcp_lifecycle_handle_lost E) s) = net n (exec (handle_lost_teardown E) s)"
    unfolding dmdhcp_lifecycle_handle_lost_def by (rule net_bind_still) (use rest in \<open>simp add: case_prod_beta\<close>)
  also have "\<dots> = net n (exec (dmdhcp_lifecycle_unapply E) (s\<lparr>log := log s @ [Mutex_lock (lock (cur s))]\<rparr>))"
    unfolding handle_lost_teardown_def exec_bind [of lock_lease] run_lock by (rule net_bind_still) (rule tear)
  finally show ?thesis .
qed

lemma reconfigures_idle:
  assumes "lease_inv E p (cur s)" "lease_inv E p (cur s')" "\<not> holds_valid_lease (cur s)" "\<not> holds_valid_lease (cur s')"
    and "iface (cur s') = iface (cur s)" "\<And>n. net n s' = net n s"
  shows "reconfigures s s'"
  using assms by (intro reconfigures_same) (auto simp: inv_defs)

lemma lost_reconfigures:
  assumes E: "env_ok E" and up: "netif_up E" and valid: "holds_valid_lease (cur s)"
  shows "reconfigures s (exec (dmdhcp_lifecycle_handle_lost E) s)"
proof -
  let ?s = "s\<lparr>log := log s @ [Mutex_lock (lock (cur s))]\<rparr>"
  let ?l = "cur (exec (dmdhcp_lifecycle_handle_lost E) s)"
  have l: "state ?l = dmdhcp_state_selecting" "iface ?l = iface (cur s)" "\<not> iface_configured ?l"
    "default_route ?l = (if iface_configured (cur s) then None else default_route (cur s))"
    using handle_lost_effect [OF E, of s] by auto
  show ?thesis
    unfolding reconfigures_def lost_net
  proof (intro conjI allI impI)
    fix n
    assume m: "mirrors (ifs (net n s) (iface (cur s))) (cur s)"
    then have "iface_configured (cur s)" using valid by (simp add: mirrors_def)
    with l have "mirrors blank ?l" "owned ?l = {#}" by (simp_all add: mirrors_def holds_valid_lease_def owned_def)
    then show "\<exists>c. ifs (net n (exec (dmdhcp_lifecycle_unapply E) ?s)) = (ifs (net n s))(iface (cur s) := c) \<and> mirrors c ?l"
      and "mset (routes (net n s)) + owned ?l \<subseteq># mset (routes (net n (exec (dmdhcp_lifecycle_unapply E) ?s))) + owned (cur s)"
      using unapply_net [OF up, of n ?s] m by auto
  qed (rule l(2))
qed

lemma probe_reconfigures:
  assumes up: "netif_up E" and inv: "lease_inv E (self s) (cur s)"
    and st: "state (cur s) \<in> {dmdhcp_state_checking_offer, dmdhcp_state_checking_ack}"
  shows "reconfigures s (exec (retransmit_timer_callback E) s)"
proof -
  have m: "magic (cur s) = DMDHCP_LEASE_MAGIC" using inv by (simp add: inv_defs)
  have idle: "\<not> holds_valid_lease (cur s)" using st by (auto simp: holds_valid_lease_def)
  define s1 where "s1 = s\<lparr>log := log s @ [Mutex_lock (lock (cur s))]\<rparr>"
  have s1: "net n s1 = net n s" "cur s1 = cur s" for n by (simp_all add: s1_def)
  have run: "exec (retransmit_timer_callback E) s = exec unlock_lease (exec (run_conflict_probe E) s1)"
    using retransmit_probe_effect [OF m st] by (simp add: s1_def)
  show ?thesis
  proof (cases "isl (env_arp_resolve E (log s1) (iface (cur s1)) (offered_ip (cur s1)))")
    case False
    with handle_conflict_effect [of E "s1\<lparr>log := log s1 @ [Arp_resolve (iface (cur s1)) (offered_ip (cur s1)) 1000 (Inr ())]\<rparr>"]
      idle s1 show ?thesis
      by (auto intro!: reconfigures_same simp: run probe_conflict_effect run_simps holds_valid_lease_def error_call_def
          split: if_splits option.splits)
  next
    case True
    from st show ?thesis
    proof (elim insertE emptyE)
      assume "state (cur s) = dmdhcp_state_checking_offer"
      with probe_offer_effect [OF True] s1 idle show ?thesis
        by (auto intro!: reconfigures_same simp: run run_simps holds_valid_lease_def)
    next
      assume "state (cur s) = dmdhcp_state_checking_ack"
      then have "state (cur s1) = dmdhcp_state_checking_ack" using s1(2) by simp
      from probe_ack_effect [OF True this] obtain es r ok where
        p: "exec (run_conflict_probe E) s1 = s1\<lparr>cur := (cur s1)\<lparr>default_route := r, iface_configured := ok,
              state := dmdhcp_state_bound, decline_retry_count := 0\<rparr>,
            log := log s1 @ es @ armed (lease_timer (cur s1)) (t1_period (cur s1))
              @ Mutex_unlock (lock (cur s1)) # bound_call False s1 @ [Mutex_lock (lock (cur s1))]\<rparr>"
        and "netif_up E \<longrightarrow> ok \<and> (\<forall>n. observe net_step n es = observe net_step n (apply_calls E (cur s1) r))
          \<and> (r \<noteq> None \<longleftrightarrow> family (gateway (cur s1)) = dmroute_family_v4)"
        by (elim exE conjE) (rule that)
      with up s1(2) have ok: ok and es: "\<And>n. observe net_step n es = observe net_step n (apply_calls E (cur s) r)"
        and r: "r \<noteq> None \<longleftrightarrow> family (gateway (cur s)) = dmroute_family_v4" by simp_all
      have bc: "observe net_step n (bound_call False s1) = n" for n by (simp add: bound_call_def split: option.splits)
      have "net n (exec (retransmit_timer_callback E) s) = observe net_step (net n s) (apply_calls E (cur s) r)" for n
        by (simp add: run p es bc s1 run_simps)
      then show ?thesis
        by (rule reconfigures_apply [OF _ _ _ r]) (use idle ok in \<open>simp_all add: run p s1(2) run_simps\<close>)
    qed
  qed
qed

lemma retransmit_reconfigures:
  assumes E: "env_ok E" and up: "netif_up E" and inv: "lease_inv E (self s) (cur s)"
  shows "reconfigures s (exec (retransmit_timer_callback E) s)"
proof -
  have m: "magic (cur s) = DMDHCP_LEASE_MAGIC" using inv by (simp add: inv_defs)
  let ?s = "s\<lparr>log := log s @ [Mutex_lock (lock (cur s))]\<rparr>"
  consider "state (cur s) \<in> {dmdhcp_state_selecting, dmdhcp_state_renewing, dmdhcp_state_rebinding}"
    | "state (cur s) \<in> {dmdhcp_state_requesting, dmdhcp_state_rebooting}" "retransmit_count (cur s) + 1 \<le> 4"
    | "state (cur s) \<in> {dmdhcp_state_requesting, dmdhcp_state_rebooting}" "retransmit_count (cur s) + 1 > 4"
    | "state (cur s) = dmdhcp_state_declining"
    | "state (cur s) \<in> {dmdhcp_state_checking_offer, dmdhcp_state_checking_ack}"
    | "state (cur s) \<in> {dmdhcp_state_bound, dmdhcp_state_failed, dmdhcp_state_init, dmdhcp_state_init_reboot}"
    by (cases "state (cur s)"; cases "retransmit_count (cur s) + 1 \<le> 4") (auto simp: not_le)
  then show ?thesis
  proof cases
    case 1
    with retransmit_resend_effect [OF m, of "retransmit_count (cur s)" E] show ?thesis
      by (auto intro!: reconfigures_same simp: holds_valid_lease_def)
  next
    case 2
    with retransmit_resend_effect [OF m, of "retransmit_count (cur s) + 1" E] show ?thesis
      by (auto intro!: reconfigures_same simp: holds_valid_lease_def)
  next
    case 3
    with handle_lost_restart_effect [OF E, of "s\<lparr>cur := (cur s)\<lparr>retransmit_count := retransmit_count (cur s) + 1\<rparr>\<rparr>"]
      retransmit_restart_effect(2) [OF m, of E] show ?thesis
      by (auto intro!: reconfigures_same simp: holds_valid_lease_def)
  next
    case 4
    with handle_lost_restart_effect [OF E, of s] retransmit_restart_effect(1) [OF m, of E] show ?thesis
      by (auto intro!: reconfigures_same simp: holds_valid_lease_def)
  next
    case 5
    then show ?thesis by (rule probe_reconfigures [OF up inv])
  next
    case 6
    then have "exec (retransmit_timer_callback E) s = s\<lparr>log := log s @ [Mutex_lock (lock (cur s)), Mutex_unlock (lock (cur s))]\<rparr>"
      using m by (auto simp: retransmit_timer_callback_def run_simps)
    then show ?thesis by (auto intro: reconfigures_same)
  qed
qed

lemma lease_timer_reconfigures:
  assumes E: "env_ok E" and up: "netif_up E" and inv: "lease_inv E (self s) (cur s)"
  shows "reconfigures s (exec (lease_timer_callback E) s)"
proof -
  have m: "magic (cur s) = DMDHCP_LEASE_MAGIC" using inv by (simp add: inv_defs)
  let ?s = "s\<lparr>log := log s @ [Mutex_lock (lock (cur s))]\<rparr>"
  show ?thesis
  proof (cases "state (cur s)")
    case dmdhcp_state_bound
    with m start_renew_effect [of E ?s] show ?thesis
      by (auto intro!: reconfigures_same simp: lease_timer_callback_def run_simps holds_valid_lease_def)
  next
    case dmdhcp_state_renewing
    with m start_rebind_effect [of E ?s] show ?thesis
      by (auto intro!: reconfigures_same simp: lease_timer_callback_def run_simps holds_valid_lease_def)
  next
    case dmdhcp_state_rebinding
    let ?t = "s\<lparr>log := log s @ [Mutex_lock (lock (cur s)), Mutex_unlock (lock (cur s))]\<rparr>"
    have "exec (lease_timer_callback E) s = exec (dmdhcp_lifecycle_handle_lost E) ?t"
      using m dmdhcp_state_rebinding by (simp add: lease_timer_callback_def run_simps)
    with dmdhcp_state_rebinding lost_reconfigures [OF E up, of ?t] show ?thesis
      by (simp add: holds_valid_lease_def reconfigures_def)
  qed (auto intro!: reconfigures_same simp: m lease_timer_callback_def run_simps)
qed

lemma dispatch_reconfigures:
  assumes E: "env_ok E" and up: "netif_up E" and inv: "lease_inv E (self s) (cur s)"
  shows "reconfigures s (exec (dispatch_message E ty (wire_view m) options) s)"
proof -
  note h = inv_numbers(5,6) [OF inv]
  consider "\<not> expected ty (state (cur s))"
    | st' where "ty = 2 \<and> state (cur s) = dmdhcp_state_selecting \<and> st' = dmdhcp_state_checking_offer
      \<or> ty = 5 \<and> state (cur s) \<in> {dmdhcp_state_requesting, dmdhcp_state_rebooting} \<and> st' = dmdhcp_state_checking_ack"
    | "ty = 6" "state (cur s) \<in> {dmdhcp_state_requesting, dmdhcp_state_rebooting}"
    | "ty = 5" "state (cur s) \<in> {dmdhcp_state_renewing, dmdhcp_state_rebinding}"
    | "ty = 6" "state (cur s) \<in> {dmdhcp_state_renewing, dmdhcp_state_rebinding}"
    by (auto simp: expected_def)
  then show ?thesis
  proof cases
    case 1
    then show ?thesis by (auto intro!: reconfigures_same simp: dispatch_ignored_effect)
  next
    case (2 st')
    with dispatch_offer_effect [OF E h 2, of "wire_view m" options] show ?thesis
      by (auto intro!: reconfigures_same simp: holds_valid_lease_def populated_def)
  next
    case 3
    with handle_lost_restart_effect [OF E, of s] show ?thesis
      by (auto intro!: reconfigures_same simp: dispatch_nak_effect [OF E] holds_valid_lease_def)
  next
    case 4
    from dispatch_renewed_effect [OF E h 4(2), of "wire_view m" options] obtain es fs dns ntp r ok where
      run: "exec (dispatch_message E 5 (wire_view m) options) s
      = s\<lparr>cur := (populated (wire_view m) options dns ntp (cur s))\<lparr>default_route := r, iface_configured := ok,
             state := dmdhcp_state_bound, decline_retry_count := 0\<rparr>,
          log := log s @ Mutex_lock (lock (cur s)) # es @ fs
            @ armed (lease_timer (cur s)) (t1_period (populated (wire_view m) options dns ntp (cur s)))
            @ Mutex_unlock (lock (cur s)) # bound_call True s\<rparr>"
      and es: "heap_only (stored E (populated (wire_view m) options dns ntp (cur s)) - stored E (cur s)) es"
      and "netif_up E \<longrightarrow> ok \<and> fs = apply_calls E (populated (wire_view m) options dns ntp (cur s)) r
         \<and> (r \<noteq> None \<longleftrightarrow> family (router_value options) = dmroute_family_v4)"
      by (elim exE conjE) (rule that)
    with up have ok: ok and fs: "fs = apply_calls E (populated (wire_view m) options dns ntp (cur s)) r"
      and r: "r \<noteq> None \<longleftrightarrow> family (router_value options) = dmroute_family_v4" by simp_all
    let ?l = "populated (wire_view m) options dns ntp (cur s)"
    have l: "iface ?l = iface (cur s)" "gateway ?l = router_value options"
      "netmask ?l = addr_value options DMDHCP_OPT_SUBNET_MASK (netmask (cur s))" by (simp_all add: populated_def)
    have bc: "observe net_step n (bound_call True s) = n" for n by (simp add: bound_call_def split: option.splits)
    have "net n (exec (dispatch_message E ty (wire_view m) options) s) = observe net_step (net n s) (apply_calls E ?l r)" for n
      using es 4(1) by (simp add: run bc fs)
    then show ?thesis
      by (rule reconfigures_apply) (use r ok 4(1) in \<open>simp_all add: run l addr_value_def split: option.splits\<close>)
  next
    case 5
    let ?t = "s\<lparr>log := log s @ [Mutex_lock (lock (cur s)), Mutex_unlock (lock (cur s))]\<rparr>"
    have "holds_valid_lease (cur ?t)" using 5(2) by (auto simp: holds_valid_lease_def)
    with 5 lost_reconfigures [OF E up, of ?t] show ?thesis
      by (simp add: dispatch_lost_effect reconfigures_def)
  qed
qed

lemma renew_reconfigures:
  assumes inv: "lease_inv E (self s) (cur s)"
  shows "reconfigures s (exec (dmdhcp_renew E) s)"
proof (cases "state (cur s) = dmdhcp_state_bound")
  case True
  with renew_effect [OF inv_numbers(4) [OF inv] True, of E] show ?thesis
    by (auto intro!: reconfigures_same simp: holds_valid_lease_def)
next
  case False
  with inv_numbers(4) [OF inv] show ?thesis
    by (auto intro!: reconfigures_same simp: dmdhcp_renew_def run_simps)
qed

interpretation retransmit_net: net_handler E "retransmit_timer_callback E" for E
  by unfold_locales (rule retransmit_reconfigures)

interpretation lease_timer_net: net_handler E "lease_timer_callback E" for E
  by unfold_locales (rule lease_timer_reconfigures)

interpretation received_net: net_handler E "dispatch_message E ty (wire_view m) options" for E ty m options
  by unfold_locales (rule dispatch_reconfigures)

interpretation renew_net: net_handler E "dmdhcp_renew E" for E
  by unfold_locales (rule renew_reconfigures)

text \<open>A timer that fires is no network call.\<close>

lemma fired_reconfigures:
  "reconfigures (s\<lparr>log := log s @ [Timer_fired t]\<rparr>) s' \<Longrightarrow> reconfigures s s'"
  by (simp add: reconfigures_def)

lemma handle_reconfigures:
  assumes E: "env_ok E" "netif_up E" and inv: "lease_inv E (self s) (cur s)"
  shows "reconfigures s (exec (handle E tr) s)"
proof (cases tr)
  case Retransmit_fired
  then show ?thesis
    using retransmit_net.reconfigures_net [OF E, of "s\<lparr>log := log s @ [Timer_fired (Retransmit_timer (self s))]\<rparr>"] inv
    by (auto simp: run_simps intro: fired_reconfigures)
next
  case Lease_timer_fired
  then show ?thesis
    using lease_timer_net.reconfigures_net [OF E, of "s\<lparr>log := log s @ [Timer_fired (Lease_timer (self s))]\<rparr>"] inv
    by (auto simp: run_simps intro: fired_reconfigures)
next
  case (Received ty m options)
  then show ?thesis using received_net.reconfigures_net [OF E inv] by simp
next
  case Renew_called
  then show ?thesis using renew_net.reconfigures_net [OF E inv] by (simp add: run_simps)
qed

interpretation trigger_net: net_handler E "handle E tr" for E tr
  by unfold_locales (rule handle_reconfigures)

end
