(* ===== verification/Dhcp_Configured.thy ===== *)
theory Dhcp_Configured
  imports Dhcp_Network
begin

text \<open>
  The interfaces as the leases configure them. In every reachable state of the module, on a platform whose
  interface and route calls succeed, an interface with a valid lease has exactly that lease's address,
  netmask and broadcast address, its default route is installed, and every other interface has none.
\<close>

section \<open>The network of the whole module\<close>

abbreviation net_view :: "('l, 't) sys \<Rightarrow> netcfg" where
  "net_view s \<equiv> observe net_step no_net (slog s)"

definition routes_of :: "('l, 't) env \<Rightarrow> ('l, 't) sys \<Rightarrow> dmroute_route_t multiset" where
  "routes_of E s = sum_list (map (\<lambda>p. owned (the (heap s p))) (leases E s))"

definition net_inv :: "('l, 't) env \<Rightarrow> ('l, 't) sys \<Rightarrow> bool" where
  "net_inv E s \<longleftrightarrow> (\<forall>p \<in> set (leases E s). mirrors (ifs (net_view s) (iface_of s p)) (the (heap s p)))
     \<and> (\<forall>i. i \<notin> iface_of s ` set (leases E s) \<longrightarrow> ifs (net_view s) i = blank)
     \<and> routes_of E s \<subseteq># mset (routes (net_view s))"

lemma other_iface:
  assumes "sys_inv E s" "p \<in> set (leases E s)" "q \<in> set (leases E s)" "q \<noteq> p"
  shows "iface_of s q \<noteq> iface_of s p"
  using assms core_invD(6) [of E "{}" s] by (auto simp: sys_inv_def distinct_map inj_on_def)

text \<open>The routes of the other leases, with the one of \<open>p\<close> added.\<close>

lemma routes_of_split:
  assumes "distinct ps" and "p \<in> set ps"
  shows "sum_list (map (\<lambda>q. owned (the (h q))) ps)
      = owned (the (h p)) + sum_list (map (\<lambda>q. owned (the (h q))) (filter (\<lambda>q. q \<noteq> p) ps))"
  using assms
proof (induction ps)
  case (Cons q ps)
  have "filter (\<lambda>q. q \<noteq> p) ps = ps" if "p \<notin> set ps" using that by (auto intro: filter_True)
  with Cons show ?case by (cases "q = p") (auto simp: add.left_commute)
qed simp

lemma sum_list_owned_cong:
  "(\<And>q. q \<in> set ps \<Longrightarrow> h' q = h q) \<Longrightarrow>
    sum_list (map (\<lambda>q. owned (the (h' q))) ps) = sum_list (map (\<lambda>q. owned (the (h q))) ps)"
  by (simp cong: map_cong)

lemma on_lease_net:
  assumes inv: "sys_inv E s" and net: "net_inv E s" and p: "heap s p = Some l"
    and run: "on_lease p m s = Some (x, s')"
    and r: "reconfigures \<lparr>self = p, cur = l, log = slog s\<rparr> (exec m \<lparr>self = p, cur = l, log = slog s\<rparr>)"
  shows "net_inv E s'"
proof -
  let ?c = "\<lparr>self = p, cur = l, log = slog s\<rparr>"
  have s': "leases E s' = leases E s" "heap s' = (heap s)(p := Some (cur (exec m ?c)))" "slog s' = log (exec m ?c)"
    using on_leaseD [OF run, of E] p by auto
  have pl: "p \<in> set (leases E s)" using inv p by (auto simp: sys_inv_def)
  have d: "distinct (leases E s)" using inv distinct_leases by (auto simp: sys_inv_def)
  have ip: "iface_of s p = iface l" by (simp add: iface_of_def p)
  have "mirrors (ifs (net_view s) (iface l)) l" using net pl p ip by (auto simp: net_inv_def)
  then obtain c where c: "ifs (net_view s') = (ifs (net_view s))(iface l := c)" "mirrors c (cur (exec m ?c))"
    and i: "iface (cur (exec m ?c)) = iface l"
    and R: "mset (routes (net_view s)) + owned (cur (exec m ?c)) \<subseteq># mset (routes (net_view s')) + owned l"
    using r s'(3) by (auto simp: reconfigures_def)
  have ifc: "iface_of s' q = iface_of s q" for q using s'(2) i p by (simp add: iface_of_def)
  have "mirrors (ifs (net_view s') (iface_of s' q)) (the (heap s' q))" if "q \<in> set (leases E s)" for q
  proof (cases "q = p")
    case True
    with c s'(2) ip ifc show ?thesis by simp
  next
    case False
    with net that c(1) s'(2) ifc ip other_iface [OF inv pl that False] show ?thesis by (auto simp: net_inv_def)
  qed
  moreover have "ifs (net_view s') j = blank" if "j \<notin> iface_of s ` set (leases E s)" for j
  proof -
    have "j \<noteq> iface l" using that pl ip by (metis image_eqI)
    with net that c(1) show ?thesis by (simp add: net_inv_def)
  qed
  moreover have "routes_of E s' \<subseteq># mset (routes (net_view s'))"
  proof -
    define rest where "rest = sum_list (map (\<lambda>q. owned (the (heap s q))) (filter (\<lambda>q. q \<noteq> p) (leases E s)))"
    have "routes_of E s = owned l + rest" unfolding routes_of_def rest_def using routes_of_split [OF d pl, of "heap s"] p by simp
    then have "owned l + rest \<subseteq># mset (routes (net_view s))" using net by (simp add: net_inv_def)
    then have "owned l + rest + owned (cur (exec m ?c)) \<subseteq># mset (routes (net_view s)) + owned (cur (exec m ?c))"
      by (rule mset_subset_eq_mono_add) simp
    with R have "owned l + rest + owned (cur (exec m ?c)) \<subseteq># mset (routes (net_view s')) + owned l"
      by (rule subset_mset.order_trans [rotated])
    then have "rest + owned (cur (exec m ?c)) \<subseteq># mset (routes (net_view s'))"
      by (metis add.commute add.left_commute mset_subset_eq_mono_add_right_cancel)
    moreover have "sum_list (map (\<lambda>q. owned (the (heap s' q))) (filter (\<lambda>q. q \<noteq> p) (leases E s))) = rest"
      unfolding rest_def by (rule sum_list_owned_cong) (use s'(2) in simp)
    moreover have "the (heap s' p) = cur (exec m ?c)" using s'(2) by simp
    moreover note routes_of_split [OF d pl, of "heap s'"]
    ultimately show ?thesis by (simp add: routes_of_def s'(1) add.commute)
  qed
  ultimately show ?thesis by (simp add: net_inv_def s'(1) ifc)
qed

lemma removed_net:
  assumes inv: "sys_inv E s" and net: "net_inv E s" and p: "p \<in> set (leases E s)"
    and s': "leases E s' = filter (\<lambda>q. q \<noteq> p) (leases E s)" "heap s' = (heap s)(p := None)"
      "ifs (net_view s') = (ifs (net_view s))(iface_of s p := blank)"
      "mset (routes (net_view s)) \<subseteq># mset (routes (net_view s')) + owned (the (heap s p))"
  shows "net_inv E s'"
proof -
  have d: "distinct (leases E s)" using inv distinct_leases by (auto simp: sys_inv_def)
  have same: "iface_of s' q = iface_of s q" if "q \<noteq> p" for q using that s'(2) by (simp add: iface_of_def)
  have "mirrors (ifs (net_view s') (iface_of s' q)) (the (heap s' q))" if "q \<in> set (leases E s')" for q
  proof -
    have "q \<in> set (leases E s)" "q \<noteq> p" using that s'(1) by auto
    with net s'(2,3) same other_iface [OF inv p, of q] show ?thesis by (auto simp: net_inv_def)
  qed
  moreover have "ifs (net_view s') i = blank" if "i \<notin> iface_of s' ` set (leases E s')" for i
  proof (cases "i = iface_of s p")
    case True
    with s'(3) show ?thesis by simp
  next
    case False
    have "i \<notin> iface_of s ` set (leases E s)"
    proof
      assume "i \<in> iface_of s ` set (leases E s)"
      then obtain q where "q \<in> set (leases E s)" "i = iface_of s q" by blast
      moreover have "q \<noteq> p" using calculation False by blast
      ultimately have "q \<in> set (leases E s')" "i = iface_of s' q" using s'(1) same by simp_all
      with that show False by blast
    qed
    with False net s'(3) show ?thesis by (simp add: net_inv_def)
  qed
  moreover have "routes_of E s' \<subseteq># mset (routes (net_view s'))"
  proof -
    have "sum_list (map (\<lambda>q. owned (the (heap s' q))) (filter (\<lambda>q. q \<noteq> p) (leases E s)))
        = sum_list (map (\<lambda>q. owned (the (heap s q))) (filter (\<lambda>q. q \<noteq> p) (leases E s)))"
      by (rule sum_list_owned_cong) (use s'(2) in simp)
    then have "owned (the (heap s p)) + routes_of E s' = routes_of E s"
      unfolding routes_of_def s'(1) using routes_of_split [OF d p, of "heap s"] by simp
    then have "owned (the (heap s p)) + routes_of E s' \<subseteq># mset (routes (net_view s'))  + owned (the (heap s p))"
      using net s'(4) subset_mset.order_trans by (auto simp: net_inv_def)
    then show ?thesis by (metis add.commute mset_subset_eq_mono_add_right_cancel)
  qed
  ultimately show ?thesis by (simp add: net_inv_def)
qed

section \<open>Operations on the table\<close>

text \<open>A last section under the lease's lock that takes the configuration back.\<close>

definition takes_back :: "('l, unit) lease_monad \<Rightarrow> bool" where
  "takes_back m \<longleftrightarrow> (\<forall>s n. mirrors (ifs (net n s) (iface (cur s))) (cur s) \<longrightarrow>
     ifs (net n (exec m s)) = (ifs (net n s))(iface (cur s) := blank)
     \<and> mset (routes (net n s)) \<subseteq># mset (routes (net n (exec m s))) + owned (cur s))"

lemma takes_back_sections:
  assumes "netif_up E"
  shows "takes_back (unapply_locked E)" "takes_back (release_locked E)"
proof -
  have skip: "net n (exec (if iface_configured (cur s) then dmdhcp_lifecycle_unapply E else State_Monad.return ()) s)
      = net n (exec (dmdhcp_lifecycle_unapply E) s)" for n s
    by (auto simp: dmdhcp_lifecycle_unapply_def run_simps)
  show "takes_back (unapply_locked E)"
    unfolding takes_back_def
  proof (intro allI impI)
    fix s :: "'a lctx" and n
    let ?s = "s\<lparr>log := log s @ [Mutex_lock (lock (cur s))]\<rparr>"
    assume m: "mirrors (ifs (net n s) (iface (cur s))) (cur s)"
    have "net n (exec (unapply_locked E) s) = net n (exec (dmdhcp_lifecycle_unapply E) ?s)"
      using skip [of n ?s] by (simp add: unapply_locked_def run_simps)
    with unapply_net [OF assms, of n ?s] m
    show "ifs (net n (exec (unapply_locked E) s)) = (ifs (net n s))(iface (cur s) := blank)
      \<and> mset (routes (net n s)) \<subseteq># mset (routes (net n (exec (unapply_locked E) s))) + owned (cur s)" by simp
  qed
  show "takes_back (release_locked E)"
    unfolding takes_back_def
  proof (intro allI impI)
    fix s :: "'a lctx" and n
    let ?s = "s\<lparr>log := log s @ [Mutex_lock (lock (cur s))]\<rparr>"
    assume m: "mirrors (ifs (net n s) (iface (cur s))) (cur s)"
    obtain es where es: "exec (dmdhcp_output_send_release E) ?s = ?s\<lparr>log := log ?s @ es\<rparr>" "heap_only 0 es"
      using sender_effects(7) by blast
    define t where "t = s\<lparr>log := log ?s @ (if family (offered_ip (cur s)) = dmroute_family_v4
      \<and> family (server_id (cur s)) = dmroute_family_v4 then es else [])\<rparr>"
    have t: "cur t = cur s" "net n t = net n s" using es(2) by (simp_all add: t_def)
    have "net n (exec (release_locked E) s) = net n (exec (dmdhcp_lifecycle_unapply E) t)"
      using skip [of n t] es(1) by (auto simp: release_locked_def run_simps t_def)
    with unapply_net [OF assms, of n t] m t
    show "ifs (net n (exec (release_locked E) s)) = (ifs (net n s))(iface (cur s) := blank)
      \<and> mset (routes (net n s)) \<subseteq># mset (routes (net n (exec (release_locked E) s))) + owned (cur s)" by simp
  qed
qed

lemma remove_same:
  assumes "dmdhcp_lease_table_remove E p s = Some (u, s')"
  shows "heap s' = heap s" "net_view s' = net_view s"
  using assms by (auto simp: dmdhcp_lease_table_remove_def sys_emit_def Let_def split: option.splits)

lemma insert_same:
  assumes "dmdhcp_lease_table_insert E p s = Some (u, s')"
  shows "net_view s' = net_view s"
  using assms
  by (auto simp: dmdhcp_lease_table_insert_def sys_emit_def Let_def split: option.splits if_splits prod.splits)

lemma destroy_same:
  assumes "dmdhcp_lease_table_destroy E (Some p) s = Some (u, s')"
  shows "net_view s' = net_view s"
proof -
  from assms obtain x s1 where "on_lease p (destroy_fields E dmdhcp_teardown_context_normal) s = Some (x, s1)" "slog s' = slog s1"
    by (auto simp: dmdhcp_lease_table_destroy_def dmdhcp_lease_table_destroy_with_context_def bind_eq_Some_conv)
  with on_lease_still [OF _ still_destroy] show ?thesis by metis
qed

lemma create_same:
  assumes "dmdhcp_lease_table_create E ifc s = Some (r, s')"
  shows "net_view s' = net_view s"
proof (cases "env_malloc_lease E (slog s)")
  case None
  with assms show ?thesis by (auto simp: dmdhcp_lease_table_create_def sys_emit_def)
next
  case (Some p)
  let ?s = "s\<lparr>heap := (heap s)(p := Some zero_lease), slog := slog s @ [Malloc_lease (Some p)]\<rparr>"
  have "s\<lparr>slog := slog s @ [Malloc_lease (Some p)], heap := (heap s)(p := Some zero_lease)\<rparr> = ?s" by simp
  with Some assms obtain ok s1 where s1: "on_lease p (create_fields E ifc) ?s = Some (ok, s1)"
    and s': "s' = s1 \<or> (\<exists>u. dmdhcp_lease_table_destroy E (Some p) s1 = Some (u, s'))"
    by (auto simp: dmdhcp_lease_table_create_def sys_emit_def Let_def bind_eq_Some_conv split: if_splits)
  have "net_view s1 = net_view s" using on_lease_still [OF s1 still_create] by simp
  with s' destroy_same show ?thesis by metis
qed

lemma start_same:
  assumes "dmdhcp_start E ifc cbs ud options s = Some (r, s')"
  shows "net_view s' = net_view s"
proof (cases "ifc = None")
  case True
  with assms show ?thesis by (simp add: dmdhcp_start_def)
next
  case False
  with assms obtain r1 s1 where c: "dmdhcp_lease_table_create E ifc s = Some (r1, s1)"
    and rest: "(case r1 of None \<Rightarrow> Some (None, s1) | Some p \<Rightarrow> do {
             (_, s) \<leftarrow> on_lease p (seed_lease E cbs ud options) s1;
             (result, s) \<leftarrow> dmdhcp_lease_table_insert E p s;
             (if isl result
              then do { (_, s) \<leftarrow> dmdhcp_lease_table_destroy E (Some p) s; Some (None, s) }
              else do { (_, s) \<leftarrow> on_lease p (begin_acquire E options) s; Some (Some p, s) }) }) = Some (r, s')"
    by (auto simp: dmdhcp_start_def bind_eq_Some_conv)
  show ?thesis
  proof (cases r1)
    case None
    with rest create_same [OF c] show ?thesis by simp
  next
    case (Some p)
    with rest obtain u s2 res s3 where s2: "on_lease p (seed_lease E cbs ud options) s1 = Some (u, s2)"
      and s3: "dmdhcp_lease_table_insert E p s2 = Some (res, s3)"
      and s4: "(\<exists>v. dmdhcp_lease_table_destroy E (Some p) s3 = Some (v, s'))
        \<or> (\<exists>v. on_lease p (begin_acquire E options) s3 = Some (v, s'))"
      by (auto simp: bind_eq_Some_conv split: if_splits)
    have "net_view s3 = net_view s"
      using create_same [OF c] on_lease_still [OF s2 still_seed] insert_same [OF s3] by simp
    with s4 destroy_same on_lease_still [OF _ net_frame.still_acquire] show ?thesis by metis
  qed
qed

text \<open>A last section and the destruction of the lease, from a state of the invariant.\<close>

lemma final_net:
  assumes inv: "sys_inv E s" and net: "net_inv E s" and p: "p \<in> set (leases E s)" and m: "takes_back m"
    and s1: "heap s1 = heap s" "net_view s1 = net_view s"
    and run: "on_lease p m s1 = Some (x, s2)" "dmdhcp_lease_table_destroy E (Some p) s2 = Some (y, s3)"
    and s3: "leases E s3 = filter (\<lambda>q. q \<noteq> p) (leases E s)" "heap s3 = (heap s)(p := None)"
  shows "net_inv E s3"
proof -
  obtain l where l: "heap s p = Some l" by (rule sys_inv_lease [OF inv p])
  have ip: "iface_of s p = iface l" by (simp add: iface_of_def l)
  let ?c = "\<lparr>self = p, cur = l, log = slog s1\<rparr>"
  have s2: "slog s2 = log (exec m ?c)" using run(1) l s1(1) by (auto simp: on_lease_eq [of s1 p l] Let_def)
  have "mirrors (ifs (net_view s) (iface l)) l" using net p l ip by (auto simp: net_inv_def)
  then have "ifs (net_view s2) = (ifs (net_view s))(iface l := blank)
      \<and> mset (routes (net_view s)) \<subseteq># mset (routes (net_view s2)) + owned l"
    using m [unfolded takes_back_def, rule_format, of no_net ?c] s1(2) s2 by simp
  with destroy_same [OF run(2)] removed_net [OF inv net p s3] l ip show ?thesis by simp
qed

lemma teardown_net:
  assumes inv: "sys_inv E s" and net: "net_inv E s" and p: "p \<in> set (leases E s)" and m: "takes_back m"
    and run: "do {
       (_, s) \<leftarrow> dmdhcp_lease_table_remove E p s;
       (_, s) \<leftarrow> on_lease p m s;
       (_, s) \<leftarrow> dmdhcp_lease_table_destroy E (Some p) s;
       Some (x, s) } = Some (x', s')"
    and s': "leases E s' = filter (\<lambda>q. q \<noteq> p) (leases E s)" "heap s' = (heap s)(p := None)"
  shows "net_inv E s'"
proof -
  from run obtain u s1 v s2 w where "dmdhcp_lease_table_remove E p s = Some (u, s1)" "on_lease p m s1 = Some (v, s2)"
    "dmdhcp_lease_table_destroy E (Some p) s2 = Some (w, s')"
    by (auto simp: bind_eq_Some_conv)
  with final_net [OF inv net p m] remove_same s' show ?thesis by metis
qed

lemma stop_net:
  assumes E: "env_ok E" "netif_up E" and inv: "sys_inv E s" and net: "net_inv E s" and p: "p \<in> set (leases E s)"
  shows "dmdhcp_stop E (Some p) s = Some (x, s') \<Longrightarrow> net_inv E s'"
    and "dmdhcp_release E (Some p) s = Some (y, s') \<Longrightarrow> net_inv E s'"
proof -
  note live = valid_handle_live [OF inv p]
  {
    assume run: "dmdhcp_stop E (Some p) s = Some (x, s')"
    then have s': "leases E s' = filter (\<lambda>q. q \<noteq> p) (leases E s)" "heap s' = (heap s)(p := None)"
      using stop_inv [OF E(1) inv p] by auto
    show "net_inv E s'"
      by (rule teardown_net [OF inv net p takes_back_sections(1) [OF E(2)] _ s'])
        (use run live in \<open>simp add: dmdhcp_stop_def\<close>)
  next
    assume run: "dmdhcp_release E (Some p) s = Some (y, s')"
    then have s': "leases E s' = filter (\<lambda>q. q \<noteq> p) (leases E s)" "heap s' = (heap s)(p := None)"
      using release_inv [OF E(1) inv p] by auto
    show "net_inv E s'"
      by (rule teardown_net [OF inv net p takes_back_sections(2) [OF E(2)] _ s'])
        (use run live in \<open>simp add: dmdhcp_release_def\<close>)
  }
qed

lemma start_net:
  assumes E: "env_ok E" "fresh_malloc E" and inv: "sys_inv E s" and net: "net_inv E s"
    and run: "dmdhcp_start E ifc cbs ud options s = Some (r, s')"
  shows "net_inv E s'"
proof -
  have nv: "net_view s' = net_view s" by (rule start_same [OF run])
  note st = start_inv [OF E inv, of ifc cbs ud options, unfolded run]
  show ?thesis
  proof (cases r)
    case None
    with st have "leases E s' = leases E s" "heap s' = heap s" by auto
    moreover from this have "iface_of s' = iface_of s" by (auto simp: iface_of_def fun_eq_iff)
    ultimately show ?thesis using net nv by (simp add: net_inv_def routes_of_def)
  next
    case (Some p)
    with st obtain l where p: "p \<notin> set (leases E s)" "leases E s' = leases E s @ [p]" "iface_of s' p = ifc"
        "ifc \<notin> iface_of s ` set (leases E s)" "heap s' = (heap s)(p := Some l)" "state l = first_state options"
      and inv': "sys_inv E s'" by auto
    have "lease_inv E p l" using sys_inv_lease [OF inv', of p] p(2,5) by auto
    moreover have idle: "\<not> holds_valid_lease l"
      using p(6) by (auto simp: holds_valid_lease_def first_state_def split: option.splits if_splits)
    ultimately have l: "\<not> iface_configured l" "default_route l = None" by (auto simp: inv_defs)
    have same: "heap s' q = heap s q" "iface_of s' q = iface_of s q" if "q \<in> set (leases E s)" for q
      using that p(1,5) by (auto simp: iface_of_def)
    have "ifs (net_view s) ifc = blank" using net p(4) by (simp add: net_inv_def)
    then have "mirrors (ifs (net_view s') (iface_of s' p)) (the (heap s' p))"
      using idle l nv p(3,5) by (simp add: mirrors_def)
    moreover have "routes_of E s' = routes_of E s"
      unfolding routes_of_def p(2) using sum_list_owned_cong [OF same(1)] p(5) l(2) by (simp add: owned_def)
    moreover have "iface_of s' ` set (leases E s) = iface_of s ` set (leases E s)" using same(2) by simp
    ultimately show ?thesis using net nv p(2) same by (auto simp: net_inv_def)
  qed
qed

section \<open>Every reachable state\<close>

lemma net_inv_log:
  assumes "net_inv E s" "heap s' = heap s" "leases E s' = leases E s" "net_view s' = net_view s"
  shows "net_inv E s'"
proof -
  have "iface_of s' = iface_of s" using assms(2) by (auto simp: iface_of_def fun_eq_iff)
  with assms show ?thesis by (simp add: net_inv_def routes_of_def)
qed

lemma sections_net [simp]: "observe net_step n (all_sections ps) = n"
proof -
  have "observe net_step n (concat (map lease_section ps)) = n" by (induction ps) (simp_all add: lease_section_def)
  then show ?thesis by (simp add: all_sections_def)
qed

lemma handler_net:
  assumes E: "env_ok E" "netif_up E" and inv: "sys_inv E s" and net: "net_inv E s"
    and run: "on_lease p m s = Some (x, s')"
    and m: "\<And>c. lease_inv E (self c) (cur c) \<Longrightarrow> reconfigures c (exec m c)"
  shows "net_inv E s'"
proof -
  obtain l where l: "heap s p = Some l" using on_leaseD [OF run] by metis
  then have "p \<in> set (leases E s)" using inv by (auto simp: sys_inv_def)
  with sys_inv_lease [OF inv] l have "lease_inv E p l" by (metis option.inject)
  then show ?thesis by (intro on_lease_net [OF inv net l run] m) simp
qed

lemma datagram_net:
  assumes E: "env_ok E" "netif_up E" and inv: "sys_inv E s" and net: "net_inv E s"
    and run: "dmdhcp_handle_datagram E ifc payload s = Some (x, s')"
  shows "net_inv E s'"
proof -
  have core: "core_inv E {} s" using inv by (simp add: sys_inv_def)
  let ?s = "s\<lparr>slog := slog s @ table_section\<rparr>"
  have inv1: "sys_inv E ?s" by (rule sys_inv_log [OF inv]) simp_all
  have net1: "net_inv E ?s" by (rule net_inv_log [OF net]) (simp_all add: leases_def)
  have "s' = s \<or> s' = ?s \<or> (\<exists>p ty msg os b off x. payload = Some b \<and> dmdhcp_parse_message payload True True = Inr (msg, off)
      \<and> on_lease p (dispatch_message E ty msg os) ?s = Some (x, s'))"
    using run
    by (cases payload)
      (auto simp: dmdhcp_handle_datagram_def find_by_xid_eq [OF E(1) core] Let_def dmdhcp_parse_message_def
        split: sum.splits if_splits option.splits prod.splits)
  then show ?thesis
  proof (elim disjE exE conjE)
    fix p ty msg os b off x
    assume "payload = Some b" "dmdhcp_parse_message payload True True = Inr (msg, off)"
      and d: "on_lease p (dispatch_message E ty msg os) ?s = Some (x, s')"
    then have "wire_view msg = msg" by (auto intro: parsed_wire_view)
    with received_net.reconfigures_net [OF E, of _ ty msg os] show ?thesis
      by (intro handler_net [OF E inv1 net1 d]) simp
  qed (use net net1 in simp_all)
qed

lemma reader_net:
  assumes "net_inv E s" and "s' = s \<or> (\<exists>ps. s' = s\<lparr>slog := slog s @ all_sections ps\<rparr>)"
  shows "net_inv E s'"
  using assms by (auto intro: net_inv_log simp: leases_def)

lemma perform_net:
  assumes E: "env_ok E" "fresh_malloc E" "netif_up E" and inv: "sys_inv E s" and net: "net_inv E s"
    and en: "enabled E s a" and run: "perform E a s = Some s'"
  shows "net_inv E s'"
proof (cases a)
  case (Start ifc cbs ud options)
  with run start_net [OF E(1,2) inv net] show ?thesis by auto
next
  case (Stop h)
  with run en net stop_net [OF E(1,3) inv net] show ?thesis
    by (cases h) (auto simp: usable_def dmdhcp_stop_def [of _ None] valid_handle_def [of None])
next
  case (Release h)
  with run en net stop_net [OF E(1,3) inv net] show ?thesis
    by (cases h) (auto simp: usable_def dmdhcp_release_def [of _ None] valid_handle_def [of None])
next
  case (Renew h)
  with run net handler_net [OF E(1,3) inv net _ renew_reconfigures] show ?thesis by (cases h) (auto simp: with_handle_def)
next
  case (Set_callbacks h cbs ud)
  have "reconfigures c (exec (dmdhcp_set_callbacks cbs ud) c)" for c :: "'a lctx"
    by (rule reconfigures_same) (simp_all add: dmdhcp_set_callbacks_def run_simps holds_valid_lease_def)
  with Set_callbacks run net handler_net [OF E(1,3) inv net, where m = "dmdhcp_set_callbacks cbs ud"] show ?thesis
    by (cases h) (auto simp: with_handle_def)
next
  case (Access what h)
  have "reconfigures c (exec (access E what) c)" for c
    using access_effect [of E what c] by (elim exE conjE, intro reconfigures_same) auto
  with Access run net handler_net [OF E(1,3) inv net, where m = "access E what"] show ?thesis
    by (cases h) (auto simp: with_handle_def)
next
  case (Get_ntp_servers out n)
  with run reader_effect(1) [OF E(1) inv, of out n] reader_net [OF net] show ?thesis by (auto simp del: perform.simps)
next
  case (Provide_dns add ctx)
  with run reader_effect(2) [OF E(1) inv, of add ctx] reader_net [OF net] show ?thesis by (auto simp del: perform.simps)
next
  case (Provide_ntp add ctx)
  with run reader_effect(3) [OF E(1) inv, of add ctx] reader_net [OF net] show ?thesis by (auto simp del: perform.simps)
next
  case (Datagram ifc payload)
  with run datagram_net [OF E(1,3) inv net] show ?thesis by auto
next
  case (Retransmit_expires p)
  with run handler_net [OF E(1,3) inv net _ trigger_net.reconfigures_net [OF E(1,3), of _ Retransmit_fired]] show ?thesis
    by (auto simp del: handle.simps)
next
  case (Lease_timer_expires p)
  with run handler_net [OF E(1,3) inv net _ trigger_net.reconfigures_net [OF E(1,3), of _ Lease_timer_fired]] show ?thesis
    by (auto simp del: handle.simps)
qed

lemma init_net:
  assumes E: "env_ok E" and init: "dmod_init E empty_sys = (Inr (), s)"
  shows "net_inv E s"
proof -
  have "leases E s = []" using init_inv [OF assms] by simp
  moreover have "net_view s = no_net"
    using init by (auto simp: dmod_init_def dmdhcp_lease_table_init_def dmdhcp_input_register_def Let_def sys_emit_def
        empty_sys_def split: sum.splits if_splits prod.splits)
  ultimately show ?thesis by (simp add: net_inv_def routes_of_def no_net_def blank_def)
qed

lemma reachable_net:
  assumes E: "env_ok E" "fresh_malloc E" "netif_up E"
  shows "reachable E s \<Longrightarrow> net_inv E s"
proof (induction rule: reachable.induct)
  case (opened s)
  then show ?case by (rule init_net [OF E(1)])
next
  case (stepped s a s')
  then show ?case using perform_net [OF E reachable_sys_inv [OF E(1,2)] stepped.IH] by (auto simp: step_iff)
qed

lemma deinit_loop_net:
  assumes E: "env_ok E" "netif_up E"
  shows "sys_inv E s \<Longrightarrow> net_inv E s \<Longrightarrow> n = length (leases E s) \<Longrightarrow> deinit_loop E n s = Some ((), s') \<Longrightarrow>
    ifs (net_view s') i = blank"
proof (induction n arbitrary: s)
  case 0
  then show ?case by (simp add: net_inv_def)
next
  case (Suc n)
  then obtain p ps where pps: "leases E s = p # ps" by (cases "leases E s") simp_all
  then have p: "p \<in> set (leases E s)" by simp
  have f: "filter (\<lambda>q. q \<noteq> p) (leases E s) = ps"
    using distinct_leases [of E "{}" s] Suc.prems(1) pps by (auto simp: sys_inv_def intro!: filter_True)
  obtain s1 s2 s3 where s: "heap s1 = heap s" "slog s1 = slog s" "on_lease p (unapply_locked E) s1 = Some ((), s2)"
      "dmdhcp_lease_table_destroy E (Some p) s2 = Some ((), s3)" "\<And>n. deinit_loop E (Suc n) s = deinit_loop E n s3"
      "sys_inv E s3" "leases E s3 = ps" "heap s3 = (heap s)(p := None)"
    using deinit_step [OF E(1) Suc.prems(1) pps] by metis
  have "net_inv E s3"
    by (rule final_net [OF Suc.prems(1,2) p takes_back_sections(1) [OF E(2)] s(1) _ s(3,4)]) (use s f in simp_all)
  with Suc.IH [OF s(6)] Suc.prems(3,4) s(5,7) pps show ?case by simp
qed

lemma deinit_net:
  assumes E: "env_ok E" "netif_up E" and inv: "sys_inv E s" and net: "net_inv E s"
  shows "\<exists>s'. dmod_deinit E s = Some (Inr (), s') \<and> (\<forall>i. ifs (net_view s') i = blank)"
proof -
  let ?s = "s\<lparr>slog := slog s @ [Udp_unbind DMDHCP_CLIENT_PORT]\<rparr>"
  have inv1: "sys_inv E ?s" by (rule sys_inv_log [OF inv]) simp_all
  have net1: "net_inv E ?s" by (rule net_inv_log [OF net]) (simp_all add: leases_def)
  obtain t where t: "g_leases ?s = Some t" using sys_inv_table [OF inv1] by metis
  have n: "dmlist_size (tlist E) t = length (leases E ?s)" using t by (simp add: leases_def)
  obtain s1 where l: "deinit_loop E (dmlist_size (tlist E) t) ?s = Some ((), s1)"
    using deinit_loop_inv [OF E(1) inv1 n] by blast
  have "ifs (net_view s1) i = blank" for i by (rule deinit_loop_net [OF E inv1 net1 n l])
  with t l show ?thesis
    by (simp add: dmod_deinit_def dmdhcp_lease_table_deinit_def dmdhcp_input_unregister_def sys_emit_def)
qed

section \<open>Properties\<close>

text \<open>
  C3. Interfaces. On a platform whose interface and route calls succeed, in every reachable state: an interface
  whose lease is bound, renewing or rebinding has that lease's address and netmask and the broadcast
  address of the two; the lease has a default route exactly when it names a gateway, and that
  route is installed; an interface whose lease is in another state, or that has no lease, has no address,
  netmask or broadcast address; and \<open>dmod_deinit()\<close> from there leaves every interface without one.
\<close>

theorem interface_matches_lease:
  assumes E: "env_ok E" "fresh_malloc E" "netif_up E" and r: "reachable E s"
  shows "(\<forall>p \<in> set (leases E s). \<exists>l. heap s p = Some l
      \<and> ifs (net_view s) (iface l) = (if holds_valid_lease l then lease_cfg l else blank)
      \<and> (default_route l \<noteq> None \<longleftrightarrow> holds_valid_lease l \<and> family (gateway l) = dmroute_family_v4)
      \<and> set_option (default_route l) \<subseteq> set (routes (net_view s)))
    \<and> (\<forall>i. i \<notin> iface_of s ` set (leases E s) \<longrightarrow> ifs (net_view s) i = blank)
    \<and> (\<exists>s'. dmod_deinit E s = Some (Inr (), s') \<and> (\<forall>i. ifs (net_view s') i = blank))"
proof -
  have inv: "sys_inv E s" and net: "net_inv E s" using reachable_sys_inv reachable_net E r by blast+
  have "\<exists>l. heap s p = Some l \<and> mirrors (ifs (net_view s) (iface l)) l \<and> set_option (default_route l) \<subseteq> set (routes (net_view s))"
    if p: "p \<in> set (leases E s)" for p
  proof -
    obtain l where l: "heap s p = Some l" by (rule sys_inv_lease [OF inv p])
    have "owned l \<subseteq># routes_of E s" unfolding routes_of_def
      using routes_of_split [of "leases E s" p "heap s"] distinct_leases [of E "{}" s] inv p l by (auto simp: sys_inv_def)
    also have "\<dots> \<subseteq># mset (routes (net_view s))" using net by (simp add: net_inv_def)
    finally have "set_option (default_route l) \<subseteq> set (routes (net_view s))"
      by (cases "default_route l") (simp_all add: owned_def)
    with net p l show ?thesis by (auto simp: net_inv_def iface_of_def)
  qed
  then have "\<exists>l. heap s p = Some l
      \<and> ifs (net_view s) (iface l) = (if holds_valid_lease l then lease_cfg l else blank)
      \<and> (default_route l \<noteq> None \<longleftrightarrow> holds_valid_lease l \<and> family (gateway l) = dmroute_family_v4)
      \<and> set_option (default_route l) \<subseteq> set (routes (net_view s))" if "p \<in> set (leases E s)" for p
    using that unfolding mirrors_def by blast
  with net deinit_net [OF E(1,3) inv net] show ?thesis by (simp add: net_inv_def)
qed

lemma silent_netif_up: "netif_up silent_env"
  using sample_netif_up by (simp add: netif_up_def silent_env_def)

theorem interface_matches_lease_witness:
  "\<exists>l. heap sample_acquired 1 = Some l \<and> if_ip (ifs (net_view sample_acquired) (iface l)) = addr_v4 (192, 168, 1, 42)"
proof -
  obtain l where l: "heap sample_acquired 1 = Some l" "state l = dmdhcp_state_bound" "offered_ip l = addr_v4 (192, 168, 1, 42)"
    using sample_acquired_run(3,4) by auto
  with interface_matches_lease [OF silent_env_ok silent_netif_up sample_reachable(2)] sample_acquired_run(2)
  show ?thesis by (simp add: holds_valid_lease_def lease_cfg_def)
qed

end
