(* ===== verification/Dhcp_Acquire.thy ===== *)
theory Dhcp_Acquire
  imports Dhcp_Module Dhcp_Configured
begin

text \<open>
  Acquiring a lease from end to end: from the bytes of an OFFER and an ACK, through parsing, the lookup
  in the table, the dispatch and the two conflict probes of the timer, to a bound lease and a
  configured interface.
\<close>

section \<open>Single steps\<close>

lemma owner_self:
  assumes inv: "sys_inv E s" and p: "p \<in> set (leases E s)" and l: "heap s p = Some l"
  shows "owner E s (iface l) (xid l) = Some p"
proof -
  have "owner E s (iface l) (xid l) \<noteq> None" using p l unfolding owner_def find_None_iff by (force simp: iface_of_def)
  then obtain q where q: "owner E s (iface l) (xid l) = Some q" by blast
  then have "q \<in> set (leases E s)" "iface_of s q = iface l" by (auto simp: owner_def find_Some_iff)
  with other_iface [OF inv p, of q] l have "q = p" by (auto simp: iface_of_def)
  with q show ?thesis by simp
qed

text \<open>A reply for a lease that is waiting runs the dispatch on it.\<close>

lemma receive_step:
  assumes E: "env_ok E" "fresh_malloc E" and r: "reachable E s" and l: "heap s p = Some l"
    and reply: "bootreply payload = Some (m, options)" "msg_xid m = xid l" "message_type options = Some ty"
  defines "c \<equiv> exec (handle E (Received ty m options)) \<lparr>self = p, cur = l, log = slog s @ table_section\<rparr>"
  shows "\<exists>s'. perform E (Datagram (iface l) payload) s = Some s' \<and> reachable E s'
    \<and> heap s' = (heap s)(p := Some (cur c)) \<and> slog s' = log c"
proof -
  have inv: "sys_inv E s" by (rule reachable_sys_inv [OF E r])
  then have p: "p \<in> set (leases E s)" using l by (auto simp: sys_inv_def)
  define s' where "s' = s\<lparr>heap := (heap s)(p := Some (cur c)), slog := log c\<rparr>"
  have "perform E (Datagram (iface l) payload) s = Some s'"
    using l by (simp add: datagram_eq [OF E(1) inv] reply owner_self [OF inv p l] on_lease_eq [of _ p l] Let_def s'_def c_def
        del: handle.simps)
  with performed_reachable [OF E r _ this] show ?thesis by (simp add: s'_def)
qed

lemma expire_step:
  assumes E: "env_ok E" "fresh_malloc E" and r: "reachable E s" and l: "heap s p = Some l" and w: "waiting (state l)"
  defines "c \<equiv> exec (handle E Retransmit_fired) \<lparr>self = p, cur = l, log = slog s\<rparr>"
  shows "\<exists>s'. enabled E s (Retransmit_expires p) \<and> perform E (Retransmit_expires p) s = Some s' \<and> reachable E s'
    \<and> heap s' = (heap s)(p := Some (cur c)) \<and> slog s' = log c"
proof -
  have inv: "sys_inv E s" by (rule reachable_sys_inv [OF E r])
  then have p: "p \<in> set (leases E s)" using l by (auto simp: sys_inv_def)
  have "timers_ok None (timer_view s) p l" using sys_inv_lease [OF inv p] l by (metis option.inject)
  then have en: "enabled E s (Retransmit_expires p)" using w by (simp add: timers_ok_def)
  define s' where "s' = s\<lparr>heap := (heap s)(p := Some (cur c)), slog := log c\<rparr>"
  have "perform E (Retransmit_expires p) s = Some s'"
    using l by (simp add: on_lease_eq [of _ p l] Let_def s'_def c_def del: handle.simps)
  with performed_reachable [OF E r en this] en show ?thesis by (simp add: s'_def)
qed

lemma reachable_lease:
  assumes E: "env_ok E" "fresh_malloc E" and r: "reachable E s" and l: "heap s p = Some l"
  shows "lease_inv E p l"
proof -
  have inv: "sys_inv E s" by (rule reachable_sys_inv [OF E r])
  then have "p \<in> set (leases E s)" using l by (auto simp: sys_inv_def)
  from sys_inv_lease [OF inv this] l show ?thesis by (metis option.inject)
qed

lemma configured_lease:
  assumes E: "env_ok E" "fresh_malloc E" "netif_up E" and r: "reachable E s" and l: "heap s p = Some l"
  shows "ifs (net_view s) (iface l) = (if holds_valid_lease l then lease_cfg l else blank)"
proof -
  have "p \<in> set (leases E s)" using reachable_sys_inv [OF E(1,2) r] l by (auto simp: sys_inv_def)
  then have "mirrors (ifs (net_view s) (iface l)) l"
    using reachable_net [OF E r] l by (auto simp: net_inv_def iface_of_def)
  then show ?thesis by (simp add: mirrors_def)
qed

lemma handle_grows:
  assumes "env_ok E" and "lease_inv E (self s) (cur s)"
  obtains g where "log (exec (handle E tr) s) = log s @ g"
  using handle_keeps [OF assms, of tr] by (auto simp: keeps_def)

lemma bootreply_view: "bootreply payload = Some (m, options) \<Longrightarrow> wire_view m = m"
  by (auto simp: bootreply_def intro: parsed_wire_view split: option.splits sum.splits if_splits prod.splits)

text \<open>
  From the history \<open>h\<close> on, nobody on the interface answers a conflict probe for one of the addresses. What was answered
  before, and what is answered on other interfaces or for other addresses, is not restricted.
\<close>

definition unused :: "('l, 't) env \<Rightarrow> history \<Rightarrow> dmnetif_iface_t \<Rightarrow> dmroute_addr_t set \<Rightarrow> bool" where
  "unused E h ifc as \<longleftrightarrow> (\<forall>g. \<forall>a \<in> as. isl (env_arp_resolve E (h @ g) ifc a))"

lemma unused_later: "unused E h ifc as \<Longrightarrow> unused E (h @ g) ifc as"
  by (simp add: unused_def)

lemma unused_probe:
  "unused E (log s) (iface (cur s)) as \<Longrightarrow> offered_ip (cur s) \<in> as \<Longrightarrow> \<not> probe_answered E s"
  by (simp add: unused_def probe_answered_def)

text \<open>A clean probe of an offer asks for the address.\<close>

lemma offer_probed:
  assumes inv: "lease_inv E (self s) (cur s)" and st: "state (cur s) = dmdhcp_state_checking_offer"
    and arp: "\<not> probe_answered E s"
  shows "cur (exec (handle E Retransmit_fired) s)
    = (cur s)\<lparr>state := dmdhcp_state_requesting, retransmit_count := 0, retransmit_interval_ms := 4000\<rparr>"
proof -
  let ?s = "s\<lparr>log := log s @ [Timer_fired (Retransmit_timer (self s))]\<rparr>"
  let ?t = "?s\<lparr>log := log ?s @ [Mutex_lock (lock (cur ?s))]\<rparr>"
  have "isl (env_arp_resolve E (log ?t) (iface (cur ?t)) (offered_ip (cur ?t)))" using arp by (simp add: probe_answered_def)
  from probe_offer_effect [OF this] st
  have "cur (exec (run_conflict_probe E) ?t)
      = (cur s)\<lparr>state := dmdhcp_state_requesting, retransmit_count := 0, retransmit_interval_ms := 4000\<rparr>"
    by auto
  with retransmit_probe_effect [of ?s E] inv_numbers(4) [OF inv] st show ?thesis by (simp add: run_simps)
qed

section \<open>The exchange\<close>

text \<open>The first half: an OFFER and a clean probe.\<close>

lemma offer_requested:
  assumes E: "env_ok E" "fresh_malloc E" and r: "reachable E s"
    and l: "heap s p = Some l" "state l = dmdhcp_state_selecting"
    and offer: "bootreply offer = Some (m, options)" "msg_xid m = xid l" "message_type options = Some 2"
    and arp: "unused E (slog s) (iface l) {msg_yiaddr m}"
  shows "\<exists>s' k. run_actions E [Datagram (iface l) offer, Retransmit_expires p] s = Some s' \<and> reachable E s'
    \<and> heap s' = (heap s)(p := Some k) \<and> state k = dmdhcp_state_requesting \<and> iface k = iface l \<and> xid k = xid l
    \<and> netmask k = addr_value options DMDHCP_OPT_SUBNET_MASK (netmask l)
    \<and> callbacks k = callbacks l \<and> user_data k = user_data l \<and> (\<exists>g. slog s' = slog s @ g)"
proof -
  note view = bootreply_view [OF offer(1)]
  let ?c = "\<lparr>self = p, cur = l, log = slog s @ table_section\<rparr>"
  obtain s1 where s1: "perform E (Datagram (iface l) offer) s = Some s1" "reachable E s1"
      "heap s1 = (heap s)(p := Some (cur (exec (handle E (Received 2 m options)) ?c)))"
      "slog s1 = log (exec (handle E (Received 2 m options)) ?c)"
    using receive_step [OF E r l(1) offer] by blast
  obtain g where g: "slog s1 = slog s @ g"
    using handle_grows [OF E(1), of ?c "Received 2 m options"] reachable_lease [OF E r l(1)] s1(4) by auto
  obtain d n where "cur (exec (handle E (Received 2 m options)) ?c)
      = (populated (wire_view m) options d n l)\<lparr>state := dmdhcp_state_checking_offer\<rparr>"
    using dispatch_offer_effect [OF E(1), of ?c 2 dmdhcp_state_checking_offer "wire_view m" options]
      inv_numbers(5,6) [OF reachable_lease [OF E r l(1)]] l(2) by auto
  then obtain k where k: "heap s1 = (heap s)(p := Some k)"
      "k = (populated (wire_view m) options d n l)\<lparr>state := dmdhcp_state_checking_offer\<rparr>" using s1(3) by simp
  then have h1: "heap s1 p = Some k" by simp
  obtain s2 where s2: "enabled E s1 (Retransmit_expires p)" "perform E (Retransmit_expires p) s1 = Some s2" "reachable E s2"
      "heap s2 = (heap s1)(p := Some (cur (exec (handle E Retransmit_fired) \<lparr>self = p, cur = k, log = slog s1\<rparr>)))"
      "slog s2 = log (exec (handle E Retransmit_fired) \<lparr>self = p, cur = k, log = slog s1\<rparr>)"
    using expire_step [OF E s1(2) h1] k(2) by (auto simp: waiting_def)
  obtain g' where g': "slog s2 = slog s @ g @ g'"
    using handle_grows [OF E(1), of "\<lparr>self = p, cur = k, log = slog s1\<rparr>" Retransmit_fired] reachable_lease [OF E s1(2) h1] s2(5) g
    by auto
  have quiet: "\<not> probe_answered E \<lparr>self = p, cur = k, log = slog s1\<rparr>"
    by (rule unused_probe [of _ _ "{msg_yiaddr m}"]) (use unused_later [OF arp] g k(2) view in \<open>simp_all add: populated_def\<close>)
  let ?k = "k\<lparr>state := dmdhcp_state_requesting, retransmit_count := 0, retransmit_interval_ms := 4000\<rparr>"
  have "heap s2 = (heap s)(p := Some ?k)"
    using offer_probed [of E "\<lparr>self = p, cur = k, log = slog s1\<rparr>"] quiet reachable_lease [OF E s1(2) h1] s2(4) k by simp
  then show ?thesis
    by (intro exI [of _ s2] exI [of _ ?k]) (use s1(1) s2(1-3) k(2) g' in \<open>simp add: populated_def del: perform.simps enabled.simps(6)\<close>)
qed

text \<open>The second half: an ACK and a clean probe.\<close>

lemma ack_bound:
  assumes E: "env_ok E" "fresh_malloc E" "netif_up E" and r: "reachable E s"
    and l: "heap s p = Some l" "state l = dmdhcp_state_requesting"
    and ack: "bootreply ack = Some (m, options)" "msg_xid m = xid l" "message_type options = Some 5"
    and arp: "unused E (slog s) (iface l) {msg_yiaddr m}"
  shows "\<exists>s' k es. run_actions E [Datagram (iface l) ack, Retransmit_expires p] s = Some s' \<and> reachable E s'
    \<and> heap s' = (heap s)(p := Some k) \<and> state k = dmdhcp_state_bound \<and> iface k = iface l
    \<and> offered_ip k = msg_yiaddr m \<and> gateway k = router_value options
    \<and> netmask k = addr_value options DMDHCP_OPT_SUBNET_MASK (netmask l)
    \<and> lease_time_sec k = time_value options DMDHCP_OPT_LEASE_TIME 0
    \<and> t1_sec k = time_value options DMDHCP_OPT_RENEWAL_T1 (lease_time_sec k div 2)
    \<and> t2_sec k = time_value options DMDHCP_OPT_REBINDING_T2 (lease_time_sec k * 7 div 8)
    \<and> timer_view s' (Lease_timer p) = (t1_period k, True)
    \<and> slog s' = es @ bound_call False \<lparr>self = p, cur = l, log = []\<rparr> @ [Mutex_lock (lock l), Mutex_unlock (lock l)]"
proof -
  note view = bootreply_view [OF ack(1)]
  note inv = reachable_lease [OF E(1,2) r l(1)]
  let ?c = "\<lparr>self = p, cur = l, log = slog s @ table_section\<rparr>"
  obtain s1 where s1: "perform E (Datagram (iface l) ack) s = Some s1" "reachable E s1"
      "heap s1 = (heap s)(p := Some (cur (exec (handle E (Received 5 m options)) ?c)))"
      "slog s1 = log (exec (handle E (Received 5 m options)) ?c)"
    using receive_step [OF E(1,2) r l(1) ack] by blast
  obtain g where g: "slog s1 = slog s @ g"
    using handle_grows [OF E(1), of ?c "Received 5 m options"] inv s1(4) by auto
  obtain d n where "cur (exec (handle E (Received 5 m options)) ?c)
      = (populated m options d n l)\<lparr>state := dmdhcp_state_checking_ack\<rparr>"
    using dispatch_offer_effect [OF E(1), of ?c 5 dmdhcp_state_checking_ack m options] inv_numbers(5,6) [OF inv] l(2) view
    by auto
  then obtain k where k: "heap s1 = (heap s)(p := Some k)"
      "k = (populated m options d n l)\<lparr>state := dmdhcp_state_checking_ack\<rparr>" using s1(3) by simp
  then have h1: "heap s1 p = Some k" by simp
  note inv1 = reachable_lease [OF E(1,2) s1(2) h1]
  let ?d = "\<lparr>self = p, cur = k, log = slog s1\<rparr>"
  obtain s2 where s2: "enabled E s1 (Retransmit_expires p)" "perform E (Retransmit_expires p) s1 = Some s2" "reachable E s2"
      "heap s2 = (heap s1)(p := Some (cur (exec (handle E Retransmit_fired) ?d)))" "slog s2 = log (exec (handle E Retransmit_fired) ?d)"
    using expire_step [OF E(1,2) s1(2) h1] k(2) by (auto simp: waiting_def)
  have quiet: "\<not> probe_answered E ?d"
    by (rule unused_probe [of _ _ "{msg_yiaddr m}"]) (use unused_later [OF arp] g k(2) in \<open>simp_all add: populated_def\<close>)
  obtain rt a where commit: "exec (handle E Retransmit_fired) ?d =
      ?d\<lparr>cur := (cur ?d)\<lparr>default_route := rt, iface_configured := True, state := dmdhcp_state_bound, decline_retry_count := 0\<rparr>,
        log := log ?d @ Timer_fired (Retransmit_timer (self ?d)) # Mutex_lock (lock (cur ?d))
          # Arp_resolve (iface (cur ?d)) (offered_ip (cur ?d)) 1000 a # apply_calls E (cur ?d) rt
          @ armed (lease_timer (cur ?d)) (t1_period (cur ?d))
          @ Mutex_unlock (lock (cur ?d)) # bound_call False ?d @ [Mutex_lock (lock (cur ?d)), Mutex_unlock (lock (cur ?d))]\<rparr>"
    using commit_effect [OF E(3), of ?d] quiet inv1 k(2) by auto
  let ?k = "k\<lparr>default_route := rt, iface_configured := True, state := dmdhcp_state_bound, decline_retry_count := 0\<rparr>"
  have h2: "heap s2 = (heap s)(p := Some ?k)" using s2(4) k(1) by (simp add: commit del: handle.simps)
  have lt: "lease_timer k = Some (Lease_timer p)" "lock k = lock l" using inv1 inv by (simp_all add: inv_defs)
  have bc: "bound_call False ?d = bound_call False \<lparr>self = p, cur = l, log = []\<rparr>"
    using k(2) by (simp add: bound_call_def populated_def split: option.splits)
  define es where "es = slog s1 @ [Timer_fired (Retransmit_timer p), Mutex_lock (lock k),
      Arp_resolve (iface k) (offered_ip k) 1000 a] @ apply_calls E k rt @ armed (lease_timer k) (t1_period k) @ [Mutex_unlock (lock k)]"
  have log: "slog s2 = es @ bound_call False \<lparr>self = p, cur = l, log = []\<rparr> @ [Mutex_lock (lock l), Mutex_unlock (lock l)]"
    using s2(5) lt(2) bc by (simp add: commit es_def del: handle.simps)
  have "observe timer_step tv (apply_calls E k rt) = tv" for tv by (simp add: apply_calls_def)
  then have tm: "timer_view s2 (Lease_timer p) = (t1_period ?k, True)"
    by (simp add: log es_def lt(1) t1_period_def)
  have run: "run_actions E [Datagram (iface l) ack, Retransmit_expires p] s = Some s2"
    using s1(1) s2(1,2) by (simp del: perform.simps enabled.simps(6))
  show ?thesis
    by (intro exI [of _ s2] exI [of _ ?k] exI [of _ es])
      (use run s2(3) h2 log tm k(2) in \<open>simp add: populated_def read_times\<close>)
qed

text \<open>
  C5. Acquiring a lease (DISCOVER, OFFER, REQUEST, ACK), from the wire to the interface. Take a reachable state, a lease
  in it that is selecting, the bytes of an OFFER and of an ACK that carry its transaction id, and a platform whose interface calls
  succeed and where, from that state on, nobody on the interface answers a probe for one of the two offered addresses (earlier conflicts are allowed). After the OFFER, the timer,
  the ACK and the timer the module is in a reachable state in which the lease is bound; it has the address of the
  ACK, its router and its times: the lease time, T1 and T2 of the ACK's options 51, 58 and 59, where a missing T1 is half of the lease time and a missing T2
  7/8 of it; the interface has the address, netmask and broadcast address of the lease;
  the lease timer runs for T1; \<open>on_bound\<close> was called last, without a lock; and
  every other lease is as it was.
\<close>

theorem dora_binds:
  assumes E: "env_ok E" "fresh_malloc E" "netif_up E" and r: "reachable E s"
    and l: "heap s p = Some l" "state l = dmdhcp_state_selecting"
    and offer: "bootreply offer = Some (m1, o1)" "msg_xid m1 = xid l" "message_type o1 = Some 2"
    and ack: "bootreply ack = Some (m2, o2)" "msg_xid m2 = xid l" "message_type o2 = Some 5"
    and arp: "unused E (slog s) (iface l) {msg_yiaddr m1, msg_yiaddr m2}"
  shows "\<exists>s' l'. run_actions E [Datagram (iface l) offer, Retransmit_expires p, Datagram (iface l) ack, Retransmit_expires p] s
        = Some s'
    \<and> reachable E s' \<and> heap s' = (heap s)(p := Some l') \<and> state l' = dmdhcp_state_bound
    \<and> offered_ip l' = msg_yiaddr m2 \<and> gateway l' = router_value o2
    \<and> netmask l' = addr_value o2 DMDHCP_OPT_SUBNET_MASK (addr_value o1 DMDHCP_OPT_SUBNET_MASK (netmask l))
    \<and> lease_time_sec l' = time_value o2 DMDHCP_OPT_LEASE_TIME 0
    \<and> t1_sec l' = time_value o2 DMDHCP_OPT_RENEWAL_T1 (lease_time_sec l' div 2)
    \<and> t2_sec l' = time_value o2 DMDHCP_OPT_REBINDING_T2 (lease_time_sec l' * 7 div 8)
    \<and> ifs (net_view s') (iface l) = lease_cfg l'
    \<and> timer_view s' (Lease_timer p) = (t1_period l', True)
    \<and> (\<exists>es. slog s' = es @ bound_call False \<lparr>self = p, cur = l, log = []\<rparr> @ [Mutex_lock (lock l), Mutex_unlock (lock l)])"
proof -
  have arp1: "unused E (slog s) (iface l) {msg_yiaddr m1}" using arp by (simp add: unused_def)
  obtain s2 k g where s2: "run_actions E [Datagram (iface l) offer, Retransmit_expires p] s = Some s2" "reachable E s2"
      "heap s2 = (heap s)(p := Some k)" "state k = dmdhcp_state_requesting" "iface k = iface l" "xid k = xid l"
      "netmask k = addr_value o1 DMDHCP_OPT_SUBNET_MASK (netmask l)" "callbacks k = callbacks l" "user_data k = user_data l"
      "slog s2 = slog s @ g"
    using offer_requested [OF E(1,2) r l offer arp1] by (elim exE conjE) (rule that)
  then have h2: "heap s2 p = Some k" by simp
  have x: "msg_xid m2 = xid k" using ack(2) s2(6) by simp
  have arp2: "unused E (slog s2) (iface k) {msg_yiaddr m2}" using arp s2(5,10) by (simp add: unused_def)
  obtain s4 l' es where s4: "run_actions E [Datagram (iface k) ack, Retransmit_expires p] s2 = Some s4" "reachable E s4"
      "heap s4 = (heap s2)(p := Some l')" "state l' = dmdhcp_state_bound" "iface l' = iface k"
      "offered_ip l' = msg_yiaddr m2" "gateway l' = router_value o2"
      "netmask l' = addr_value o2 DMDHCP_OPT_SUBNET_MASK (netmask k)"
      "lease_time_sec l' = time_value o2 DMDHCP_OPT_LEASE_TIME 0"
      "t1_sec l' = time_value o2 DMDHCP_OPT_RENEWAL_T1 (lease_time_sec l' div 2)"
      "t2_sec l' = time_value o2 DMDHCP_OPT_REBINDING_T2 (lease_time_sec l' * 7 div 8)" "timer_view s4 (Lease_timer p) = (t1_period l', True)"
      "slog s4 = es @ bound_call False \<lparr>self = p, cur = k, log = []\<rparr> @ [Mutex_lock (lock k), Mutex_unlock (lock k)]"
    using ack_bound [OF E s2(2) h2 s2(4) ack(1) x ack(3) arp2] by (elim exE conjE) (rule that)
  have cfg: "ifs (net_view s4) (iface l) = lease_cfg l'"
    using configured_lease [OF E s4(2), of p l'] s4(3-5) s2(5) by (simp add: holds_valid_lease_def)
  have run: "run_actions E [Datagram (iface l) offer, Retransmit_expires p, Datagram (iface l) ack, Retransmit_expires p] s = Some s4"
    using run_actions_append [of E "[Datagram (iface l) offer, Retransmit_expires p]" "[Datagram (iface l) ack, Retransmit_expires p]" s]
      s2(1,5) s4(1) by (simp del: run_actions.simps)
  have "lock k = lock l" using reachable_lease [OF E(1,2) s2(2) h2] reachable_lease [OF E(1,2) r l(1)] by (simp add: inv_defs)
  moreover have "bound_call False \<lparr>self = p, cur = k, log = []\<rparr> = bound_call False \<lparr>self = p, cur = l, log = []\<rparr>"
    using s2(8,9) by (simp add: bound_call_def split: option.splits)
  ultimately have "slog s4 = es @ bound_call False \<lparr>self = p, cur = l, log = []\<rparr> @ [Mutex_lock (lock l), Mutex_unlock (lock l)]"
    using s4(13) by simp
  with run s2(3,7) s4 cfg show ?thesis by - (rule exI [of _ s4], rule exI [of _ l'], auto)
qed

lemma sample_replies:
  "map_option (\<lambda>(m, os). (msg_xid m, message_type os, msg_yiaddr m)) (bootreply (Some (sample_reply 2)))
     = Some (12, Some 2, addr_v4 (192, 168, 1, 42))"
  "map_option (\<lambda>(m, os). (msg_xid m, message_type os, msg_yiaddr m)) (bootreply (Some (sample_reply 5)))
     = Some (12, Some 5, addr_v4 (192, 168, 1, 42))"
  by code_simp+

theorem dora_binds_witness:
  "\<exists>s'. run_actions silent_env [Datagram (Some 1) (Some (sample_reply 2)), Retransmit_expires 1,
        Datagram (Some 1) (Some (sample_reply 5)), Retransmit_expires 1] sample_started = Some s'
     \<and> if_ip (ifs (net_view s') (Some 1)) = addr_v4 (192, 168, 1, 42)"
proof -
  obtain l where l: "heap sample_started 1 = Some l" "state l = dmdhcp_state_selecting" "xid l = 12" "iface l = Some 1"
    using sample_started_run(3,4,6) by (auto simp: iface_of_def)
  obtain m1 o1 m2 o2 where r: "bootreply (Some (sample_reply 2)) = Some (m1, o1)" "msg_xid m1 = 12" "message_type o1 = Some 2"
      "bootreply (Some (sample_reply 5)) = Some (m2, o2)" "msg_xid m2 = 12" "message_type o2 = Some 5"
      "msg_yiaddr m2 = addr_v4 (192, 168, 1, 42)"
    using sample_replies by auto
  have arp: "unused silent_env (slog sample_started) (iface l) {msg_yiaddr m1, msg_yiaddr m2}"
    by (simp add: unused_def silent_env_def sample_env_def)
  have x: "msg_xid m1 = xid l" "msg_xid m2 = xid l" using r(2,5) l(3) by simp_all
  obtain s' and l' :: "dmroute_addr_t list lease" where "run_actions silent_env [Datagram (iface l) (Some (sample_reply 2)), Retransmit_expires 1,
        Datagram (iface l) (Some (sample_reply 5)), Retransmit_expires 1] sample_started = Some s'"
      "offered_ip l' = msg_yiaddr m2" "ifs (net_view s') (iface l) = lease_cfg l'"
    using dora_binds [OF silent_env_ok silent_netif_up sample_reachable(1) l(1,2) r(1) x(1) r(3,4) x(2) r(6) arp]
    by (elim exE conjE) (rule that, assumption+)
  then show ?thesis unfolding l(4) r(7) by (intro exI conjI) (assumption, simp add: lease_cfg_def)
qed

end
