(* ===== verification/Dhcp_Renewal.thy ===== *)
theory Dhcp_Renewal
  imports Dhcp_Acquire
begin

text \<open>
  The life of a bound lease on the module: the three deadlines of its timer when no server answers, up to its loss,
  and the ACK that renews it on the way.
\<close>

section \<open>The three deadlines\<close>

lemma deadline_step:
  assumes E: "env_ok E" "fresh_malloc E" and r: "reachable E s" and l: "heap s p = Some l" and v: "holds_valid_lease l"
  defines "c \<equiv> exec (lease_timer_callback E) \<lparr>self = p, cur = l, log = slog s @ [Timer_fired (Lease_timer p)]\<rparr>"
  shows "\<exists>s'. run_actions E [Lease_timer_expires p] s = Some s' \<and> reachable E s'
    \<and> heap s' = (heap s)(p := Some (cur c)) \<and> slog s' = log c"
proof -
  have inv: "sys_inv E s" by (rule reachable_sys_inv [OF E r])
  then have p: "p \<in> set (leases E s)" using l by (auto simp: sys_inv_def)
  have "timers_ok None (timer_view s) p l" using sys_inv_lease [OF inv p] l by (metis option.inject)
  then have en: "enabled E s (Lease_timer_expires p)" using v by (simp add: timers_ok_def)
  define s' where "s' = s\<lparr>heap := (heap s)(p := Some (cur c)), slog := log c\<rparr>"
  have run: "perform E (Lease_timer_expires p) s = Some s'"
    using l by (simp add: on_lease_eq [of _ p l] Let_def s'_def c_def run_simps)
  from performed_reachable [OF E r en run] en run show ?thesis
    by (simp add: s'_def del: perform.simps enabled.simps)
qed

text \<open>T1 and T2: the lease asks its server, and then any server, and stays valid.\<close>

lemma deadline_renews:
  assumes E: "env_ok E" "fresh_malloc E" and r: "reachable E s" and l: "heap s p = Some l"
    and st: "state l \<in> {dmdhcp_state_bound, dmdhcp_state_renewing}"
  shows "\<exists>s'. run_actions E [Lease_timer_expires p] s = Some s' \<and> reachable E s'
    \<and> heap s' = (heap s)(p := Some (l\<lparr>xid := env_rand32 E (slog s @ [Timer_fired (Lease_timer p), Mutex_lock (lock l)]), retransmit_count := 0, retransmit_interval_ms := 4000,
        state := (if state l = dmdhcp_state_bound then dmdhcp_state_renewing else dmdhcp_state_rebinding)\<rparr>))
    \<and> timer_view s' (Lease_timer p) = (if state l = dmdhcp_state_bound then t2_period l else expiry_period l, True)
    \<and> timer_view s' (Retransmit_timer p) = (4000, True)"
proof -
  let ?c = "\<lparr>self = p, cur = l, log = slog s @ [Timer_fired (Lease_timer p)]\<rparr>"
  note inv = reachable_lease [OF E r l]
  then have t: "lease_timer l = Some (Lease_timer p)" "retransmit_timer l = Some (Retransmit_timer p)"
    "magic l = DMDHCP_LEASE_MAGIC"
    by (simp_all add: inv_defs)
  have "holds_valid_lease l" using st by (auto simp: holds_valid_lease_def)
  from deadline_step [OF E r l this] obtain s' where s': "run_actions E [Lease_timer_expires p] s = Some s'" "reachable E s'"
      "heap s' = (heap s)(p := Some (cur (exec (lease_timer_callback E) ?c)))" "slog s' = log (exec (lease_timer_callback E) ?c)"
    by blast
  from lease_timer_renew_effect [of ?c E] t(3) st obtain es where es: "heap_only 0 es"
    and run: "exec (lease_timer_callback E) ?c = ?c\<lparr>cur := l\<lparr>xid := env_rand32 E (slog s @ [Timer_fired (Lease_timer p), Mutex_lock (lock l)]), retransmit_count := 0, retransmit_interval_ms := 4000,
        state := (if state l = dmdhcp_state_bound then dmdhcp_state_renewing else dmdhcp_state_rebinding)\<rparr>,
      log := log ?c @ Mutex_lock (lock l) # es @ armed (retransmit_timer l) 4000
        @ armed (lease_timer l) (if state l = dmdhcp_state_bound then t2_period l else expiry_period l) @ [Mutex_unlock (lock l)]\<rparr>"
    by auto
  have "timer_view s' (Lease_timer p) = (if state l = dmdhcp_state_bound then t2_period l else expiry_period l, True)"
      "timer_view s' (Retransmit_timer p) = (4000, True)"
    using es by (simp_all add: s'(4) run t)
  with s'(1-3) run show ?thesis by auto
qed

text \<open>The end of the lease: the interface is taken back and the search starts over.\<close>

lemma deadline_loses:
  assumes E: "env_ok E" "fresh_malloc E" "netif_up E" and r: "reachable E s" and l: "heap s p = Some l"
    and st: "state l = dmdhcp_state_rebinding"
  shows "\<exists>s' k es gs. run_actions E [Lease_timer_expires p] s = Some s' \<and> reachable E s'
    \<and> heap s' = (heap s)(p := Some k) \<and> state k = dmdhcp_state_selecting \<and> offered_ip k = addr_none
    \<and> ifs (net_view s') (iface l) = blank
    \<and> \<not> snd (timer_view s' (Lease_timer p)) \<and> timer_view s' (Retransmit_timer p) = (4000, True)
    \<and> slog s' = es @ Mutex_unlock (lock l) # expired_call \<lparr>self = p, cur = l, log = []\<rparr> @ Mutex_lock (lock l) # gs"
proof -
  let ?c = "\<lparr>self = p, cur = l, log = slog s @ [Timer_fired (Lease_timer p)]\<rparr>"
  let ?d = "?c\<lparr>log := log ?c @ [Mutex_lock (lock l), Mutex_unlock (lock l)]\<rparr>"
  note inv = reachable_lease [OF E(1,2) r l]
  then have t: "retransmit_timer l = Some (Retransmit_timer p)" "magic l = DMDHCP_LEASE_MAGIC" by (simp_all add: inv_defs)
  have "holds_valid_lease l" using st by (simp add: holds_valid_lease_def)
  from deadline_step [OF E(1,2) r l this] obtain s' where s': "run_actions E [Lease_timer_expires p] s = Some s'" "reachable E s'"
      "heap s' = (heap s)(p := Some (cur (exec (lease_timer_callback E) ?c)))" "slog s' = log (exec (lease_timer_callback E) ?c)"
    by blast
  have lost: "exec (lease_timer_callback E) ?c = exec (dmdhcp_lifecycle_handle_lost E) ?d"
    using st t(2) by (simp add: lease_timer_callback_def run_simps)
  from handle_lost_effect [OF E(1), of ?d] obtain x es fs gs dns ntp where
    run: "exec (dmdhcp_lifecycle_handle_lost E) ?d =
      ?d\<lparr>cur := (cur ?d)\<lparr>default_route := (if iface_configured (cur ?d) then None else default_route (cur ?d)),
           iface_configured := False, xid := x, offered_ip := addr_none, server_id := addr_none,
           gateway := addr_none, netmask := addr_none, dns_servers := dns, ntp_servers := ntp,
           retransmit_count := 0, retransmit_interval_ms := 4000, state := dmdhcp_state_selecting\<rparr>,
        log := log ?d @ Mutex_lock (lock (cur ?d)) # es @ fs @ Mutex_unlock (lock (cur ?d)) # expired_call ?d
          @ Mutex_lock (lock (cur ?d)) # gs @ armed (retransmit_timer (cur ?d)) 4000
          @ [Mutex_unlock (lock (cur ?d))]\<rparr>"
    and es: "list_all net_call es" "heap_only (- int (length (servers_of E (ntp_servers (cur ?d))))) fs"
      "heap_only (- int (length (servers_of E (dns_servers (cur ?d))))) gs"
    by (elim exE conjE) (rule that)
  note run = trans [OF lost run]
  define k where "k = cur (exec (lease_timer_callback E) ?c)"
  have k: "heap s' = (heap s)(p := Some k)" "state k = dmdhcp_state_selecting" "offered_ip k = addr_none" "iface k = iface l"
    using s'(3) by (simp_all add: k_def run)
  then have cfg: "ifs (net_view s') (iface l) = blank"
    using configured_lease [OF E s'(2), of p k] by (simp add: holds_valid_lease_def)
  have call: "expired_call ?d = expired_call \<lparr>self = p, cur = l, log = []\<rparr>"
    by (simp add: expired_call_def split: option.splits)
  have quiet: "observe timer_step tv (expired_call c) = tv" for tv and c :: "'a lctx"
    by (simp add: expired_call_def split: option.splits)
  have tm: "\<not> snd (timer_view s' (Lease_timer p))" "timer_view s' (Retransmit_timer p) = (4000, True)"
    using es by (simp_all add: s'(4) run t quiet)
  have "slog s' = (log ?d @ Mutex_lock (lock l) # es @ fs) @ Mutex_unlock (lock l) # expired_call \<lparr>self = p, cur = l, log = []\<rparr>
      @ Mutex_lock (lock l) # gs @ armed (retransmit_timer l) 4000 @ [Mutex_unlock (lock l)]"
    using call by (simp add: s'(4) run)
  with s'(1,2) k(1-3) cfg tm show ?thesis by blast
qed

text \<open>
  C6. A bound lease that nobody renews is lost on time, on a platform whose interface calls succeed. Take a reachable state
  with a bound lease whose deadlines are in the order 0 < T1 < T2 < lease time, the lease time below 4294968 seconds. The lease timer fires three times: first the
  lease is renewing and the timer is armed up to T2, then it is rebinding and the timer is armed up to the
  lease time, and it keeps its address meanwhile; then the interface is taken back, \<open>on_expired_or_lost\<close> is called without a
  lock, the timer is stopped and the search for a new lease starts. The three periods add up to
  exactly the lease time in milliseconds, and no other lease changes.
\<close>

theorem unrenewed_lease_expires:
  assumes E: "env_ok E" "fresh_malloc E" "netif_up E" and r: "reachable E s"
    and l: "heap s p = Some l" "state l = dmdhcp_state_bound"
    and order: "0 < t1_sec l" "t1_sec l < t2_sec l" "t2_sec l < lease_time_sec l" "unat (lease_time_sec l) \<le> 4294967"
  shows "\<exists>s1 s2 s3 k1 k2 k3 es gs.
      run_actions E [Lease_timer_expires p] s = Some s1 \<and> heap s1 = (heap s)(p := Some k1)
    \<and> state k1 = dmdhcp_state_renewing \<and> offered_ip k1 = offered_ip l \<and> timer_view s1 (Lease_timer p) = (t2_period l, True)
    \<and> run_actions E [Lease_timer_expires p] s1 = Some s2 \<and> heap s2 = (heap s)(p := Some k2)
    \<and> state k2 = dmdhcp_state_rebinding \<and> offered_ip k2 = offered_ip l \<and> timer_view s2 (Lease_timer p) = (expiry_period l, True)
    \<and> ifs (net_view s2) (iface l) = ifs (net_view s) (iface l)
    \<and> run_actions E [Lease_timer_expires p] s2 = Some s3 \<and> heap s3 = (heap s)(p := Some k3) \<and> reachable E s3
    \<and> state k3 = dmdhcp_state_selecting \<and> offered_ip k3 = addr_none \<and> ifs (net_view s3) (iface l) = blank
    \<and> \<not> snd (timer_view s3 (Lease_timer p)) \<and> timer_view s3 (Retransmit_timer p) = (4000, True)
    \<and> slog s3 = es @ Mutex_unlock (lock l) # expired_call \<lparr>self = p, cur = l, log = []\<rparr> @ Mutex_lock (lock l) # gs
    \<and> unat (t1_period l) + unat (t2_period l) + unat (expiry_period l) = 1000 * unat (lease_time_sec l)"
proof -
  from deadline_renews [OF E(1,2) r l(1)] l(2) obtain s1 x where s1: "run_actions E [Lease_timer_expires p] s = Some s1"
      "reachable E s1" "heap s1 = (heap s)(p := Some (l\<lparr>xid := x, retransmit_count := 0, retransmit_interval_ms := 4000,
        state := dmdhcp_state_renewing\<rparr>))" "timer_view s1 (Lease_timer p) = (t2_period l, True)"
    by auto
  define k1 where "k1 = l\<lparr>xid := x, retransmit_count := 0, retransmit_interval_ms := 4000, state := dmdhcp_state_renewing\<rparr>"
  have k1: "heap s1 p = Some k1" "state k1 = dmdhcp_state_renewing" "expiry_period k1 = expiry_period l"
    using s1(3) by (simp_all add: k1_def expiry_period_def)
  from deadline_renews [OF E(1,2) s1(2) k1(1)] k1 obtain s2 y where s2: "run_actions E [Lease_timer_expires p] s1 = Some s2"
      "reachable E s2" "heap s2 = (heap s1)(p := Some (k1\<lparr>xid := y, retransmit_count := 0, retransmit_interval_ms := 4000,
        state := dmdhcp_state_rebinding\<rparr>))" "timer_view s2 (Lease_timer p) = (expiry_period l, True)"
    by auto
  define k2 where "k2 = k1\<lparr>xid := y, retransmit_count := 0, retransmit_interval_ms := 4000, state := dmdhcp_state_rebinding\<rparr>"
  have k2: "heap s2 p = Some k2" "state k2 = dmdhcp_state_rebinding" "iface k2 = iface l" "lock k2 = lock l"
      "offered_ip k2 = offered_ip l" "lease_cfg k2 = lease_cfg l"
      "expired_call \<lparr>self = p, cur = k2, log = []\<rparr> = expired_call \<lparr>self = p, cur = l, log = []\<rparr>"
    using s2(3) by (simp_all add: k2_def k1_def lease_cfg_def expired_call_def split: option.splits)
  from deadline_loses [OF E s2(2) k2(1,2)] obtain s3 k3 es gs where s3: "run_actions E [Lease_timer_expires p] s2 = Some s3"
      "reachable E s3" "heap s3 = (heap s2)(p := Some k3)" "state k3 = dmdhcp_state_selecting" "offered_ip k3 = addr_none"
      "ifs (net_view s3) (iface k2) = blank" "\<not> snd (timer_view s3 (Lease_timer p))"
      "timer_view s3 (Retransmit_timer p) = (4000, True)"
      "slog s3 = es @ Mutex_unlock (lock k2) # expired_call \<lparr>self = p, cur = k2, log = []\<rparr> @ Mutex_lock (lock k2) # gs"
    by (elim exE conjE) (rule that)
  have cfg: "ifs (net_view s) (iface l) = lease_cfg l" "ifs (net_view s2) (iface l) = lease_cfg l"
    using configured_lease [OF E r l(1)] configured_lease [OF E s2(2) k2(1)] l(2) k2 by (simp_all add: holds_valid_lease_def)
  have h: "heap s1 = (heap s)(p := Some k1)" "heap s2 = (heap s)(p := Some k2)" "heap s3 = (heap s)(p := Some k3)"
    using s1(3) s2(3) s3(3) by (simp_all add: k1_def k2_def)
  have "offered_ip k1 = offered_ip l" by (simp add: k1_def)
  then show ?thesis
    using s1(1,4) s2(1,4) s3(1,2,4-9) k1(2) k2(2-5,7) h cfg lease_timer_periods [OF order]
    by - (rule exI [of _ s1], rule exI [of _ s2], rule exI [of _ s3], rule exI [of _ k1], rule exI [of _ k2], rule exI [of _ k3],
      rule exI [of _ es], rule exI [of _ gs], simp del: run_actions.simps)
qed

lemma sample_acquired_deadlines:
  obtains l where "heap sample_acquired 1 = Some l" "state l = dmdhcp_state_bound" "t1_sec l = 1800" "t2_sec l = 3150"
    "lease_time_sec l = 3600" "iface l = Some 1" "length (slog sample_acquired) = 54"
  using sample_acquired_run(3,5,9,10) by auto

theorem unrenewed_lease_expires_witness:
  "\<exists>s1 s2 s3. run_actions silent_env [Lease_timer_expires 1] sample_acquired = Some s1
     \<and> run_actions silent_env [Lease_timer_expires 1] s1 = Some s2
     \<and> run_actions silent_env [Lease_timer_expires 1] s2 = Some s3 \<and> ifs (net_view s3) (Some 1) = blank"
proof -
  obtain l where l: "heap sample_acquired 1 = Some l" "state l = dmdhcp_state_bound" "t1_sec l = 1800" "t2_sec l = 3150"
      "lease_time_sec l = 3600" "iface l = Some 1"
    by (rule sample_acquired_deadlines)
  have "0 < t1_sec l" "t1_sec l < t2_sec l" "t2_sec l < lease_time_sec l" "unat (lease_time_sec l) \<le> 4294967"
    by (simp_all add: l)
  from unrenewed_lease_expires [OF silent_env_ok silent_netif_up sample_reachable(2) l(1,2) this]
  obtain s1 s2 s3 where "run_actions silent_env [Lease_timer_expires 1] sample_acquired = Some s1"
     "run_actions silent_env [Lease_timer_expires 1] s1 = Some s2"
     "run_actions silent_env [Lease_timer_expires 1] s2 = Some s3" "ifs (net_view s3) (iface l) = blank"
    by (elim exE conjE) (rule that)
  then show ?thesis unfolding l(6) by (intro exI conjI)
qed

section \<open>Renewal\<close>

text \<open>
  C7. Renewing a lease, from the wire to the interface. An ACK that carries the transaction id of a lease that is renewing
  or rebinding makes it bound at once: it has the address and the router of the ACK and the times of its options 51, 58 and 59 (a
  missing T1 is half of the lease time, a missing T2 is 7/8 of it, and none of the old times is kept), the lease timer runs for the new T1, the count of conflicts is
  reset, \<open>on_bound\<close> is called last, as a renewal and without a lock, and no other lease changes. On a platform
  whose interface calls succeed the interface is configured for the lease; the rest holds also where they fail.
\<close>

theorem ack_renews:
  assumes E: "env_ok E" "fresh_malloc E" and r: "reachable E s"
    and l: "heap s p = Some l" "state l \<in> {dmdhcp_state_renewing, dmdhcp_state_rebinding}"
    and ack: "bootreply ack = Some (m, options)" "msg_xid m = xid l" "message_type options = Some 5"
  shows "\<exists>s' l' es. run_actions E [Datagram (iface l) ack] s = Some s' \<and> reachable E s'
    \<and> heap s' = (heap s)(p := Some l') \<and> state l' = dmdhcp_state_bound \<and> decline_retry_count l' = 0
    \<and> offered_ip l' = msg_yiaddr m \<and> gateway l' = router_value options
    \<and> netmask l' = addr_value options DMDHCP_OPT_SUBNET_MASK (netmask l)
    \<and> lease_time_sec l' = time_value options DMDHCP_OPT_LEASE_TIME 0
    \<and> t1_sec l' = time_value options DMDHCP_OPT_RENEWAL_T1 (lease_time_sec l' div 2)
    \<and> t2_sec l' = time_value options DMDHCP_OPT_REBINDING_T2 (lease_time_sec l' * 7 div 8)
    \<and> (netif_up E \<longrightarrow> ifs (net_view s') (iface l) = lease_cfg l')
    \<and> timer_view s' (Lease_timer p) = (t1_period l', True)
    \<and> slog s' = es @ Mutex_unlock (lock l) # bound_call True \<lparr>self = p, cur = l, log = []\<rparr>"
proof -
  let ?c = "\<lparr>self = p, cur = l, log = slog s @ table_section\<rparr>"
  note inv = reachable_lease [OF E r l(1)] and view = bootreply_view [OF ack(1)]
  obtain s' where s': "perform E (Datagram (iface l) ack) s = Some s'" "reachable E s'"
      "heap s' = (heap s)(p := Some (cur (exec (handle E (Received 5 m options)) ?c)))"
      "slog s' = log (exec (handle E (Received 5 m options)) ?c)"
    using receive_step [OF E r l(1) ack] by blast
  have "dns_servers (cur ?c) \<noteq> None" "ntp_servers (cur ?c) \<noteq> None"
      "state (cur ?c) \<in> {dmdhcp_state_renewing, dmdhcp_state_rebinding}"
    using inv_numbers(5,6) [OF inv] l(2) by simp_all
  from dispatch_renewed_effect [OF E(1) this, of m options] obtain es fs dns ntp rt ok where run: "exec (dispatch_message E 5 m options) ?c
      = ?c\<lparr>cur := (populated m options dns ntp (cur ?c))\<lparr>default_route := rt, iface_configured := ok,
             state := dmdhcp_state_bound, decline_retry_count := 0\<rparr>,
          log := log ?c @ Mutex_lock (lock (cur ?c)) # es @ fs
            @ armed (lease_timer (cur ?c)) (t1_period (populated m options dns ntp (cur ?c)))
            @ Mutex_unlock (lock (cur ?c)) # bound_call True ?c\<rparr>"
    and es: "heap_only (stored E (populated m options dns ntp (cur ?c)) - stored E (cur ?c)) es" "list_all net_call fs"
    by (elim exE conjE) (rule that)
  define l' where "l' = (populated m options dns ntp l)\<lparr>default_route := rt, iface_configured := ok,
             state := dmdhcp_state_bound, decline_retry_count := 0\<rparr>"
  have h: "heap s' = (heap s)(p := Some l')" using s'(3) by (simp add: view run l'_def)
  have l': "iface l' = iface l" "t1_period l' = t1_period (populated m options dns ntp l)" "state l' = dmdhcp_state_bound"
    by (simp_all add: l'_def populated_def t1_period_def)
  have cfg: "netif_up E \<Longrightarrow> ifs (net_view s') (iface l) = lease_cfg l'"
    using configured_lease [OF E _ s'(2), of p l'] h l' by (simp add: holds_valid_lease_def)
  have bc: "bound_call True ?c = bound_call True \<lparr>self = p, cur = l, log = []\<rparr>"
      and quiet: "observe timer_step tv (bound_call True ?c) = tv" for tv
    by (simp_all add: bound_call_def split: option.splits)
  have "lease_timer l = Some (Lease_timer p)" using inv by (simp add: inv_defs)
  then have tm: "timer_view s' (Lease_timer p) = (t1_period l', True)" using es by (simp add: s'(4) view run quiet l')
  have log: "slog s' = (log ?c @ Mutex_lock (lock l) # es @ fs @ armed (lease_timer l) (t1_period (populated m options dns ntp l)))
      @ Mutex_unlock (lock l) # bound_call True \<lparr>self = p, cur = l, log = []\<rparr>"
    using bc by (simp add: s'(4) view run)
  have "run_actions E [Datagram (iface l) ack] s = Some s'" using s'(1) by (simp del: perform.simps)
  with s'(2) h cfg tm log show ?thesis
    by - (rule exI [of _ s'], rule exI [of _ l'], rule exI, simp add: l'_def populated_def read_times del: run_actions.simps)
qed

lemma sample_renewal:
  "map_option (\<lambda>(m, os). (msg_xid m, message_type os, msg_yiaddr m)) (bootreply (Some ((sample_reply 5)[7 := 56])))
     = Some (56, Some 5, addr_v4 (192, 168, 1, 42))"
  by code_simp

theorem ack_renews_witness:
  "\<exists>s1 s2. run_actions silent_env [Lease_timer_expires 1] sample_acquired = Some s1
     \<and> run_actions silent_env [Datagram (Some 1) (Some ((sample_reply 5)[7 := 56]))] s1 = Some s2
     \<and> if_ip (ifs (net_view s2) (Some 1)) = addr_v4 (192, 168, 1, 42)"
proof -
  obtain l where l: "heap sample_acquired 1 = Some l" "state l = dmdhcp_state_bound" "iface l = Some 1"
      "length (slog sample_acquired) = 54"
    by (rule sample_acquired_deadlines)
  then have "state l \<in> {dmdhcp_state_bound, dmdhcp_state_renewing}" by simp
  from deadline_renews [OF silent_env_ok sample_reachable(2) l(1) this] obtain s1 where
    s1: "run_actions silent_env [Lease_timer_expires 1] sample_acquired = Some s1" "reachable silent_env s1"
      "heap s1 = (heap sample_acquired)(1 := Some (l\<lparr>xid := env_rand32 silent_env (slog sample_acquired
            @ [Timer_fired (Lease_timer 1), Mutex_lock (lock l)]), retransmit_count := 0, retransmit_interval_ms := 4000,
        state := (if state l = dmdhcp_state_bound then dmdhcp_state_renewing else dmdhcp_state_rebinding)\<rparr>))"
    by (elim exE conjE) (rule that)
  define k where "k = the (heap s1 1)"
  have k: "heap s1 1 = Some k" "state k \<in> {dmdhcp_state_renewing, dmdhcp_state_rebinding}" "xid k = 56" "iface k = Some 1"
    using s1(3) l by (simp_all add: k_def silent_env_def sample_env_def)
  obtain m os where m: "bootreply (Some ((sample_reply 5)[7 := 56])) = Some (m, os)" "msg_xid m = xid k"
      "message_type os = Some 5" "msg_yiaddr m = addr_v4 (192, 168, 1, 42)"
    using sample_renewal k(3) by auto
  from ack_renews [OF silent_env_ok s1(2) k(1,2) m(1-3)] obtain s2 and l' :: "dmroute_addr_t list lease" where
    s2: "run_actions silent_env [Datagram (iface k) (Some ((sample_reply 5)[7 := 56]))] s1 = Some s2"
      "offered_ip l' = msg_yiaddr m" "netif_up silent_env \<longrightarrow> ifs (net_view s2) (iface k) = lease_cfg l'"
    by (elim exE conjE) (rule that, assumption+)
  then have "run_actions silent_env [Datagram (Some 1) (Some ((sample_reply 5)[7 := 56]))] s1 = Some s2"
      "if_ip (ifs (net_view s2) (Some 1)) = addr_v4 (192, 168, 1, 42)"
    using k(4) m(4) silent_netif_up by (simp_all add: lease_cfg_def del: run_actions.simps)
  with s1(1) show ?thesis by blast
qed

end
