(* ===== verification/Dhcp_Reports.thy ===== *)
theory Dhcp_Reports
  imports Dhcp_Acquire
begin

text \<open>
  What the accessors of a lease tell the application, in every reachable state of the module, compared with the
  network: addresses are IPv4, and the address that is reported is the one the interface has.
\<close>

text \<open>
  C35. The accessors of an allocated lease, in every reachable state. The reported state is the lease's and never init or
  init-reboot. A snapshot is given out exactly while the lease is valid (bound, renewing or rebinding); its address is IPv4, and
  address and netmask are those that the interface has, on a platform whose interface calls succeed; in the
  other states the call is -EINVAL and the interface has no address. The indexed accessors enumerate the
  server lists, which hold IPv4 addresses: the i-th entry for every index below the reported count, and
  -EINVAL from there on.
\<close>

theorem reported_values:
  assumes E: "env_ok E" "fresh_malloc E" "netif_up E" and r: "reachable E s" and l: "heap s p = Some l"
  defines "c \<equiv> \<lparr>self = p, cur = l, log = slog s\<rparr>" and "cfg \<equiv> ifs (net_view s) (iface l)" and "info \<equiv> lease_info l"
    and "dns \<equiv> servers_of E (dns_servers l)" and "ntp \<equiv> servers_of E (ntp_servers l)"
  shows "fst (run_state dmdhcp_get_state c) = state l \<and> state l \<notin> {dmdhcp_state_init, dmdhcp_state_init_reboot}
    \<and> fst (run_state (dmdhcp_get_lease_info True) c) = (if holds_valid_lease l then Inr info else Inl EINVAL)
    \<and> (if holds_valid_lease l
       then family (info_ip_address info) = dmroute_family_v4
         \<and> if_ip cfg = info_ip_address info \<and> if_netmask cfg = info_netmask info
       else cfg = blank)
    \<and> list_all (\<lambda>a. family a = dmroute_family_v4) (dns @ ntp)
    \<and> fst (run_state (dmdhcp_get_dns_server_count E) c) = length dns
    \<and> fst (run_state (dmdhcp_get_dns_server E i True) c) = (if i < length dns then Inr (dns ! i) else Inl EINVAL)
    \<and> fst (run_state (dmdhcp_get_ntp_server_count E) c) = length ntp
    \<and> fst (run_state (dmdhcp_get_ntp_server E i True) c) = (if i < length ntp then Inr (ntp ! i) else Inl EINVAL)"
proof -
  note inv = reachable_lease [OF E(1,2) r l]
  then have m: "magic (cur c) = DMDHCP_LEASE_MAGIC" "dns_servers (cur c) \<noteq> None" "ntp_servers (cur c) \<noteq> None"
    by (simp_all add: c_def inv_defs)
  have "if holds_valid_lease l
       then family (info_ip_address info) = dmroute_family_v4
         \<and> if_ip cfg = info_ip_address info \<and> if_netmask cfg = info_netmask info
       else cfg = blank"
    using inv configured_lease [OF E r l]
    by (auto simp: cfg_def info_def lease_info_def lease_cfg_def inv_defs holds_valid_lease_def split: if_splits)
  moreover have "fst (run_state dmdhcp_get_state c) = state l"
    "fst (run_state (dmdhcp_get_lease_info True) c) = (if holds_valid_lease l then Inr info else Inl EINVAL)"
    using m(1) by (simp_all add: dmdhcp_get_state_def run_simps lease_info_read info_def) (simp_all add: c_def)
  moreover have "state l \<notin> {dmdhcp_state_init, dmdhcp_state_init_reboot}" "list_all (\<lambda>a. family a = dmroute_family_v4) (dns @ ntp)"
    using inv by (simp_all add: inv_defs servers_v4_def dns_def ntp_def)
  ultimately show ?thesis
    using server_accessors [OF E(1) m, of i] by (simp add: dns_def ntp_def c_def)
qed

theorem reported_values_witness:
  "\<exists>l. heap sample_acquired 1 = Some l
     \<and> fst (run_state (dmdhcp_get_dns_server silent_env 0 True) \<lparr>self = 1, cur = l, log = slog sample_acquired\<rparr>)
       = Inr (addr_v4 (8, 8, 8, 8))"
proof -
  obtain l where l: "heap sample_acquired 1 = Some l" "dns_servers l = Some [addr_v4 (8, 8, 8, 8)]"
    by (rule sample_acquired_lease)
  with reported_values [OF silent_env_ok silent_netif_up sample_reachable(2) l(1), of 0] show ?thesis
    by (simp add: silent_env_def sample_env_def)
qed

end
