(* ===== verification/Dhcp_Races.thy ===== *)
theory Dhcp_Races
  imports Dhcp_Configured
begin

text \<open>
  What can happen between two locked sections of one operation. An action of the state machine runs to
  its end before the next one starts; the receive thread, the timer thread and the application run
  concurrently, and a thread gives up every lock in two places in the middle of an operation: between the lookup of
  the lease of a datagram and its dispatch, and between the two halves of the handling of a
  lost lease. Here the two operations are split there and other actions run in the gap.
\<close>

section \<open>Between lookup and dispatch\<close>

text \<open>\<open>dmdhcp_handle_datagram()\<close> up to the lookup's return, and what it found: lease, type, message and options.\<close>

definition datagram_lookup ::
  "('l, 't) env \<Rightarrow> dmnetif_iface_t \<Rightarrow> u8 list option \<Rightarrow> ('l, 't) sys
     \<Rightarrow> ('l, 't, (lease_ptr \<times> u8 \<times> dmdhcp_message_t \<times> u8 list) option) sys_result" where
  "datagram_lookup E ifc payload s =
     (case dmdhcp_parse_message payload True True of
        Inl _ \<Rightarrow> Some (None, s)
      | Inr (msg, options_offset) \<Rightarrow>
          if msg_op msg \<noteq> dmdhcp_op_bootreply then Some (None, s)
          else do {
            (lease, s) \<leftarrow> dmdhcp_lease_table_find_by_xid E ifc (msg_xid msg) s;
            Some (Option.bind lease (\<lambda>p.
              (let options = drop options_offset (the payload)
               in case dmdhcp_options_find (Some options) DMDHCP_OPT_MSG_TYPE True of
                    Inl _ \<Rightarrow> None
                  | Inr type_opt \<Rightarrow>
                      if opt_length type_opt \<noteq> 1 then None
                      else Some (p, the (opt_data type_opt) ! 0, msg, options))), s) })"

definition datagram_dispatch ::
  "('l, 't) env \<Rightarrow> (lease_ptr \<times> u8 \<times> dmdhcp_message_t \<times> u8 list) option \<Rightarrow> ('l, 't) sys \<Rightarrow> ('l, 't, unit) sys_result" where
  "datagram_dispatch E found s =
     (case found of
        None \<Rightarrow> Some ((), s)
      | Some (p, ty, msg, options) \<Rightarrow> on_lease p (dispatch_message E ty msg options) s)"

lemma datagram_split:
  "dmdhcp_handle_datagram E ifc payload s = do {
     (found, s) \<leftarrow> datagram_lookup E ifc payload s;
     datagram_dispatch E found s }"
  by (auto simp: dmdhcp_handle_datagram_def datagram_lookup_def datagram_dispatch_def Let_def
      split: sum.splits option.splits Option.bind_split)

text \<open>A lookup changes nothing but the log, and what it found is in the table.\<close>

lemma lookup_found:
  assumes E: "env_ok E" and inv: "sys_inv E s"
    and l: "datagram_lookup E ifc payload s = Some (Some (p, ty, msg, options), s')"
  shows "s' = s\<lparr>slog := slog s @ table_section\<rparr>" "p \<in> set (leases E s')" "wire_view msg = msg" "sys_inv E s'"
proof -
  have core: "core_inv E {} s" using inv by (simp add: sys_inv_def)
  let ?find = "\<lambda>m. List.find (\<lambda>p. iface_of s p = ifc \<and> xid (the (heap s p)) = msg_xid m) (leases E s)"
  obtain m off where parse: "dmdhcp_parse_message payload True True = Inr (m, off)"
    using l by (auto simp: datagram_lookup_def split: sum.splits)
  obtain q opt where "?find m = Some q" "dmdhcp_options_find (Some (drop off (the payload))) DMDHCP_OPT_MSG_TYPE True = Inr opt"
    using l by (cases "?find m"; cases "dmdhcp_options_find (Some (drop off (the payload))) DMDHCP_OPT_MSG_TYPE True")
      (auto simp: datagram_lookup_def parse find_by_xid_eq [OF E core] Let_def split: if_splits)
  with l parse have m: "m = msg" and p: "?find msg = Some p" and s': "s' = s\<lparr>slog := slog s @ table_section\<rparr>"
    by (auto simp: datagram_lookup_def find_by_xid_eq [OF E core] Let_def split: if_splits)
  show "s' = s\<lparr>slog := slog s @ table_section\<rparr>" by (rule s')
  have "leases E s' = leases E s" unfolding s' by (simp add: leases_def)
  with p show "p \<in> set (leases E s')" by (auto simp: find_Some_iff)
  from parse obtain b where "payload = Some b" by (cases payload) (auto simp: dmdhcp_parse_message_def)
  with parse m show "wire_view msg = msg" by (auto intro: parsed_wire_view)
  show "sys_inv E s'" unfolding s' by (rule sys_inv_log [OF inv]) simp_all
qed

lemma reader_leases: "leases E (s\<lparr>slog := h\<rparr>) = leases E s"
  by (simp add: leases_def)

text \<open>Only stop and release take a lease out of the table.\<close>

lemma perform_keeps_lease:
  assumes E: "env_ok E" "fresh_malloc E" and inv: "sys_inv E s" and en: "enabled E s a"
    and run: "perform E a s = Some s'" and p: "p \<in> set (leases E s)"
    and a: "a \<noteq> Stop (Some p)" "a \<noteq> Release (Some p)"
  shows "p \<in> set (leases E s')"
proof (cases a)
  case (Start ifc cbs ud options)
  with run start_inv [OF E inv, of ifc cbs ud options] p show ?thesis by (auto split: option.splits)
next
  case (Stop h)
  with run en p a stop_inv [OF E(1) inv] show ?thesis
    by (cases h) (fastforce simp: usable_def dmdhcp_stop_def [of _ None] valid_handle_def [of None])+
next
  case (Release h)
  with run en p a release_inv [OF E(1) inv] show ?thesis
    by (cases h) (fastforce simp: usable_def dmdhcp_release_def [of _ None] valid_handle_def [of None])+
next
  case (Get_ntp_servers out n)
  with run reader_effect(1) [OF E(1) inv, of out n] p show ?thesis by (auto simp: reader_leases simp del: perform.simps)
next
  case (Provide_dns add ctx)
  with run reader_effect(2) [OF E(1) inv, of add ctx] p show ?thesis by (auto simp: reader_leases simp del: perform.simps)
next
  case (Provide_ntp add ctx)
  with run reader_effect(3) [OF E(1) inv, of add ctx] p show ?thesis by (auto simp: reader_leases simp del: perform.simps)
next
  case (Datagram ifc payload)
  with run datagram_inv [OF E(1) inv, of ifc payload] p show ?thesis by auto
next
  case (Renew h)
  with run p show ?thesis by (cases h) (auto simp: with_handle_def elim!: on_leaseD [of _ _ _ _ _ E])
next
  case (Set_callbacks h cbs ud)
  with run p show ?thesis by (cases h) (auto simp: with_handle_def elim!: on_leaseD [of _ _ _ _ _ E])
next
  case (Access what h)
  with run p show ?thesis by (cases h) (auto simp: with_handle_def elim!: on_leaseD [of _ _ _ _ _ E])
next
  case (Retransmit_expires q)
  with run p show ?thesis by (auto simp del: handle.simps elim!: on_leaseD [of _ _ _ _ _ E])
next
  case (Lease_timer_expires q)
  with run p show ?thesis by (auto simp del: handle.simps elim!: on_leaseD [of _ _ _ _ _ E])
qed

lemma run_keeps_lease:
  assumes E: "env_ok E" "fresh_malloc E"
  shows "sys_inv E s \<Longrightarrow> run_actions E as s = Some s' \<Longrightarrow>
    sys_inv E s' \<and> (p \<in> set (leases E s) \<and> Stop (Some p) \<notin> set as \<and> Release (Some p) \<notin> set as \<longrightarrow> p \<in> set (leases E s'))"
proof (induction "as" arbitrary: s)
  case Nil
  then show ?case by simp
next
  case (Cons a "as")
  from Cons.prems(2) obtain s1 where en: "enabled E s a" and s1: "perform E a s = Some s1" "run_actions E as s1 = Some s'"
    by (auto simp: bind_eq_Some_conv split: if_splits)
  have "sys_inv E s1" using perform_inv [OF E Cons.prems(1) en] s1(1) by auto
  from Cons.IH [OF this s1(2)] perform_keeps_lease [OF E Cons.prems(1) en s1(1), of p] show ?case by auto
qed

text \<open>A stopped or released lease is freed.\<close>

lemma run_stop_frees:
  assumes E: "env_ok E" "fresh_malloc E" and inv: "sys_inv E s"
    and run: "run_actions E (as @ [a]) s = Some s'" and a: "a = Stop (Some p) \<or> a = Release (Some p)"
  shows "heap s' p = None"
proof -
  from run obtain s1 where s1: "run_actions E as s = Some s1" and en: "enabled E s1 a" and s': "perform E a s1 = Some s'"
    by (auto simp: run_actions_append bind_eq_Some_conv split: if_splits)
  have inv1: "sys_inv E s1" using run_keeps_lease [OF E inv s1] by blast
  from a en have p: "p \<in> set (leases E s1)" by (auto simp: usable_def)
  from a s' stop_inv [OF E(1) inv1 p] release_inv [OF E(1) inv1 p] show ?thesis by auto
qed

text \<open>
  C37. A datagram and the end of its lease. Between the lookup of the lease and its dispatch the receive
  thread holds no lock. Whatever actions run in between, the dispatch works on a lease that is still in the
  table, and keeps the module's invariant, as long as none of them stops or releases that lease; but when the last
  of them does, the dispatch locks the mutex of a freed lease.
\<close>

theorem lookup_gap:
  assumes E: "env_ok E" "fresh_malloc E" and r: "reachable E s"
    and found: "datagram_lookup E ifc payload s = Some (Some (p, ty, msg, options), s1)"
    and gap: "run_actions E as s1 = Some s2"
  defines "finish \<equiv> datagram_dispatch E (Some (p, ty, msg, options)) s2"
  shows "(Stop (Some p) \<notin> set as \<and> Release (Some p) \<notin> set as \<longrightarrow> (\<exists>s3. finish = Some ((), s3) \<and> sys_inv E s3))
    \<and> (as \<noteq> [] \<and> last as \<in> {Stop (Some p), Release (Some p)} \<longrightarrow> finish = None)"
proof (intro conjI impI)
  note s1 = lookup_found [OF E(1) reachable_sys_inv [OF E r] found]
  show "finish = None" if "as \<noteq> [] \<and> last as \<in> {Stop (Some p), Release (Some p)}"
  proof -
    have "heap s2 p = None"
      using run_stop_frees [OF E s1(4), of "butlast as" "last as" s2 p] gap that by auto
    then show ?thesis by (simp add: finish_def datagram_dispatch_def on_lease_def)
  qed
  show "\<exists>s3. finish = Some ((), s3) \<and> sys_inv E s3" if "Stop (Some p) \<notin> set as \<and> Release (Some p) \<notin> set as"
  proof -
    have inv2: "sys_inv E s2" and p: "p \<in> set (leases E s2)"
      using run_keeps_lease [OF E s1(4) gap, of p] that s1(2) by blast+
    from handler_inv [OF E(1) inv2 p, of "Received ty msg options"] s1(3) show ?thesis
      by (auto simp: finish_def datagram_dispatch_def)
  qed
qed

lemma sample_lookup:
  "map_option (\<lambda>(found, s). (map_option (\<lambda>(p, ty, _). (p, ty)) found, leases silent_env s))
     (datagram_lookup silent_env (Some 1) (Some (sample_reply 2)) (the (run_actions silent_env [sample_start] sample_open)))
   = Some (Some (1, 2), [1])"
  by code_simp

theorem lookup_gap_witness:
  "\<exists>found s1 s2. datagram_lookup silent_env (Some 1) (Some (sample_reply 2)) sample_started = Some (Some found, s1)
     \<and> run_actions silent_env [Stop (Some 1)] s1 = Some s2 \<and> datagram_dispatch silent_env (Some found) s2 = None"
proof -
  obtain msg options s1 where found: "datagram_lookup silent_env (Some 1) (Some (sample_reply 2)) sample_started
      = Some (Some (1, 2, msg, options), s1)" and ls: "leases silent_env s1 = [1]"
    using sample_lookup unfolding sample_started_def by auto
  note inv1 = lookup_found(4) [OF silent_env_ok(1) reachable_sys_inv [OF silent_env_ok sample_reachable(1)] found]
  obtain s2 where s2: "run_actions silent_env [Stop (Some 1)] s1 = Some s2"
    using stop_inv [OF silent_env_ok(1) inv1, of 1] ls by (auto simp: usable_def)
  from lookup_gap [OF silent_env_ok sample_reachable(1) found s2] found s2 show ?thesis by auto
qed

section \<open>In the middle of a lost lease\<close>

text \<open>
  C38. An ACK in the middle of the loss of its lease, on a platform whose interface calls succeed. When a lease expires, or is refused while renewing or rebinding,
  the interface is taken back in one locked section and the search for a new lease starts in a
  second one; the state in between is still renewing or rebinding. An ACK that the receive thread
  dispatches in between applies the lease again, and then the second section forgets it: the
  lease is selecting, without an address, but the interface stays configured with the ACK's address.
\<close>

theorem lost_gap:
  fixes ack :: dmdhcp_message_t and options :: "u8 list"
  assumes E: "env_ok E" "netif_up E" and inv: "lease_inv E (self s) (cur s)"
    and st: "state (cur s) \<in> {dmdhcp_state_renewing, dmdhcp_state_rebinding}"
  defines "torn \<equiv> exec (handle_lost_teardown E) s"
  defines "renewed \<equiv> exec (dispatch_message E 5 (wire_view ack) options) torn"
  defines "s' \<equiv> exec (handle_lost_restart E) renewed"
  shows "state (cur s') = dmdhcp_state_selecting \<and> offered_ip (cur s') = addr_none
    \<and> iface_configured (cur s') \<and> if_ip (ifs (net n s') (iface (cur s))) = as_v4 (msg_yiaddr ack)"
proof -
  have torn: "state (cur torn) = state (cur s)" "dns_servers (cur torn) \<noteq> None" "ntp_servers (cur torn) \<noteq> None"
    "iface (cur torn) = iface (cur s)"
    using handle_lost_teardown_effect [OF E(1), of s] inv_numbers(5,6) [OF inv]
    by (auto simp: torn_def exec_def emptied_def)
  then have "state (cur torn) \<in> {dmdhcp_state_renewing, dmdhcp_state_rebinding}" using st by simp
  from dispatch_renewed_effect [OF E(1) torn(2,3) this, of "wire_view ack" options, folded renewed_def] obtain es fs dns ntp r ok where
    run: "renewed = torn\<lparr>cur := (populated (wire_view ack) options dns ntp (cur torn))\<lparr>default_route := r, iface_configured := ok,
           state := dmdhcp_state_bound, decline_retry_count := 0\<rparr>,
        log := log torn @ Mutex_lock (lock (cur torn)) # es @ fs
          @ armed (lease_timer (cur torn)) (t1_period (populated (wire_view ack) options dns ntp (cur torn)))
          @ Mutex_unlock (lock (cur torn)) # bound_call True torn\<rparr>"
    and es: "heap_only (stored E (populated (wire_view ack) options dns ntp (cur torn)) - stored E (cur torn)) es"
    and "netif_up E \<longrightarrow> ok \<and> fs = apply_calls E (populated (wire_view ack) options dns ntp (cur torn)) r
         \<and> (r \<noteq> None \<longleftrightarrow> family (router_value options) = dmroute_family_v4)"
    by (elim exE conjE) (rule that)
  with E(2) have ok: ok and fs: "fs = apply_calls E (populated (wire_view ack) options dns ntp (cur torn)) r" by simp_all
  let ?l = "populated (wire_view ack) options dns ntp (cur torn)"
  have l: "iface ?l = iface (cur s)" "offered_ip ?l = as_v4 (msg_yiaddr ack)"
    using torn(4) by (simp_all add: populated_def wire_view_def)
  have bc: "observe net_step n (bound_call True torn) = n" for n by (simp add: bound_call_def split: option.splits)
  have "if_ip (ifs (net n renewed) (iface (cur s))) = as_v4 (msg_yiaddr ack)"
    using es l by (simp add: run fs bc apply_calls_def)
  then have "if_ip (ifs (net n s') (iface (cur s))) = as_v4 (msg_yiaddr ack)"
    unfolding s'_def stillD [OF net_frame.still_restart] .
  moreover have "state (cur s') = dmdhcp_state_selecting \<and> offered_ip (cur s') = addr_none \<and> iface_configured (cur s')"
    using handle_lost_restart_effect [OF E(1), of renewed] ok by (auto simp: s'_def run)
  ultimately show ?thesis by blast
qed

definition sample_rebinding :: "(dmroute_addr_t list) lctx" where
  "sample_rebinding = sample_selecting\<lparr>cur := (cur sample_selecting)\<lparr>state := dmdhcp_state_rebinding,
     offered_ip := addr_v4 (192, 168, 1, 42)\<rparr>\<rparr>"

theorem lost_gap_witness:
  "let s' = exec (handle_lost_restart sample_env) (exec (dispatch_message sample_env 5 (wire_view sample_message) [])
       (exec (handle_lost_teardown sample_env) sample_rebinding))
   in state (cur s') = dmdhcp_state_selecting \<and> if_ip (ifs (net no_net s') (Some 1)) = addr_v4 (192, 168, 1, 42)"
proof -
  have "lease_inv sample_env (self sample_rebinding) (cur sample_rebinding)"
    by (simp add: inv_defs servers_v4_def sample_rebinding_def sample_selecting_def sample_state_def zero_lease_def
        DMDHCP_LEASE_MAGIC_def)
  from lost_gap [OF sample_env_ok sample_netif_up this, of sample_message "[]" no_net] show ?thesis
    by (simp add: sample_rebinding_def sample_selecting_def sample_state_def sample_message_def as_v4_def Let_def)
qed

end
