(* ===== verification/Dhcp_Callbacks.thy ===== *)
theory Dhcp_Callbacks
  imports Dhcp_Races Dhcp_Acquire
begin

text \<open>
  The application's callbacks on the timer thread. \<open>on_bound\<close> and \<open>on_error\<close> run in the middle of the retransmission timer's callback, which
  has released the lease's lock; the application may call the module from there, and other threads run. The
  callback of the timer is split there into the part up to the return of the callback and the rest. The first part begins
  with the lock that \<open>retransmit_timer_callback()\<close> takes, the second ends with its unlock.
\<close>

section \<open>The two halves\<close>

text \<open>The retransmission timer's callback on a clean probe of an ACK, up to the call of \<open>on_bound\<close>.\<close>

definition until_on_bound :: "('l, 't) env \<Rightarrow> ('l, unit) lease_monad" where
  "until_on_bound E = do {
     lock_lease;
     ifc \<leftarrow> getl iface;
     ip \<leftarrow> getl offered_ip;
     call (\<lambda>h. env_arp_resolve E h ifc ip) (Arp_resolve ifc ip DMDHCP_ARP_PROBE_TIMEOUT_MS);
     dmdhcp_lifecycle_apply E;
     modl (\<lambda>l. l\<lparr>state := dmdhcp_state_bound\<rparr>);
     modl (\<lambda>l. l\<lparr>decline_retry_count := 0\<rparr>);
     dmdhcp_lifecycle_arm_t1;
     handler \<leftarrow> getl (\<lambda>l. on_bound (callbacks l));
     ud \<leftarrow> getl user_data;
     p \<leftarrow> getself;
     unlock_lease;
     (case handler of
        None \<Rightarrow> State_Monad.return ()
      | Some f \<Rightarrow> emit (Call_on_bound f p False ud)) }"

text \<open>The same on the conflict that exceeds the limit, up to the call of \<open>on_error\<close>.\<close>

definition until_on_error :: "('l, 't) env \<Rightarrow> ('l, unit) lease_monad" where
  "until_on_error E = do {
     lock_lease;
     ifc \<leftarrow> getl iface;
     ip \<leftarrow> getl offered_ip;
     call (\<lambda>h. env_arp_resolve E h ifc ip) (Arp_resolve ifc ip DMDHCP_ARP_PROBE_TIMEOUT_MS);
     send_decline E;
     modl (\<lambda>l. l\<lparr>decline_retry_count := decline_retry_count l + 1\<rparr>);
     modl (\<lambda>l. l\<lparr>state := dmdhcp_state_failed\<rparr>);
     handler \<leftarrow> getl (\<lambda>l. on_error (callbacks l));
     ud \<leftarrow> getl user_data;
     p \<leftarrow> getself;
     unlock_lease;
     (case handler of
        None \<Rightarrow> State_Monad.return ()
      | Some f \<Rightarrow> emit (Call_on_error f p EADDRINUSE ud)) }"

text \<open>After the callback: the probe (after \<open>on_bound\<close>) or the conflict handler (after \<open>on_error\<close>) locks the lease again, and the timer's callback unlocks it.\<close>

definition after_callback :: "('l, unit) lease_monad" where
  "after_callback = do { lock_lease; unlock_lease }"

lemma bound_split:
  assumes "magic (cur s) = DMDHCP_LEASE_MAGIC" and "state (cur s) = dmdhcp_state_checking_ack"
    and "isl (env_arp_resolve E (log s @ [Mutex_lock (lock (cur s))]) (iface (cur s)) (offered_ip (cur s)))"
  shows "exec (retransmit_timer_callback E) s = exec after_callback (exec (until_on_bound E) s)"
  using assms
  by (simp add: retransmit_timer_callback_def run_conflict_probe_def until_on_bound_def after_callback_def run_simps
      split: option.splits)

lemma error_split:
  assumes "magic (cur s) = DMDHCP_LEASE_MAGIC" and "state (cur s) \<in> {dmdhcp_state_checking_offer, dmdhcp_state_checking_ack}"
    and "\<not> isl (env_arp_resolve E (log s @ [Mutex_lock (lock (cur s))]) (iface (cur s)) (offered_ip (cur s)))"
    and "decline_retry_count (cur s) = 3"
  shows "exec (retransmit_timer_callback E) s = exec after_callback (exec (until_on_error E) s)"
proof -
  let ?t = "s\<lparr>log := log s @ [Mutex_lock (lock (cur s)),
      Arp_resolve (iface (cur s)) (offered_ip (cur s)) DMDHCP_ARP_PROBE_TIMEOUT_MS
        (env_arp_resolve E (log s @ [Mutex_lock (lock (cur s))]) (iface (cur s)) (offered_ip (cur s)))]\<rparr>"
  obtain es where "exec (send_decline E) ?t = ?t\<lparr>log := log ?t @ es\<rparr>" using sender_effects(6) by blast
  with assms show ?thesis
    by (auto simp: retransmit_timer_callback_def run_conflict_probe_def handle_conflict_def until_on_error_def after_callback_def
        run_simps time_consts split: option.splits)
qed

section \<open>In the middle of a callback\<close>

lemma sys_inv_before_relock:
  assumes "sys_inv E (s\<lparr>slog := slog s @ [Mutex_lock m, Mutex_unlock m]\<rparr>)"
  shows "sys_inv E s"
proof -
  have "observe lock_step (Some []) (slog s) = Some []"
    if "observe lock_step (Some []) (slog s @ [Mutex_lock m, Mutex_unlock m]) = Some []"
    using that by (cases "observe lock_step (Some []) (slog s)"; cases m) (auto split: if_splits)
  moreover have "iface_of (s\<lparr>slog := h\<rparr>) = iface_of s" "leases E (s\<lparr>slog := h\<rparr>) = leases E s" for h
    by (simp_all add: fun_eq_iff iface_of_def leases_def)
  ultimately show ?thesis using assms unfolding sys_inv_def core_inv_def by (simp, metis)
qed

text \<open>\<open>first\<close> is the part of the timer's callback that runs before the application's callback returns.\<close>

definition first_half :: "('l, 't) env \<Rightarrow> 'l lctx \<Rightarrow> ('l, unit) lease_monad \<Rightarrow> bool" where
  "first_half E c first \<longleftrightarrow>
     (state (cur c) = dmdhcp_state_checking_ack \<and> \<not> probe_answered E c \<and> first = until_on_bound E
      \<or> state (cur c) \<in> {dmdhcp_state_checking_offer, dmdhcp_state_checking_ack} \<and> probe_answered E c
        \<and> decline_retry_count (cur c) = 3 \<and> first = until_on_error E)"

lemma timer_split:
  assumes inv: "lease_inv E p (cur c)" and first: "first_half E c first"
  shows "exec (handle E Retransmit_fired) c
    = exec after_callback (exec first (c\<lparr>log := log c @ [Timer_fired (Retransmit_timer (self c))]\<rparr>))"
proof -
  let ?c = "c\<lparr>log := log c @ [Timer_fired (Retransmit_timer (self c))]\<rparr>"
  have m: "magic (cur ?c) = DMDHCP_LEASE_MAGIC" using inv by (simp add: inv_defs)
  have "exec (retransmit_timer_callback E) ?c = exec after_callback (exec first ?c)"
    using first bound_split [OF m, of E] error_split [OF m, of E] by (auto simp: first_half_def probe_answered_def)
  then show ?thesis by (simp add: run_simps)
qed

lemma fired_half:
  assumes E: "env_ok E" "fresh_malloc E" and r: "reachable E s" and l: "heap s p = Some l"
    and first: "first_half E \<lparr>self = p, cur = l, log = slog s\<rparr> first"
  defines "half \<equiv> do { emit (Timer_fired (Retransmit_timer p)); first }"
  shows "\<exists>s1 s'. on_lease p half s = Some ((), s1) \<and> sys_inv E s1 \<and> p \<in> set (leases E s1)
    \<and> on_lease p after_callback s1 = Some ((), s') \<and> perform E (Retransmit_expires p) s = Some s'"
proof -
  let ?c = "\<lparr>self = p, cur = l, log = slog s\<rparr>"
  have w: "waiting (state l)" using first by (auto simp: first_half_def waiting_def)
  define d where "d = exec first \<lparr>self = p, cur = l, log = slog s @ [Timer_fired (Retransmit_timer p)]\<rparr>"
  note inv = reachable_lease [OF E r l]
  have split: "exec (handle E Retransmit_fired) ?c = d\<lparr>log := log d @ [Mutex_lock (lock (cur d)), Mutex_unlock (lock (cur d))]\<rparr>"
    using timer_split [OF _ first, of p] inv by (simp add: d_def after_callback_def run_simps del: handle.simps)
  define s1 where "s1 = s\<lparr>heap := (heap s)(p := Some (cur d)), slog := log d\<rparr>"
  have half: "on_lease p half s = Some ((), s1)"
    using l by (simp add: on_lease_eq [of _ p l] Let_def half_def s1_def d_def run_simps)
  let ?s' = "s1\<lparr>slog := slog s1 @ [Mutex_lock (lock (cur d)), Mutex_unlock (lock (cur d))]\<rparr>"
  have run: "perform E (Retransmit_expires p) s = Some ?s'"
    using l by (simp add: on_lease_eq [of _ p l] Let_def split s1_def del: handle.simps)
  have h1: "heap s1 p = Some (cur d)" by (simp add: s1_def)
  have rest: "on_lease p after_callback s1 = Some ((), ?s')"
    unfolding on_lease_eq [OF h1] by (simp add: s1_def Let_def after_callback_def run_simps)
  have en: "enabled E s (Retransmit_expires p)" using expire_step [OF E r l w] by blast
  have "sys_inv E ?s'" by (rule reachable_sys_inv [OF E performed_reachable [OF E r en run]])
  then have "sys_inv E s1" by (rule sys_inv_before_relock)
  moreover from this have "p \<in> set (leases E s1)" by (auto simp: sys_inv_def s1_def)
  ultimately show ?thesis using half rest run by blast
qed

text \<open>
  C39. Calling the module from a callback. On the timer thread \<open>on_bound\<close> (a clean probe of an ACK) and \<open>on_error\<close> (the fourth
  conflict) run without a lock, in a state that satisfies the module's invariant. Whatever actions the application or other
  threads take before the callback returns, the timer's callback then only locks and unlocks the lease: it changes nothing and the
  invariant holds, as long as none of the actions stops or releases that lease; when the last of them
  does, the timer's callback uses the freed lease.
\<close>

theorem callback_gap:
  fixes first :: "('l, unit) lease_monad"
  assumes E: "env_ok E" "fresh_malloc E" and r: "reachable E s" and l: "heap s p = Some l"
    and first: "first_half E \<lparr>self = p, cur = l, log = slog s\<rparr> first"
    and half: "on_lease p (do { emit (Timer_fired (Retransmit_timer p)); first }) s = Some (u, s1)"
    and gap: "run_actions E as s1 = Some s2"
  shows "sys_inv E s1 \<and> (\<exists>s'. on_lease p after_callback s1 = Some ((), s') \<and> perform E (Retransmit_expires p) s = Some s')
    \<and> (Stop (Some p) \<notin> set as \<and> Release (Some p) \<notin> set as \<longrightarrow>
        (\<exists>s3. on_lease p after_callback s2 = Some ((), s3) \<and> heap s3 = heap s2 \<and> sys_inv E s3))
    \<and> (as \<noteq> [] \<and> last as \<in> {Stop (Some p), Release (Some p)} \<longrightarrow> on_lease p after_callback s2 = None)"
proof -
  from fired_half [OF E r l first] half have s1: "sys_inv E s1" "p \<in> set (leases E s1)"
    and full: "\<exists>s'. on_lease p after_callback s1 = Some ((), s') \<and> perform E (Retransmit_expires p) s = Some s'"
    by auto
  have "\<exists>s3. on_lease p after_callback s2 = Some ((), s3) \<and> heap s3 = heap s2 \<and> sys_inv E s3"
    if "Stop (Some p) \<notin> set as \<and> Release (Some p) \<notin> set as"
  proof -
    have s2: "sys_inv E s2" "p \<in> set (leases E s2)" using run_keeps_lease [OF E s1(1) gap, of p] that s1(2) by blast+
    then obtain k where k: "heap s2 p = Some k" "lease_inv E p k" by (blast elim: sys_inv_lease)
    then have "lock k = Some (Lease_lock p)" by (simp add: inv_defs)
    then have "sys_inv E (s2\<lparr>slog := slog s2 @ [Mutex_lock (lock k), Mutex_unlock (lock k)]\<rparr>)"
      by (intro sys_inv_log [OF s2(1)]) simp_all
    with k(1) show ?thesis by (simp add: on_lease_eq [of s2 p k] Let_def after_callback_def run_simps fun_upd_idem)
  qed
  moreover have "on_lease p after_callback s2 = None" if "as \<noteq> [] \<and> last as \<in> {Stop (Some p), Release (Some p)}"
    using run_stop_frees [OF E s1(1), of "butlast as" "last as" s2 p] gap that by (auto simp: on_lease_def)
  ultimately show ?thesis using s1(1) full by blast
qed

text \<open>A lease whose ACK is probed; the application renews it from \<open>on_bound\<close>.\<close>

definition sample_probing :: "(dmroute_addr_t list, lease_ptr list) sys" where
  "sample_probing = the (run_actions silent_env (butlast sample_acquire) sample_open)"

lemma sample_probing_eval:
  "map_option (\<lambda>s. map_option state (heap s 1)) (run_actions silent_env (butlast sample_acquire) sample_open)
     = Some (Some dmdhcp_state_checking_ack)"
  by code_simp

lemma sample_probing_run:
  "run_actions silent_env (butlast sample_acquire) sample_open = Some sample_probing"
  "map_option state (heap sample_probing 1) = Some dmdhcp_state_checking_ack"
  using sample_probing_eval by (auto simp: sample_probing_def simp del: run_actions.simps)

theorem callback_gap_witness:
  "\<exists>s1 s2 s3. on_lease 1 (do { emit (Timer_fired (Retransmit_timer 1)); until_on_bound silent_env }) sample_probing = Some ((), s1)
     \<and> run_actions silent_env [Renew (Some 1)] s1 = Some s2 \<and> on_lease 1 after_callback s2 = Some ((), s3) \<and> heap s3 = heap s2"
proof -
  note r = run_actions_reachable [OF sample_open_reachable sample_probing_run(1)]
  obtain l where l: "heap sample_probing 1 = Some l" "state l = dmdhcp_state_checking_ack" using sample_probing_run(2) by auto
  have first: "first_half silent_env \<lparr>self = 1, cur = l, log = slog sample_probing\<rparr> (until_on_bound silent_env)"
    using l(2) by (simp add: first_half_def probe_answered_def silent_env_def sample_env_def)
  obtain s1 where s1: "on_lease 1 (do { emit (Timer_fired (Retransmit_timer 1)); until_on_bound silent_env }) sample_probing = Some ((), s1)"
      "sys_inv silent_env s1" "1 \<in> set (leases silent_env s1)"
    using fired_half [OF silent_env_ok r l(1) first] by blast
  obtain s2 where s2: "run_actions silent_env [Renew (Some 1)] s1 = Some s2"
    using renew_inv [OF silent_env_ok(1) s1(2,3)] s1(3) by (auto simp: usable_def with_handle_def)
  from callback_gap [OF silent_env_ok r l(1) first s1(1) s2] s1(1) s2 show ?thesis by auto
qed

end
