(* ===== verification/Dhcp_Sections.thy ===== *)
theory Dhcp_Sections
  imports Dhcp_Callbacks "HOL-Library.Multiset"
begin

text \<open>
  The handlers of a lease, cut at the places where they give up its lock. All data of a lease is read and
  written between \<open>dmosi_mutex_lock(lease->lock)\<close> and the unlock, so threads interleave by whole
  sections. Each handler is written here once more as its first section, which returns where the thread
  continues; run one after the other the sections are the handler.
\<close>

section \<open>Definitions\<close>

text \<open>Where a thread stands: at the start of a handler, or before a later section of one.\<close>

datatype pc =
    Enter trigger
  | Enter_set_callbacks "dmdhcp_callbacks_t option" void_ptr
  | Lost_teardown
  | Lost_restart
  | After_callback

text \<open>\<open>handle_conflict()\<close>, \<open>run_conflict_probe()\<close> and the retransmission timer's callback, up to the first unlock.\<close>

definition conflict_section :: "('l, 't) env \<Rightarrow> ('l, pc option) lease_monad" where
  "conflict_section E = do {
     send_decline E;
     modl (\<lambda>l. l\<lparr>decline_retry_count := decline_retry_count l + 1\<rparr>);
     n \<leftarrow> getl decline_retry_count;
     if n > DMDHCP_MAX_DECLINE_RETRIES
     then do {
       modl (\<lambda>l. l\<lparr>state := dmdhcp_state_failed\<rparr>);
       handler \<leftarrow> getl (\<lambda>l. on_error (callbacks l));
       ud \<leftarrow> getl user_data;
       p \<leftarrow> getself;
       unlock_lease;
       (case handler of
          None \<Rightarrow> State_Monad.return ()
        | Some f \<Rightarrow> emit (Call_on_error f p EADDRINUSE ud));
       State_Monad.return (Some After_callback) }
     else do {
       modl (\<lambda>l. l\<lparr>state := dmdhcp_state_declining\<rparr>);
       arm_timer retransmit_timer DMDHCP_DECLINE_PAUSE_MS;
       unlock_lease;
       State_Monad.return None } }"

definition probe_section :: "('l, 't) env \<Rightarrow> ('l, pc option) lease_monad" where
  "probe_section E = do {
     ifc \<leftarrow> getl iface;
     ip \<leftarrow> getl offered_ip;
     result \<leftarrow> call (\<lambda>h. env_arp_resolve E h ifc ip) (Arp_resolve ifc ip DMDHCP_ARP_PROBE_TIMEOUT_MS);
     if \<not> isl result then conflict_section E
     else do {
       st \<leftarrow> getl state;
       if st = dmdhcp_state_checking_offer
       then do {
         send_request_selecting E;
         modl (\<lambda>l. l\<lparr>state := dmdhcp_state_requesting\<rparr>);
         modl (\<lambda>l. l\<lparr>retransmit_count := 0\<rparr>);
         modl (\<lambda>l. l\<lparr>retransmit_interval_ms := DMDHCP_RETRANSMIT_INITIAL_MS\<rparr>);
         interval \<leftarrow> getl retransmit_interval_ms;
         arm_timer retransmit_timer interval;
         unlock_lease;
         State_Monad.return None }
       else do {
         dmdhcp_lifecycle_apply E;
         modl (\<lambda>l. l\<lparr>state := dmdhcp_state_bound\<rparr>);
         modl (\<lambda>l. l\<lparr>decline_retry_count := 0\<rparr>);
         dmdhcp_lifecycle_arm_t1;
         handler \<leftarrow> getl (\<lambda>l. on_bound (callbacks l));
         ud \<leftarrow> getl user_data;
         p \<leftarrow> getself;
         unlock_lease;
         (case handler of
            None \<Rightarrow> State_Monad.return ()
          | Some f \<Rightarrow> emit (Call_on_bound f p False ud));
         State_Monad.return (Some After_callback) } } }"

definition retransmit_section :: "('l, 't) env \<Rightarrow> ('l, pc option) lease_monad" where
  "retransmit_section E = do {
     m \<leftarrow> getl magic;
     if m \<noteq> DMDHCP_LEASE_MAGIC then State_Monad.return None
     else do {
       lock_lease;
       st \<leftarrow> getl state;
       (case st of
          dmdhcp_state_selecting \<Rightarrow> do { send_discover E; rearm_backoff; unlock_lease; State_Monad.return None }
        | dmdhcp_state_requesting \<Rightarrow> do {
            modl (\<lambda>l. l\<lparr>retransmit_count := retransmit_count l + 1\<rparr>);
            n \<leftarrow> getl retransmit_count;
            (if n > DMDHCP_MAX_REQUEST_RETRANSMITS then dmdhcp_output_start_discovery E
             else do { send_request_selecting E; rearm_backoff });
            unlock_lease; State_Monad.return None }
        | dmdhcp_state_rebooting \<Rightarrow> do {
            modl (\<lambda>l. l\<lparr>retransmit_count := retransmit_count l + 1\<rparr>);
            n \<leftarrow> getl retransmit_count;
            (if n > DMDHCP_MAX_REQUEST_RETRANSMITS then dmdhcp_output_start_discovery E
             else do { send_request_reboot E; rearm_backoff });
            unlock_lease; State_Monad.return None }
        | dmdhcp_state_renewing \<Rightarrow> do { send_request_renew E; rearm_backoff; unlock_lease; State_Monad.return None }
        | dmdhcp_state_rebinding \<Rightarrow> do { send_request_rebind E; rearm_backoff; unlock_lease; State_Monad.return None }
        | dmdhcp_state_checking_offer \<Rightarrow> probe_section E
        | dmdhcp_state_checking_ack \<Rightarrow> probe_section E
        | dmdhcp_state_declining \<Rightarrow> do { dmdhcp_output_start_discovery E; unlock_lease; State_Monad.return None }
        | _ \<Rightarrow> do { unlock_lease; State_Monad.return None }) } }"

definition lease_timer_section :: "('l, 't) env \<Rightarrow> ('l, pc option) lease_monad" where
  "lease_timer_section E = do {
     m \<leftarrow> getl magic;
     if m \<noteq> DMDHCP_LEASE_MAGIC then State_Monad.return None
     else do {
       lock_lease;
       st \<leftarrow> getl state;
       if st = dmdhcp_state_bound
       then do {
         dmdhcp_output_start_renew E;
         dmdhcp_lifecycle_arm_t2;
         unlock_lease;
         State_Monad.return None }
       else if st = dmdhcp_state_renewing
       then do {
         dmdhcp_output_start_rebind E;
         dmdhcp_lifecycle_arm_expiry;
         unlock_lease;
         State_Monad.return None }
       else if st = dmdhcp_state_rebinding
       then do {
         unlock_lease;
         State_Monad.return (Some Lost_teardown) }
       else do {
         unlock_lease;
         State_Monad.return None } } }"

text \<open>\<open>dmdhcp_handle_datagram()\<close> from the lock of the lease it found.\<close>

definition received_section :: "('l, 't) env \<Rightarrow> u8 \<Rightarrow> dmdhcp_message_t \<Rightarrow> u8 list \<Rightarrow> ('l, pc option) lease_monad" where
  "received_section E msg_type msg options = do {
     lock_lease;
     st \<leftarrow> getl state;
     if msg_type = msg_type_code dmdhcp_msg_offer \<and> st = dmdhcp_state_selecting
     then do {
       populate_lease_from_options E msg options;
       modl (\<lambda>l. l\<lparr>state := dmdhcp_state_checking_offer\<rparr>);
       arm_timer retransmit_timer DMDHCP_PROBE_HANDOFF_MS;
       unlock_lease;
       State_Monad.return None }
     else if msg_type = msg_type_code dmdhcp_msg_ack
       \<and> (st = dmdhcp_state_requesting \<or> st = dmdhcp_state_rebooting)
     then do {
       populate_lease_from_options E msg options;
       modl (\<lambda>l. l\<lparr>state := dmdhcp_state_checking_ack\<rparr>);
       arm_timer retransmit_timer DMDHCP_PROBE_HANDOFF_MS;
       unlock_lease;
       State_Monad.return None }
     else if msg_type = msg_type_code dmdhcp_msg_nak
       \<and> (st = dmdhcp_state_requesting \<or> st = dmdhcp_state_rebooting)
     then do {
       dmdhcp_output_start_discovery E;
       unlock_lease;
       State_Monad.return None }
     else if msg_type = msg_type_code dmdhcp_msg_ack
       \<and> (st = dmdhcp_state_renewing \<or> st = dmdhcp_state_rebinding)
     then do {
       populate_lease_from_options E msg options;
       dmdhcp_lifecycle_apply E;
       modl (\<lambda>l. l\<lparr>state := dmdhcp_state_bound\<rparr>);
       modl (\<lambda>l. l\<lparr>decline_retry_count := 0\<rparr>);
       dmdhcp_lifecycle_arm_t1;
       handler \<leftarrow> getl (\<lambda>l. on_bound (callbacks l));
       ud \<leftarrow> getl user_data;
       p \<leftarrow> getself;
       unlock_lease;
       (case handler of
          None \<Rightarrow> State_Monad.return ()
        | Some f \<Rightarrow> emit (Call_on_bound f p True ud));
       State_Monad.return None }
     else if msg_type = msg_type_code dmdhcp_msg_nak
       \<and> (st = dmdhcp_state_renewing \<or> st = dmdhcp_state_rebinding)
     then do {
       unlock_lease;
       State_Monad.return (Some Lost_teardown) }
     else do {
       unlock_lease;
       State_Monad.return None } }"

text \<open>\<open>dmdhcp_lifecycle_handle_lost()\<close> up to the call of \<open>on_expired_or_lost\<close>.\<close>

definition lost_section :: "('l, 't) env \<Rightarrow> ('l, pc option) lease_monad" where
  "lost_section E = do {
     (on_expired, ud) \<leftarrow> handle_lost_teardown E;
     p \<leftarrow> getself;
     (case on_expired of
        None \<Rightarrow> State_Monad.return ()
      | Some f \<Rightarrow> emit (Call_on_expired f p ud));
     State_Monad.return (Some Lost_restart) }"

fun run_section :: "('l, 't) env \<Rightarrow> pc \<Rightarrow> ('l, pc option) lease_monad" where
  "run_section E (Enter Retransmit_fired) = retransmit_section E"
| "run_section E (Enter Lease_timer_fired) = lease_timer_section E"
| "run_section E (Enter (Received ty m options)) = received_section E ty (wire_view m) options"
| "run_section E (Enter Renew_called) = do { dmdhcp_renew E; State_Monad.return None }"
| "run_section E (Enter_set_callbacks cbs ud) = do { dmdhcp_set_callbacks cbs ud; State_Monad.return None }"
| "run_section E Lost_teardown = lost_section E"
| "run_section E Lost_restart = do { handle_lost_restart E; State_Monad.return None }"
| "run_section E After_callback = do { after_callback; State_Monad.return None }"

text \<open>A thread that runs alone, for at most \<open>n\<close> sections.\<close>

fun run_sections :: "('l, 't) env \<Rightarrow> nat \<Rightarrow> pc \<Rightarrow> ('l, unit) lease_monad" where
  "run_sections E 0 c = State_Monad.return ()"
| "run_sections E (Suc n) c = do {
     next_pc \<leftarrow> run_section E c;
     (case next_pc of None \<Rightarrow> State_Monad.return () | Some c' \<Rightarrow> run_sections E n c') }"

section \<open>The sections are the handlers\<close>

text \<open>A section that ends the handler is all of it; otherwise the rest of the handler follows.\<close>

lemma conflict_split:
  "exec (do { handle_conflict E; unlock_lease }) s
     = (case run_state (conflict_section E) s of (None, t) \<Rightarrow> t | (Some _, t) \<Rightarrow> exec after_callback t)"
proof -
  obtain es where "exec (send_decline E) s = s\<lparr>log := log s @ es\<rparr>" using sender_effects(6) by blast
  then show ?thesis
    by (cases "on_error (callbacks (cur s))")
      (simp_all add: handle_conflict_def conflict_section_def after_callback_def run_simps)
qed

lemma probe_split:
  "exec (do { run_conflict_probe E; unlock_lease }) s
     = (case run_state (probe_section E) s of (None, t) \<Rightarrow> t | (Some _, t) \<Rightarrow> exec after_callback t)"
proof -
  let ?r = "env_arp_resolve E (log s) (iface (cur s)) (offered_ip (cur s))"
  let ?t = "s\<lparr>log := log s @ [Arp_resolve (iface (cur s)) (offered_ip (cur s)) DMDHCP_ARP_PROBE_TIMEOUT_MS ?r]\<rparr>"
  show ?thesis
  proof (cases "isl ?r")
    case True
    then show ?thesis
      by (simp add: run_conflict_probe_def probe_section_def after_callback_def run_simps split: option.splits)
  next
    case False
    then show ?thesis using conflict_split [of E ?t]
      by (simp add: run_conflict_probe_def probe_section_def run_simps)
  qed
qed

lemma retransmit_split:
  "exec (retransmit_timer_callback E) s
     = (case run_state (retransmit_section E) s of (None, t) \<Rightarrow> t | (Some _, t) \<Rightarrow> exec after_callback t)"
  using probe_split [of E "s\<lparr>log := log s @ [Mutex_lock (lock (cur s))]\<rparr>"]
  by (cases "state (cur s)") (simp_all add: retransmit_timer_callback_def retransmit_section_def run_simps)

lemma retransmit_next: "fst (run_state (retransmit_section E) s) \<in> {None, Some After_callback}"
  by (cases "state (cur s)")
    (auto simp: retransmit_section_def probe_section_def conflict_section_def run_simps split: option.splits)

lemma lease_timer_split:
  "exec (lease_timer_callback E) s
     = (case run_state (lease_timer_section E) s of (None, t) \<Rightarrow> t | (Some _, t) \<Rightarrow> exec (dmdhcp_lifecycle_handle_lost E) t)"
  "fst (run_state (lease_timer_section E) s) \<in> {None, Some Lost_teardown}"
  by (auto simp: lease_timer_callback_def lease_timer_section_def run_simps)

lemma received_split:
  "exec (dispatch_message E ty msg options) s
     = (case run_state (received_section E ty msg options) s of
          (None, t) \<Rightarrow> t | (Some _, t) \<Rightarrow> exec (dmdhcp_lifecycle_handle_lost E) t)"
  "fst (run_state (received_section E ty msg options) s) \<in> {None, Some Lost_teardown}"
  by (auto simp: dispatch_message_def received_section_def run_simps split: option.splits)

lemma lost_split: "exec (dmdhcp_lifecycle_handle_lost E) s = exec (handle_lost_restart E) (exec (lost_section E) s)"
  "fst (run_state (lost_section E) s) = Some Lost_restart"
  by (simp_all add: dmdhcp_lifecycle_handle_lost_def lost_section_def run_simps split: option.splits prod.splits)

text \<open>The moment a timer fires; its callback starts then, on the timer's thread.\<close>

fun arrive :: "trigger \<Rightarrow> ('l, unit) lease_monad" where
  "arrive Retransmit_fired = do { p \<leftarrow> getself; emit (Timer_fired (Retransmit_timer p)) }"
| "arrive Lease_timer_fired = do { p \<leftarrow> getself; emit (Timer_fired (Lease_timer p)) }"
| "arrive _ = State_Monad.return ()"

text \<open>Three sections are enough for every handler.\<close>

lemma run_sections_Suc:
  "exec (run_sections E (Suc n) c) s
     = (case run_state (run_section E c) s of (None, t) \<Rightarrow> t | (Some c', t) \<Rightarrow> exec (run_sections E n c') t)"
  by (simp add: run_simps exec_def split: option.splits prod.splits)

lemma run_lost_sections: "exec (run_sections E (Suc (Suc n)) Lost_teardown) s = exec (dmdhcp_lifecycle_handle_lost E) s"
  using lost_split(2) [of E s]
  by (cases "run_state (lost_section E) s") (simp add: run_sections_Suc lost_split(1) exec_def [of "lost_section E"] run_simps
      del: run_sections.simps)

lemma run_after_callback: "exec (run_sections E (Suc n) After_callback) s = exec after_callback s"
  by (simp add: run_simps)

lemma sections_handler:
  "exec (run_sections E (3 + n) (Enter tr)) (exec (arrive tr) s) = exec (handle E tr) s"
proof -
  have n: "3 + n = Suc (Suc (Suc n))" by simp
  show ?thesis
  proof (cases tr)
    case Retransmit_fired
    let ?t = "exec (arrive tr) s"
    from retransmit_next [of E ?t] retransmit_split [of E ?t] Retransmit_fired show ?thesis
      unfolding n run_sections_Suc by (auto simp: run_simps run_after_callback simp del: run_sections.simps split: prod.splits)
  next
    case Lease_timer_fired
    let ?t = "exec (arrive tr) s"
    from lease_timer_split [of E ?t] Lease_timer_fired show ?thesis
      unfolding n run_sections_Suc [of _ "Suc (Suc _)"]
      by (auto simp: run_simps run_lost_sections simp del: run_sections.simps split: prod.splits)
  next
    case (Received ty m options)
    with received_split [of E ty "wire_view m" options s] show ?thesis
      unfolding n run_sections_Suc [of _ "Suc (Suc _)"]
      by (auto simp: run_simps run_lost_sections simp del: run_sections.simps split: prod.splits)
  next
    case Renew_called
    then show ?thesis unfolding n run_sections_Suc by (simp add: run_simps)
  qed
qed

end
