(* ===== verification/Dhcp_Guarantees.thy ===== *)
theory Dhcp_Guarantees
  imports Dhcp_Sections
begin

text \<open>
  What the sections of a lease's handlers rely on and guarantee to the other threads. The invariant \<open>section_inv\<close> is the invariant of a lease
  without the two clauses that hold only where no thread runs in the middle of another one's handler; every section
  keeps it, keeps the two clauses with one exception, and leaves the timers the lease waits for running.
\<close>

section \<open>What every section keeps\<close>

definition section_inv :: "('l, 't) env \<Rightarrow> lease_ptr \<Rightarrow> 'l lease \<Rightarrow> bool" where
  "section_inv E p l \<longleftrightarrow> handles_ok p l \<and> state l \<noteq> dmdhcp_state_init \<and> state l \<noteq> dmdhcp_state_init_reboot
     \<and> (default_route l \<noteq> None \<longrightarrow> iface_configured l)
     \<and> (if state l = dmdhcp_state_selecting then offered_ip l = addr_none
        else family (offered_ip l) = dmroute_family_v4)
     \<and> 4000 \<le> unat (retransmit_interval_ms l) \<and> unat (retransmit_interval_ms l) \<le> 64000
     \<and> unat (retransmit_count l) \<le> 4
     \<and> servers_v4 E (dns_servers l) \<and> servers_v4 E (ntp_servers l)"

lemma lease_inv_section:
  "lease_inv E p l \<longleftrightarrow> section_inv E p l \<and> (iface_configured l \<longrightarrow> holds_valid_lease l)
     \<and> unat (decline_retry_count l) \<le> (if state l = dmdhcp_state_failed then 4 else 3)"
  by (auto simp: lease_inv_def fields_ok_def section_inv_def)

text \<open>
  The second half of a lost lease finds the lease as the first half left it, as far as it matters: the interface is not
  configured, and the lease has not failed.
\<close>

definition undisturbed :: "'l lease \<Rightarrow> bool" where
  "undisturbed l \<longleftrightarrow> \<not> iface_configured l \<and> state l \<noteq> dmdhcp_state_failed"

text \<open>
  The guarantee of the section \<open>c\<close>, which turns \<open>s\<close> into \<open>s'\<close> and continues at \<open>r\<close>. A state that waits for a timer is left
  with that timer running, unless it did not run before either and this section is not the one the timer started.
\<close>

abbreviation losing :: "pc set" where
  "losing \<equiv> {Lost_teardown, Lost_restart}"

definition wakes :: "pc \<Rightarrow> pc option \<Rightarrow> lease_ptr \<Rightarrow> 'l lease \<Rightarrow> 'l lease \<Rightarrow> history \<Rightarrow> bool" where
  "wakes c r p l l' es \<longleftrightarrow>
     (\<forall>tv. waiting (state l') \<longrightarrow> snd (observe timer_step tv es (Retransmit_timer p))
        \<or> waiting (state l) \<and> \<not> snd (tv (Retransmit_timer p)) \<and> c \<noteq> Enter Retransmit_fired)
   \<and> (\<forall>tv. holds_valid_lease l' \<longrightarrow> snd (observe timer_step tv es (Lease_timer p)) \<or> r \<in> Some ` losing
        \<or> holds_valid_lease l \<and> \<not> snd (tv (Lease_timer p)) \<and> c \<noteq> Enter Lease_timer_fired \<and> c \<notin> losing)"

definition guarantees :: "('l, 't) env \<Rightarrow> pc \<Rightarrow> 'l lctx \<Rightarrow> pc option \<times> 'l lctx \<Rightarrow> bool" where
  "guarantees E c s r \<longleftrightarrow> (\<exists>l es. snd r = s\<lparr>cur := l, log := log s @ es\<rparr> \<and> section_inv E (self s) l
     \<and> iface l = iface (cur s) \<and> hostname l = hostname (cur s)
     \<and> (lease_inv E (self s) (cur s) \<and> (c = Lost_restart \<longrightarrow> undisturbed (cur s)) \<longrightarrow> lease_inv E (self s) l)
     \<and> observe lock_step (Some []) es = Some []
     \<and> (\<forall>L. observe live_step L es = L)
     \<and> (\<forall>tv t. timer_owner t \<noteq> self s \<longrightarrow> observe timer_step tv es t = tv t)
     \<and> wakes c (fst r) (self s) (cur s) l es
     \<and> balance Addr_entry es = stored E l - stored E (cur s)
     \<and> balance Msg_buffer es = 0 \<and> balance Hostname es = 0)"

lemma guaranteesI:
  assumes "r = (n, s\<lparr>cur := l, log := log s @ es\<rparr>)" and "section_inv E (self s) l"
    and "iface l = iface (cur s)" "hostname l = hostname (cur s)"
    and "lease_inv E (self s) (cur s) \<Longrightarrow> (c = Lost_restart \<Longrightarrow> undisturbed (cur s)) \<Longrightarrow> lease_inv E (self s) l"
    and "observe lock_step (Some []) es = Some []"
    and "\<And>L. observe live_step L es = L"
    and "\<And>tv t. timer_owner t \<noteq> self s \<Longrightarrow> observe timer_step tv es t = tv t"
    and "wakes c n (self s) (cur s) l es"
    and "balance Addr_entry es = stored E l - stored E (cur s)"
    and "balance Msg_buffer es = 0" "balance Hostname es = 0"
  shows "guarantees E c s r"
  unfolding guarantees_def using assms by (intro exI [of _ l] exI [of _ es]) auto

lemmas section_defs = section_inv_def handles_ok_def lease_inv_section undisturbed_def

lemma section_magic:
  assumes "section_inv E p l"
  shows "magic l = DMDHCP_LEASE_MAGIC" "lock l = Some (Lease_lock p)" "dns_servers l \<noteq> None" "ntp_servers l \<noteq> None"
    "retransmit_timer l = Some (Retransmit_timer p)" "lease_timer l = Some (Lease_timer p)"
  using assms by (simp_all add: section_inv_def handles_ok_def)

section \<open>The retransmission timer\<close>

lemma retransmit_whole:
  assumes "state (cur s) \<notin> {dmdhcp_state_checking_offer, dmdhcp_state_checking_ack}"
  shows "run_state (retransmit_section E) s = (None, exec (retransmit_timer_callback E) s)"
proof -
  have "fst (run_state (retransmit_section E) s) = None"
    using assms by (cases "state (cur s)") (auto simp: retransmit_section_def run_simps)
  with retransmit_split [of E s] show ?thesis by (cases "run_state (retransmit_section E) s") simp
qed

lemma resend_guarantees:
  assumes inv: "section_inv E (self s) (cur s)"
    and st: "state (cur s) \<in> {dmdhcp_state_selecting, dmdhcp_state_renewing, dmdhcp_state_rebinding}
        \<and> c = retransmit_count (cur s)
      \<or> state (cur s) \<in> {dmdhcp_state_requesting, dmdhcp_state_rebooting}
        \<and> c = retransmit_count (cur s) + 1 \<and> c \<le> 4"
  shows "guarantees E (Enter Retransmit_fired) s (run_state (retransmit_section E) s)"
proof -
  from retransmit_resend_effect [OF section_magic(1) [OF inv] st] obtain es where es: "heap_only 0 es"
    and run: "exec (retransmit_timer_callback E) s =
      s\<lparr>cur := (cur s)\<lparr>retransmit_count := c,
           retransmit_interval_ms := next_backoff (retransmit_interval_ms (cur s))\<rparr>,
        log := log s @ Mutex_lock (lock (cur s)) # es
          @ armed (retransmit_timer (cur s)) (next_backoff (retransmit_interval_ms (cur s)))
          @ [Mutex_unlock (lock (cur s))]\<rparr>"
    by blast
  have "run_state (retransmit_section E) s = (None, exec (retransmit_timer_callback E) s)"
    using st by (intro retransmit_whole) auto
  note r = this [unfolded run]
  have "unat c \<le> 4" using inv st by (auto simp: section_inv_def word_le_nat_alt)
  with inv es interval_ok show ?thesis
    by (intro guaranteesI [OF r])
      (auto simp: section_defs holds_valid_lease_def heap_only_balance wakes_def stored_def dest: timer_owner_neq)
qed

text \<open>Starting discovery again, after the loss of the lease, a NAK, too many requests or a conflict.\<close>

lemma restart_guarantees:
  assumes E: "env_ok E" and inv: "section_inv E (self s) (cur s)"
    and c: "c = Lost_restart \<or> \<not> holds_valid_lease (cur s) \<and> state (cur s) \<noteq> dmdhcp_state_failed"
  shows "guarantees E c s (None, exec (handle_lost_restart E) (s\<lparr>cur := (cur s)\<lparr>retransmit_count := n\<rparr>\<rparr>))"
proof -
  let ?s = "s\<lparr>cur := (cur s)\<lparr>retransmit_count := n\<rparr>\<rparr>"
  obtain x es dns ntp where run: "exec (handle_lost_restart E) ?s =
      s\<lparr>cur := (cur s)\<lparr>xid := x, offered_ip := addr_none, server_id := addr_none,
           gateway := addr_none, netmask := addr_none, dns_servers := dns, ntp_servers := ntp,
           retransmit_count := 0, retransmit_interval_ms := 4000, state := dmdhcp_state_selecting\<rparr>,
        log := log s @ Mutex_lock (lock (cur s)) # es @ armed (retransmit_timer (cur s)) 4000
          @ [Mutex_unlock (lock (cur s))]\<rparr>"
    and es: "heap_only (- int (length (servers_of E (dns_servers (cur s))))
                - int (length (servers_of E (ntp_servers (cur s))))) es"
    and empt: "emptied E (dns_servers (cur s)) dns" "emptied E (ntp_servers (cur s)) ntp"
    using handle_lost_restart_effect [OF E, of ?s] by auto
  from inv c show ?thesis unfolding run
    by (intro guaranteesI [OF refl])
      (auto simp: section_defs holds_valid_lease_def heap_only_balance [OF es] wakes_def stored_def
        emptied_servers [OF empt(1)] emptied_servers [OF empt(2)] dest: timer_owner_neq)
qed

lemma give_up_guarantees:
  assumes E: "env_ok E" and inv: "section_inv E (self s) (cur s)"
    and st: "state (cur s) = dmdhcp_state_declining
      \<or> state (cur s) \<in> {dmdhcp_state_requesting, dmdhcp_state_rebooting} \<and> retransmit_count (cur s) + 1 > 4"
  shows "guarantees E (Enter Retransmit_fired) s (run_state (retransmit_section E) s)"
proof -
  have "run_state (retransmit_section E) s = (None, exec (retransmit_timer_callback E) s)"
    using st by (intro retransmit_whole) auto
  moreover have "\<not> holds_valid_lease (cur s) \<and> state (cur s) \<noteq> dmdhcp_state_failed"
    using st by (auto simp: holds_valid_lease_def)
  ultimately show ?thesis
    using st restart_guarantees [OF E inv, of "Enter Retransmit_fired" "retransmit_count (cur s)"]
      restart_guarantees [OF E inv, of "Enter Retransmit_fired" "retransmit_count (cur s) + 1"]
    by (auto simp: retransmit_restart_effect [OF section_magic(1) [OF inv]])
qed

text \<open>The conflict probe.\<close>

lemma conflict_section_effect:
  "\<exists>es. heap_only 0 es \<and> run_state (conflict_section E) s =
     (if decline_retry_count (cur s) + 1 > 3
      then (Some After_callback,
        s\<lparr>cur := (cur s)\<lparr>decline_retry_count := decline_retry_count (cur s) + 1, state := dmdhcp_state_failed\<rparr>,
          log := log s @ es @ Mutex_unlock (lock (cur s)) # error_call s\<rparr>)
      else (None,
        s\<lparr>cur := (cur s)\<lparr>decline_retry_count := decline_retry_count (cur s) + 1, state := dmdhcp_state_declining\<rparr>,
          log := log s @ es @ armed (retransmit_timer (cur s)) 10000 @ [Mutex_unlock (lock (cur s))]\<rparr>))"
proof -
  obtain es where "exec (send_decline E) s = s\<lparr>log := log s @ es\<rparr>" "heap_only 0 es"
    using sender_effects(6) by blast
  then show ?thesis
    by - (rule exI [of _ es], cases "on_error (callbacks (cur s))",
      simp_all add: conflict_section_def run_simps time_consts error_call_def)
qed

lemma conflict_guarantees:
  assumes inv: "section_inv E (self s) (cur s)"
    and st: "state (cur s) \<in> {dmdhcp_state_checking_offer, dmdhcp_state_checking_ack}"
    and arp: "\<not> isl (env_arp_resolve E (log s @ [Mutex_lock (lock (cur s))]) (iface (cur s)) (offered_ip (cur s)))"
  shows "guarantees E (Enter Retransmit_fired) s (run_state (retransmit_section E) s)"
proof -
  let ?n = "decline_retry_count (cur s) + 1"
  let ?a = "Arp_resolve (iface (cur s)) (offered_ip (cur s)) 1000
    (env_arp_resolve E (log s @ [Mutex_lock (lock (cur s))]) (iface (cur s)) (offered_ip (cur s)))"
  let ?t = "s\<lparr>log := log s @ [Mutex_lock (lock (cur s)), ?a]\<rparr>"
  have run: "run_state (retransmit_section E) s = run_state (conflict_section E) ?t"
    using st arp section_magic(1) [OF inv]
    by (auto simp: retransmit_section_def probe_section_def run_simps time_consts)
  obtain es where es: "heap_only 0 es" and c: "run_state (conflict_section E) ?t =
     (if ?n > 3
      then (Some After_callback,
        s\<lparr>cur := (cur s)\<lparr>decline_retry_count := ?n, state := dmdhcp_state_failed\<rparr>,
          log := log s @ Mutex_lock (lock (cur s)) # ?a # es @ Mutex_unlock (lock (cur s)) # error_call ?t\<rparr>)
      else (None,
        s\<lparr>cur := (cur s)\<lparr>decline_retry_count := ?n, state := dmdhcp_state_declining\<rparr>,
          log := log s @ Mutex_lock (lock (cur s)) # ?a # es @ armed (retransmit_timer (cur s)) 10000
            @ [Mutex_unlock (lock (cur s))]\<rparr>))"
    using conflict_section_effect [of E ?t] by auto
  show ?thesis
  proof (cases "?n > 3")
    case True
    have "unat ?n \<le> 4" if "unat (decline_retry_count (cur s)) \<le> 3" using that by (simp add: unat_word_ariths)
    with inv st es show ?thesis unfolding run c if_P [OF True]
      by (intro guaranteesI [OF refl])
        (auto simp: section_defs holds_valid_lease_def heap_only_balance [OF es] wakes_def waiting_def stored_def)
  next
    case False
    then have "unat ?n \<le> 3" by (simp add: word_less_nat_alt)
    with inv st es show ?thesis unfolding run c if_not_P [OF False]
      by (intro guaranteesI [OF refl])
        (auto simp: section_defs holds_valid_lease_def heap_only_balance [OF es] wakes_def stored_def dest: timer_owner_neq)
  qed
qed

lemma probe_offer_guarantees:
  assumes inv: "section_inv E (self s) (cur s)" and st: "state (cur s) = dmdhcp_state_checking_offer"
    and arp: "isl (env_arp_resolve E (log s @ [Mutex_lock (lock (cur s))]) (iface (cur s)) (offered_ip (cur s)))"
  shows "guarantees E (Enter Retransmit_fired) s (run_state (retransmit_section E) s)"
proof -
  let ?s = "s\<lparr>log := log s @ [Mutex_lock (lock (cur s))]\<rparr>"
  obtain es where es: "calm 0 es" and p: "exec (run_conflict_probe E) ?s =
      ?s\<lparr>cur := (cur ?s)\<lparr>state := dmdhcp_state_requesting, retransmit_count := 0, retransmit_interval_ms := 4000\<rparr>,
        log := log ?s @ es @ armed (retransmit_timer (cur ?s)) 4000\<rparr>"
    using probe_offer_effect [of E ?s] arp st by auto
  have "fst (run_state (retransmit_section E) s) = None"
    using st arp section_magic(1) [OF inv] by (simp add: retransmit_section_def probe_section_def run_simps)
  with retransmit_split [of E s] retransmit_probe_effect [OF section_magic(1) [OF inv], of E] st p
  have r: "run_state (retransmit_section E) s = (None,
      s\<lparr>cur := (cur s)\<lparr>state := dmdhcp_state_requesting, retransmit_count := 0, retransmit_interval_ms := 4000\<rparr>,
        log := log s @ Mutex_lock (lock (cur s)) # es @ armed (retransmit_timer (cur s)) 4000
          @ [Mutex_unlock (lock (cur s))]\<rparr>)"
    by (cases "run_state (retransmit_section E) s") (simp add: run_simps)
  from inv st show ?thesis
    by (intro guaranteesI [OF r])
      (auto simp: section_defs holds_valid_lease_def calm_balance [OF es] wakes_def stored_def dest: timer_owner_neq)
qed

lemma probe_ack_guarantees:
  assumes inv: "section_inv E (self s) (cur s)" and st: "state (cur s) = dmdhcp_state_checking_ack"
    and arp: "isl (env_arp_resolve E (log s @ [Mutex_lock (lock (cur s))]) (iface (cur s)) (offered_ip (cur s)))"
  shows "guarantees E (Enter Retransmit_fired) s (run_state (retransmit_section E) s)"
proof -
  let ?a = "Arp_resolve (iface (cur s)) (offered_ip (cur s)) 1000
    (env_arp_resolve E (log s @ [Mutex_lock (lock (cur s))]) (iface (cur s)) (offered_ip (cur s)))"
  let ?t = "s\<lparr>log := log s @ [Mutex_lock (lock (cur s)), ?a]\<rparr>"
  obtain es r ok where a: "exec (dmdhcp_lifecycle_apply E) ?t =
      ?t\<lparr>cur := (cur ?t)\<lparr>default_route := r, iface_configured := ok\<rparr>, log := log ?t @ es\<rparr>"
    and es: "list_all net_call es" and ok: "iface_configured (cur ?t) \<longrightarrow> ok" "r \<noteq> None \<longrightarrow> ok \<or> r = default_route (cur ?t)"
    using apply_effect by blast
  have run: "run_state (retransmit_section E) s = (Some After_callback,
      s\<lparr>cur := (cur s)\<lparr>default_route := r, iface_configured := ok, state := dmdhcp_state_bound, decline_retry_count := 0\<rparr>,
        log := log s @ Mutex_lock (lock (cur s)) # ?a # es @ armed (lease_timer (cur s)) (t1_period (cur s))
          @ Mutex_unlock (lock (cur s)) # bound_call False s\<rparr>)"
    using st arp a section_magic(1) [OF inv]
    by (cases "on_bound (callbacks (cur s))")
      (simp_all add: retransmit_section_def probe_section_def run_simps time_consts bound_call_def t1_period_def)
  have "r \<noteq> None \<longrightarrow> ok" using ok inv by (auto simp: section_inv_def)
  with inv st ok show ?thesis
    by (intro guaranteesI [OF run])
      (auto simp: section_defs holds_valid_lease_def net_calls_unobserved [OF es] calm_balance [OF net_call_calm [OF es]]
        wakes_def waiting_def stored_def dest: timer_owner_neq)
qed

text \<open>A section that finds nothing to do.\<close>

lemma stale_guarantees:
  assumes "section_inv E (self s) (cur s)"
    and "r = (n, s\<lparr>log := log s @ [Mutex_lock (lock (cur s)), Mutex_unlock (lock (cur s))]\<rparr>)"
    and "c = Enter Retransmit_fired \<Longrightarrow> \<not> waiting (state (cur s))"
    and "c = Enter Lease_timer_fired \<Longrightarrow> holds_valid_lease (cur s) \<Longrightarrow> n \<in> Some ` losing"
    and "c \<notin> losing"
  shows "guarantees E c s r"
proof -
  have "r = (n, s\<lparr>cur := cur s, log := log s @ [Mutex_lock (lock (cur s)), Mutex_unlock (lock (cur s))]\<rparr>)"
    using assms(2) by simp
  from assms(1,3-5) show ?thesis
    by (intro guaranteesI [OF \<open>r = (n, s\<lparr>cur := cur s, log := _\<rparr>)\<close>]) (auto simp: section_magic wakes_def)
qed

lemma retransmit_guarantees:
  assumes E: "env_ok E" and inv: "section_inv E (self s) (cur s)"
  shows "guarantees E (Enter Retransmit_fired) s (run_state (retransmit_section E) s)"
proof -
  consider "state (cur s) \<in> {dmdhcp_state_selecting, dmdhcp_state_renewing, dmdhcp_state_rebinding}"
    | "state (cur s) \<in> {dmdhcp_state_requesting, dmdhcp_state_rebooting}" "retransmit_count (cur s) + 1 \<le> 4"
    | "state (cur s) = dmdhcp_state_declining
        \<or> state (cur s) \<in> {dmdhcp_state_requesting, dmdhcp_state_rebooting} \<and> retransmit_count (cur s) + 1 > 4"
    | "state (cur s) \<in> {dmdhcp_state_checking_offer, dmdhcp_state_checking_ack}"
    | "state (cur s) \<in> {dmdhcp_state_bound, dmdhcp_state_failed, dmdhcp_state_init, dmdhcp_state_init_reboot}"
    by (cases "state (cur s)"; cases "retransmit_count (cur s) + 1 \<le> 4") (auto simp: not_le)
  then show ?thesis
  proof cases
    case 1
    then show ?thesis using resend_guarantees [OF inv] by blast
  next
    case 2
    then show ?thesis using resend_guarantees [OF inv] by blast
  next
    case 3
    then show ?thesis by (rule give_up_guarantees [OF E inv])
  next
    case 4
    then show ?thesis
      using conflict_guarantees [OF inv] probe_offer_guarantees [OF inv] probe_ack_guarantees [OF inv] by blast
  next
    case 5
    then have "run_state (retransmit_section E) s
        = (None, s\<lparr>log := log s @ [Mutex_lock (lock (cur s)), Mutex_unlock (lock (cur s))]\<rparr>)"
      using section_magic(1) [OF inv] by (auto simp: retransmit_section_def run_simps)
    from stale_guarantees [OF inv this] 5 show ?thesis by (auto simp: waiting_def)
  qed
qed

section \<open>The lease timer and the loss of the lease\<close>

lemma lease_timer_guarantees:
  assumes inv: "section_inv E (self s) (cur s)"
  shows "guarantees E (Enter Lease_timer_fired) s (run_state (lease_timer_section E) s)"
proof -
  note m = section_magic(1) [OF inv]
  consider "state (cur s) \<in> {dmdhcp_state_bound, dmdhcp_state_renewing}" | "state (cur s) = dmdhcp_state_rebinding"
    | "\<not> holds_valid_lease (cur s)"
    by (auto simp: holds_valid_lease_def)
  then show ?thesis
  proof cases
    case 1
    from lease_timer_renew_effect [OF m 1, of E] obtain es where es: "heap_only 0 es" and run: "exec (lease_timer_callback E) s =
      s\<lparr>cur := (cur s)\<lparr>xid := env_rand32 E (log s @ [Mutex_lock (lock (cur s))]), retransmit_count := 0, retransmit_interval_ms := 4000,
          state := (if state (cur s) = dmdhcp_state_bound then dmdhcp_state_renewing else dmdhcp_state_rebinding)\<rparr>,
        log := log s @ Mutex_lock (lock (cur s)) # es @ armed (retransmit_timer (cur s)) 4000
          @ armed (lease_timer (cur s)) (if state (cur s) = dmdhcp_state_bound then t2_period (cur s) else expiry_period (cur s))
          @ [Mutex_unlock (lock (cur s))]\<rparr>"
      by (elim exE conjE) (rule that)
    have "fst (run_state (lease_timer_section E) s) = None" using 1 m by (auto simp: lease_timer_section_def run_simps)
    with lease_timer_split(1) [of E s] have r: "run_state (lease_timer_section E) s = (None, exec (lease_timer_callback E) s)"
      by (cases "run_state (lease_timer_section E) s") simp
    from inv 1 show ?thesis
      by (intro guaranteesI [OF r [unfolded run]])
        (auto simp: section_defs holds_valid_lease_def heap_only_balance [OF es] wakes_def stored_def dest: timer_owner_neq)
  next
    case 2
    with m have "run_state (lease_timer_section E) s
        = (Some Lost_teardown, s\<lparr>log := log s @ [Mutex_lock (lock (cur s)), Mutex_unlock (lock (cur s))]\<rparr>)"
      by (simp add: lease_timer_section_def run_simps)
    then show ?thesis by (rule stale_guarantees [OF inv]) auto
  next
    case 3
    with m have "run_state (lease_timer_section E) s
        = (None, s\<lparr>log := log s @ [Mutex_lock (lock (cur s)), Mutex_unlock (lock (cur s))]\<rparr>)"
      by (auto simp: lease_timer_section_def run_simps holds_valid_lease_def)
    with 3 show ?thesis by (intro stale_guarantees [OF inv]) auto
  qed
qed

lemma lost_guarantees:
  assumes E: "env_ok E" and inv: "section_inv E (self s) (cur s)"
  shows "guarantees E Lost_teardown s (run_state (lost_section E) s)"
proof -
  obtain es fs ntp where run: "run_state (handle_lost_teardown E) s =
      ((on_expired_or_lost (callbacks (cur s)), user_data (cur s)),
       s\<lparr>cur := (cur s)\<lparr>default_route := (if iface_configured (cur s) then None else default_route (cur s)),
            iface_configured := False, ntp_servers := ntp\<rparr>,
         log := log s @ Mutex_lock (lock (cur s)) # es @ fs @ [Mutex_unlock (lock (cur s))]\<rparr>)"
    and es: "list_all net_call es" and fs: "heap_only (- int (length (servers_of E (ntp_servers (cur s))))) fs"
    and empt: "emptied E (ntp_servers (cur s)) ntp"
    using handle_lost_teardown_effect [OF E, of s] by blast
  have r: "run_state (lost_section E) s = (Some Lost_restart,
      s\<lparr>cur := (cur s)\<lparr>default_route := (if iface_configured (cur s) then None else default_route (cur s)),
            iface_configured := False, ntp_servers := ntp\<rparr>,
         log := log s @ Mutex_lock (lock (cur s)) # es @ fs @ Mutex_unlock (lock (cur s)) # expired_call s\<rparr>)"
    by (cases "on_expired_or_lost (callbacks (cur s))") (simp_all add: lost_section_def run run_simps exec_def [of "handle_lost_teardown E"] expired_call_def)
  have "default_route (cur s) = None \<or> iface_configured (cur s)" using inv by (auto simp: section_inv_def)
  with inv show ?thesis
    by (intro guaranteesI [OF r])
      (auto simp: section_defs holds_valid_lease_def net_calls_unobserved [OF es] calm_balance [OF net_call_calm [OF es]]
        heap_only_balance [OF fs] wakes_def stored_def emptied_servers [OF empt])
qed

section \<open>Received messages and the application's calls\<close>

lemma received_whole:
  assumes "\<not> (ty = 6 \<and> state (cur s) \<in> {dmdhcp_state_renewing, dmdhcp_state_rebinding})"
  shows "run_state (received_section E ty msg options) s = (None, exec (dispatch_message E ty msg options) s)"
proof -
  have "fst (run_state (received_section E ty msg options) s) = None"
    using assms by (auto simp: received_section_def run_simps split: option.splits)
  with received_split(1) [of E ty msg options s] show ?thesis
    by (cases "run_state (received_section E ty msg options) s") simp
qed

lemma received_offer_guarantees:
  assumes E: "env_ok E" and inv: "section_inv E (self s) (cur s)"
    and branch: "ty = 2 \<and> state (cur s) = dmdhcp_state_selecting \<and> st' = dmdhcp_state_checking_offer
      \<or> ty = 5 \<and> state (cur s) \<in> {dmdhcp_state_requesting, dmdhcp_state_rebooting} \<and> st' = dmdhcp_state_checking_ack"
  shows "guarantees E (Enter (Received ty m options)) s (run_state (received_section E ty (wire_view m) options) s)"
proof -
  obtain es dns ntp where run: "exec (dispatch_message E ty (wire_view m) options) s
      = s\<lparr>cur := (populated (wire_view m) options dns ntp (cur s))\<lparr>state := st'\<rparr>,
          log := log s @ Mutex_lock (lock (cur s)) # es @ armed (retransmit_timer (cur s)) 1
            @ [Mutex_unlock (lock (cur s))]\<rparr>"
    and fill: "filled E (dns_value options) dns es" "filled E (ntp_value options) ntp es"
    and es: "heap_only (stored E (populated (wire_view m) options dns ntp (cur s)) - stored E (cur s)) es"
    using dispatch_offer_effect [OF E section_magic(3,4) [OF inv] branch] by blast
  note v4 = filled_v4 [OF fill(1) values_v4(1)] filled_v4 [OF fill(2) values_v4(2)]
  have r: "run_state (received_section E ty (wire_view m) options) s = (None, exec (dispatch_message E ty (wire_view m) options) s)"
    using branch by (intro received_whole) auto
  have "stored E ((populated (wire_view m) options dns ntp (cur s))\<lparr>state := st'\<rparr>)
      = stored E (populated (wire_view m) options dns ntp (cur s))"
    by (simp add: stored_def)
  with inv branch show ?thesis
    by (intro guaranteesI [OF r [unfolded run]])
      (auto simp: section_defs holds_valid_lease_def heap_only_balance [OF es] v4 wakes_def dest: timer_owner_neq)
qed

lemma received_renewed_guarantees:
  assumes E: "env_ok E" and inv: "section_inv E (self s) (cur s)"
    and branch: "state (cur s) \<in> {dmdhcp_state_renewing, dmdhcp_state_rebinding}"
  shows "guarantees E (Enter (Received 5 m options)) s (run_state (received_section E 5 (wire_view m) options) s)"
proof -
  obtain es fs dns ntp r ok where run: "exec (dispatch_message E 5 (wire_view m) options) s
      = s\<lparr>cur := (populated (wire_view m) options dns ntp (cur s))\<lparr>default_route := r, iface_configured := ok,
             state := dmdhcp_state_bound, decline_retry_count := 0\<rparr>,
          log := log s @ Mutex_lock (lock (cur s)) # es @ fs
            @ armed (lease_timer (cur s)) (t1_period (populated (wire_view m) options dns ntp (cur s)))
            @ Mutex_unlock (lock (cur s)) # bound_call True s\<rparr>"
    and fill: "filled E (dns_value options) dns es" "filled E (ntp_value options) ntp es"
    and es: "heap_only (stored E (populated (wire_view m) options dns ntp (cur s)) - stored E (cur s)) es"
    and fs: "list_all net_call fs" and ok: "iface_configured (cur s) \<longrightarrow> ok"
      "r \<noteq> None \<longrightarrow> ok \<or> r = default_route (cur s)"
    using dispatch_renewed_effect [OF E section_magic(3,4) [OF inv] branch] by blast
  note v4 = filled_v4 [OF fill(1) values_v4(1)] filled_v4 [OF fill(2) values_v4(2)]
  have whole: "run_state (received_section E 5 (wire_view m) options) s = (None, exec (dispatch_message E 5 (wire_view m) options) s)"
    by (rule received_whole) simp
  have "stored E ((populated (wire_view m) options dns ntp (cur s))\<lparr>default_route := r, iface_configured := ok,
      state := dmdhcp_state_bound, decline_retry_count := 0\<rparr>)
      = stored E (populated (wire_view m) options dns ntp (cur s))"
    by (simp add: stored_def)
  moreover have "r \<noteq> None \<longrightarrow> ok" using ok inv by (auto simp: section_inv_def)
  ultimately show ?thesis
    using inv branch
    by (intro guaranteesI [OF whole [unfolded run]])
      (auto simp: section_defs holds_valid_lease_def heap_only_balance [OF es] net_calls_unobserved [OF fs] v4 wakes_def waiting_def
        dest: timer_owner_neq)
qed

lemma received_guarantees:
  assumes E: "env_ok E" and inv: "section_inv E (self s) (cur s)"
  shows "guarantees E (Enter (Received ty m options)) s (run_state (received_section E ty (wire_view m) options) s)"
proof -
  note whole = received_whole [of ty s E "wire_view m" options]
  consider "\<not> expected ty (state (cur s))" | "ty = 2" "state (cur s) = dmdhcp_state_selecting"
    | "ty = 5" "state (cur s) \<in> {dmdhcp_state_requesting, dmdhcp_state_rebooting}"
    | "ty = 6" "state (cur s) \<in> {dmdhcp_state_requesting, dmdhcp_state_rebooting}"
    | "ty = 5" "state (cur s) \<in> {dmdhcp_state_renewing, dmdhcp_state_rebinding}"
    | "ty = 6" "state (cur s) \<in> {dmdhcp_state_renewing, dmdhcp_state_rebinding}"
    by (auto simp: expected_def)
  then show ?thesis
  proof cases
    case 1
    then have "run_state (received_section E ty (wire_view m) options) s
        = (None, s\<lparr>log := log s @ [Mutex_lock (lock (cur s)), Mutex_unlock (lock (cur s))]\<rparr>)"
      using whole dispatch_ignored_effect [OF 1] by (auto simp: expected_def)
    then show ?thesis by (rule stale_guarantees [OF inv]) auto
  next
    case 2
    then show ?thesis using received_offer_guarantees [OF E inv] by blast
  next
    case 3
    then show ?thesis using received_offer_guarantees [OF E inv] by blast
  next
    case 4
    then have "run_state (received_section E ty (wire_view m) options) s = (None, exec (handle_lost_restart E) s)"
      using whole by (auto simp: dispatch_nak_effect [OF E])
    moreover have "\<not> holds_valid_lease (cur s) \<and> state (cur s) \<noteq> dmdhcp_state_failed"
      using 4 by (auto simp: holds_valid_lease_def)
    ultimately show ?thesis
      using restart_guarantees [OF E inv, of "Enter (Received ty m options)" "retransmit_count (cur s)"] by simp
  next
    case 5
    then show ?thesis using received_renewed_guarantees [OF E inv] by blast
  next
    case 6
    then have "run_state (received_section E ty (wire_view m) options) s
        = (Some Lost_teardown, s\<lparr>log := log s @ [Mutex_lock (lock (cur s)), Mutex_unlock (lock (cur s))]\<rparr>)"
      by (auto simp: received_section_def run_simps)
    then show ?thesis by (rule stale_guarantees [OF inv]) auto
  qed
qed

lemma renew_guarantees:
  assumes inv: "section_inv E (self s) (cur s)"
  shows "guarantees E (Enter Renew_called) s (None, exec (dmdhcp_renew E) s)"
proof (cases "state (cur s) = dmdhcp_state_bound")
  case True
  obtain x es where run: "exec (dmdhcp_renew E) s =
      s\<lparr>cur := (cur s)\<lparr>xid := x, retransmit_count := 0, retransmit_interval_ms := 4000,
           state := dmdhcp_state_renewing\<rparr>,
        log := log s @ Mutex_lock (lock (cur s)) # es @ armed (retransmit_timer (cur s)) 4000
          @ [Mutex_unlock (lock (cur s))]\<rparr>" and es: "heap_only 0 es"
    using renew_effect [OF section_magic(1) [OF inv] True] by blast
  from inv True show ?thesis unfolding run
    by (intro guaranteesI [OF refl])
      (auto simp: section_defs holds_valid_lease_def heap_only_balance [OF es] wakes_def stored_def dest: timer_owner_neq)
next
  case False
  then have "exec (dmdhcp_renew E) s
      = s\<lparr>log := log s @ [Mutex_lock (lock (cur s)), Mutex_unlock (lock (cur s))]\<rparr>"
    using section_magic(1) [OF inv] by (simp add: dmdhcp_renew_def run_simps)
  then show ?thesis by (intro stale_guarantees [OF inv]) auto
qed

lemma set_callbacks_guarantees:
  assumes inv: "section_inv E (self s) (cur s)"
  shows "guarantees E (Enter_set_callbacks cbs ud) s (None, exec (dmdhcp_set_callbacks cbs ud) s)"
proof -
  have run: "exec (dmdhcp_set_callbacks cbs ud) s =
      s\<lparr>cur := (cur s)\<lparr>callbacks := (case cbs of Some c \<Rightarrow> c | None \<Rightarrow> no_callbacks), user_data := ud\<rparr>,
        log := log s @ [Mutex_lock (lock (cur s)), Mutex_unlock (lock (cur s))]\<rparr>"
    using section_magic(1) [OF inv] by (simp add: dmdhcp_set_callbacks_def run_simps)
  from inv show ?thesis unfolding run
    by (intro guaranteesI [OF refl]) (auto simp: section_defs holds_valid_lease_def wakes_def stored_def)
qed

lemma section_guarantees:
  assumes E: "env_ok E" and inv: "section_inv E (self s) (cur s)"
  shows "guarantees E c s (run_state (run_section E c) s)"
proof (cases "(E, c)" rule: run_section.cases)
  case (8 E')
  then have "run_state (run_section E c) s = (None, s\<lparr>log := log s @ [Mutex_lock (lock (cur s)), Mutex_unlock (lock (cur s))]\<rparr>)"
    by (simp add: after_callback_def run_simps)
  with 8 show ?thesis by (intro stale_guarantees [OF inv]) auto
next
  case (7 E')
  then show ?thesis using restart_guarantees [OF E inv, of Lost_restart "retransmit_count (cur s)"] by (simp add: run_simps)
qed (simp_all add: run_simps retransmit_guarantees [OF E inv] lease_timer_guarantees [OF inv] received_guarantees [OF E inv]
    renew_guarantees [OF inv] set_callbacks_guarantees [OF inv] lost_guarantees [OF E inv])

end
