(* ===== verification/Dhcp_Interleaving.thy ===== *)
theory Dhcp_Interleaving
  imports Dhcp_Guarantees
begin

text \<open>
  Any number of threads on one lease. Timers fire, datagrams arrive and the application calls at any time, each on a thread of its
  own; the threads interleave by sections, and the other threads of the system make calls of their own in between.
\<close>

section \<open>Threads on a lease\<close>

text \<open>The lease with the log, where its threads stand, and the calls of threads that work elsewhere.\<close>

record 'l pool =
  shared :: "'l lctx"
  threads :: "pc multiset"
  elsewhere :: history

text \<open>Calls that are not about the timers of the lease and do not free it.\<close>

fun foreign :: "lease_ptr \<Rightarrow> event \<Rightarrow> bool" where
  "foreign p (Timer_create t _ _) = (timer_owner t \<noteq> p)"
| "foreign p (Timer_set_period (Some t) _) = (timer_owner t \<noteq> p)"
| "foreign p (Timer_start (Some t)) = (timer_owner t \<noteq> p)"
| "foreign p (Timer_stop t) = (timer_owner t \<noteq> p)"
| "foreign p (Timer_destroy t) = (timer_owner t \<noteq> p)"
| "foreign p (Timer_fired t) = (timer_owner t \<noteq> p)"
| "foreign p (Free_lease q) = (q \<noteq> p)"
| "foreign p _ = True"

lemma foreign_timers: "list_all (foreign p) es \<Longrightarrow> timer_owner t = p \<Longrightarrow> observe timer_step tv es t = tv t"
proof (induction es arbitrary: tv)
  case (Cons e es)
  then have "timer_step tv e t = tv t" by (cases "(tv, e)" rule: timer_step.cases) auto
  with Cons show ?case by simp
qed simp

inductive pool_step :: "(pc \<Rightarrow> ('l, pc option) lease_monad) \<Rightarrow> 'l pool \<Rightarrow> 'l pool \<Rightarrow> bool" for code where
  arrives: "pool_step code g (g\<lparr>shared := exec (arrive tr) (shared g), threads := add_mset (Enter tr) (threads g)\<rparr>)"
| sets_callbacks: "pool_step code g (g\<lparr>threads := add_mset (Enter_set_callbacks cbs ud) (threads g)\<rparr>)"
| runs: "c \<in># threads g \<Longrightarrow> run_state (code c) (shared g) = (r, s) \<Longrightarrow>
    pool_step code g (g\<lparr>shared := s, threads := threads g - {#c#} + mset_set (set_option r)\<rparr>)"
| others: "list_all (foreign (self (shared g))) es \<Longrightarrow>
    pool_step code g (g\<lparr>shared := (shared g)\<lparr>log := log (shared g) @ es\<rparr>, elsewhere := elsewhere g @ es\<rparr>)"

abbreviation pool_reaches :: "(pc \<Rightarrow> ('l, pc option) lease_monad) \<Rightarrow> 'l pool \<Rightarrow> 'l pool \<Rightarrow> bool" where
  "pool_reaches code \<equiv> (pool_step code)\<^sup>*\<^sup>*"

definition lone :: "'l lctx \<Rightarrow> 'l pool" where
  "lone s = \<lparr>shared = s, threads = {#}, elsewhere = []\<rparr>"

text \<open>A state that waits for a timer finds it running, or a thread at work that will arm the next one.\<close>

definition awake :: "timers \<Rightarrow> 'l pool \<Rightarrow> bool" where
  "awake tv g \<longleftrightarrow> (let p = self (shared g); l = cur (shared g); now = observe timer_step tv (log (shared g)) in
     (waiting (state l) \<longrightarrow> snd (now (Retransmit_timer p)) \<or> Enter Retransmit_fired \<in># threads g)
   \<and> (holds_valid_lease l \<longrightarrow> snd (now (Lease_timer p)) \<or> Enter Lease_timer_fired \<in># threads g
        \<or> Lost_teardown \<in># threads g \<or> Lost_restart \<in># threads g))"

text \<open>A thread is about to forget a lease that another thread has configured, or let fail, meanwhile.\<close>

definition overtaken :: "'l pool \<Rightarrow> bool" where
  "overtaken g \<longleftrightarrow> Lost_restart \<in># threads g \<and> \<not> undisturbed (cur (shared g))"

section \<open>The rule\<close>

locale interleaved =
  fixes E :: "('l, 't) env"
    and code :: "pc \<Rightarrow> ('l, pc option) lease_monad"
  assumes guarantee: "env_ok E \<Longrightarrow> section_inv E (self s) (cur s) \<Longrightarrow> guarantees E c s (run_state (code c) s)"
begin

text \<open>What one step of any thread keeps.\<close>

lemma step_keeps:
  assumes E: "env_ok E" and step: "pool_step code g h" and inv: "section_inv E (self (shared g)) (cur (shared g))"
  shows "self (shared h) = self (shared g) \<and> section_inv E (self (shared g)) (cur (shared h))
    \<and> (awake tv g \<longrightarrow> awake tv h)
    \<and> balance Addr_entry (log (shared h)) - balance Addr_entry (elsewhere h) - stored E (cur (shared h))
      = balance Addr_entry (log (shared g)) - balance Addr_entry (elsewhere g) - stored E (cur (shared g))
    \<and> (lease_inv E (self (shared g)) (cur (shared g)) \<and> \<not> overtaken g \<longrightarrow> lease_inv E (self (shared g)) (cur (shared h)))"
  using step
proof cases
  case (arrives tr)
  with inv show ?thesis by (cases tr) (auto simp: awake_def Let_def run_simps)
next
  case (sets_callbacks cbs ud)
  with inv show ?thesis by (auto simp: awake_def Let_def)
next
  case (others es)
  with inv foreign_timers [OF others(2)] show ?thesis by (auto simp: awake_def Let_def)
next
  case (runs c r s)
  from guarantee [OF E inv, of c] runs(3) obtain l es where s: "s = (shared g)\<lparr>cur := l, log := log (shared g) @ es\<rparr>"
    and l: "section_inv E (self (shared g)) l"
      "lease_inv E (self (shared g)) (cur (shared g)) \<Longrightarrow> (c = Lost_restart \<Longrightarrow> undisturbed (cur (shared g))) \<Longrightarrow>
        lease_inv E (self (shared g)) l"
      "wakes c r (self (shared g)) (cur (shared g)) l es" "balance Addr_entry es = stored E l - stored E (cur (shared g))"
    by (auto simp: guarantees_def)
  have "awake tv h" if a: "awake tv g"
  proof -
    let ?now = "observe timer_step tv (log (shared g))"
    have stays: "c' \<in># threads g \<Longrightarrow> c' \<noteq> c \<Longrightarrow> c' \<in># threads h" for c'
      using runs(1) by (simp add: in_diff_count)
    have new: "r = Some c' \<Longrightarrow> c' \<in># threads h" for c' using runs(1) by simp
    have "waiting (state l) \<longrightarrow> snd (observe timer_step ?now es (Retransmit_timer (self (shared g)))) \<or> Enter Retransmit_fired \<in># threads h"
      using l(3) a stays by (auto simp: wakes_def awake_def Let_def)
    moreover have "holds_valid_lease l \<longrightarrow> snd (observe timer_step ?now es (Lease_timer (self (shared g)))) \<or> Enter Lease_timer_fired \<in># threads h
        \<or> Lost_teardown \<in># threads h \<or> Lost_restart \<in># threads h"
      using l(3) a stays new by (auto simp: wakes_def awake_def Let_def)
    ultimately show ?thesis using runs(1) by (simp add: awake_def s Let_def)
  qed
  with s l runs(1,2) show ?thesis by (auto simp: overtaken_def)
qed

lemma reaches_keeps:
  assumes E: "env_ok E" and reach: "pool_reaches code (lone s) g" and inv: "lease_inv E (self s) (cur s)"
    and timers: "timers_ok None (observe timer_step tv (log s)) (self s) (cur s)"
  shows "self (shared g) = self s \<and> section_inv E (self s) (cur (shared g)) \<and> awake tv g
    \<and> balance Addr_entry (log (shared g)) - balance Addr_entry (elsewhere g) - stored E (cur (shared g))
      = balance Addr_entry (log s) - stored E (cur s)
    \<and> (lease_inv E (self s) (cur (shared g)) \<or> (\<exists>h. pool_reaches code (lone s) h \<and> pool_reaches code h g \<and> overtaken h))"
  using reach
proof (induction rule: rtranclp_induct)
  case base
  from inv timers show ?case by (simp add: lone_def awake_def timers_ok_def lease_inv_section Let_def)
next
  case (step g h)
  from step.IH step_keeps [OF E step.hyps(2), of tv] step.hyps show ?case
    by (auto intro: rtranclp.rtrancl_into_rtrancl)
qed

end

interpretation sections: interleaved E "run_section E" for E
  by unfold_locales (rule section_guarantees)

section \<open>The property\<close>

text \<open>
  C12. Threads on one lease. The two timers may fire, messages arrive, and the application renew the lease or set its callbacks at any moment
  and any number of times, each on a thread of its own; between any two locked sections of a handler the other threads may run, and threads
  that work elsewhere make any calls that leave the lease's timers alone. In every state of every such interleaving the lease is well-formed (its handles,
  its state and address, the bounds of its retransmission interval and counter, a default route only on a configured interface, server
  lists of IPv4 addresses), the allocated server entries are exactly those in its lists, and no wake-up is lost: a state that waits for a
  timer finds it running, or the thread that the timer started, or that takes the lost lease back, still at work. The full invariant
  of a lease holds as well, except after a moment at which the second half of the handling of a lost lease was about to run and another
  thread had configured the interface, or let the lease fail, since the first half.
\<close>

theorem interleaving_invariant:
  fixes s :: "'l lctx" and tv :: timers
  assumes "env_ok E" and "lease_inv E (self s) (cur s)"
    and "timers_ok None (observe timer_step tv (log s)) (self s) (cur s)"
    and "pool_reaches (run_section E) (lone s) g"
  defines "p \<equiv> self s" and "l \<equiv> cur (shared g)" and "now \<equiv> observe timer_step tv (log (shared g))"
  shows "section_inv E p l
    \<and> balance Addr_entry (log (shared g)) - balance Addr_entry (elsewhere g) - stored E l
      = balance Addr_entry (log s) - stored E (cur s)
    \<and> (waiting (state l) \<longrightarrow> snd (now (Retransmit_timer p)) \<or> Enter Retransmit_fired \<in># threads g)
    \<and> (holds_valid_lease l \<longrightarrow> snd (now (Lease_timer p)) \<or> Enter Lease_timer_fired \<in># threads g
         \<or> Lost_teardown \<in># threads g \<or> Lost_restart \<in># threads g)
    \<and> (lease_inv E p l \<or> (\<exists>h. pool_reaches (run_section E) (lone s) h \<and> pool_reaches (run_section E) h g
         \<and> Lost_restart \<in># threads h \<and> (iface_configured (cur (shared h)) \<or> state (cur (shared h)) = dmdhcp_state_failed)))"
  using sections.reaches_keeps [OF assms(1,4,2,3)]
  by (auto simp: awake_def Let_def p_def l_def now_def overtaken_def undisturbed_def)

text \<open>A lease that expires while an ACK for it arrives.\<close>

lemma runs_to:
  assumes "pool_reaches code g \<lparr>shared = s, threads = add_mset c cs, elsewhere = es\<rparr>" and "run_state (code c) s = (r, s')"
  shows "pool_reaches code g \<lparr>shared = s', threads = cs + mset_set (set_option r), elsewhere = es\<rparr>"
  using pool_step.runs [of c "\<lparr>shared = s, threads = add_mset c cs, elsewhere = es\<rparr>" code r s'] assms
  by (auto elim: rtranclp.rtrancl_into_rtrancl)

lemma arrives_to:
  assumes "pool_reaches code g \<lparr>shared = s, threads = cs, elsewhere = es\<rparr>"
  shows "pool_reaches code g \<lparr>shared = exec (arrive tr) s, threads = add_mset (Enter tr) cs, elsewhere = es\<rparr>"
  using pool_step.arrives [of code "\<lparr>shared = s, threads = cs, elsewhere = es\<rparr>" tr] assms
  by (auto elim: rtranclp.rtrancl_into_rtrancl)

lemma expiry_overtakes:
  assumes E: "env_ok E" "netif_up E" and inv: "section_inv E (self s) (cur s)" and st: "state (cur s) = dmdhcp_state_rebinding"
  shows "\<exists>g. pool_reaches (run_section E) (lone s) g \<and> threads g = {#} \<and> state (cur (shared g)) = dmdhcp_state_selecting
    \<and> iface_configured (cur (shared g))"
proof -
  note m = section_magic [OF inv]
  define s1 where "s1 = exec (arrive Lease_timer_fired) s"
  have cur1: "cur s1 = cur s" by (simp add: s1_def run_simps)
  define s2 where "s2 = s1\<lparr>log := log s1 @ [Mutex_lock (lock (cur s)), Mutex_unlock (lock (cur s))]\<rparr>"
  have r2: "run_state (lease_timer_section E) s1 = (Some Lost_teardown, s2)"
    using m st by (simp add: lease_timer_section_def run_simps cur1 s2_def)
  obtain s3 where r3: "run_state (lost_section E) s2 = (Some Lost_restart, s3)"
    using lost_split(2) [of E s2] by (cases "run_state (lost_section E) s2") simp
  have "cur s2 = cur s" by (simp add: s2_def cur1)
  with handle_lost_teardown_effect [OF E(1), of s2] r3 m st have s3: "state (cur s3) = dmdhcp_state_rebinding"
      "dns_servers (cur s3) \<noteq> None" "ntp_servers (cur s3) \<noteq> None"
    by (auto simp: lost_section_def run_simps emptied_def exec_def [of "handle_lost_teardown E"] split: option.splits)
  define s4 where "s4 = exec (dispatch_message E 5 (wire_view sample_message) []) s3"
  have r4: "run_state (received_section E 5 (wire_view sample_message) []) s3 = (None, s4)"
    unfolding s4_def by (rule received_whole) simp
  have s4: "iface_configured (cur s4)"
    using dispatch_renewed_effect [OF E(1) s3(2,3), of "wire_view sample_message" "[]"] s3(1) E(2) by (auto simp: s4_def)
  define s5 where "s5 = exec (handle_lost_restart E) s4"
  have s5: "state (cur s5) = dmdhcp_state_selecting" "iface_configured (cur s5)"
    using handle_lost_restart_effect [OF E(1), of s4] s4 by (auto simp: s5_def)
  have "pool_reaches (run_section E) (lone s) \<lparr>shared = s1, threads = {#Enter Lease_timer_fired#}, elsewhere = []\<rparr>"
    unfolding s1_def by (rule arrives_to) (simp add: lone_def)
  from runs_to [OF this] r2 have "pool_reaches (run_section E) (lone s) \<lparr>shared = s2, threads = {#Lost_teardown#}, elsewhere = []\<rparr>"
    by simp
  from runs_to [OF this] r3 have "pool_reaches (run_section E) (lone s) \<lparr>shared = s3, threads = {#Lost_restart#}, elsewhere = []\<rparr>"
    by simp
  from runs_to [OF arrives_to [OF this, of "Received 5 sample_message []"]] r4
  have "pool_reaches (run_section E) (lone s) \<lparr>shared = s4, threads = {#Lost_restart#}, elsewhere = []\<rparr>"
    by (simp add: run_simps)
  from runs_to [OF this] have "pool_reaches (run_section E) (lone s) \<lparr>shared = s5, threads = {#}, elsewhere = []\<rparr>"
    by (simp add: s5_def run_simps)
  with s5 show ?thesis by (intro exI [of _ "\<lparr>shared = s5, threads = {#}, elsewhere = []\<rparr>"]) simp
qed

theorem interleaving_invariant_witness:
  "\<exists>g. pool_reaches (run_section sample_env) (lone sample_rebinding) g \<and> section_inv sample_env 7 (cur (shared g))
     \<and> \<not> lease_inv sample_env 7 (cur (shared g))
     \<and> (\<exists>h. pool_reaches (run_section sample_env) h g \<and> Lost_restart \<in># threads h)"
proof -
  have inv: "lease_inv sample_env (self sample_rebinding) (cur sample_rebinding)"
    by (simp add: inv_defs servers_v4_def sample_rebinding_def sample_selecting_def sample_state_def zero_lease_def
        DMDHCP_LEASE_MAGIC_def)
  have self: "self sample_rebinding = 7" and st: "state (cur sample_rebinding) = dmdhcp_state_rebinding"
    and timers: "timers_ok None (observe timer_step (\<lambda>_. (0, True)) (log sample_rebinding)) (self sample_rebinding) (cur sample_rebinding)"
    by (simp_all add: sample_rebinding_def sample_selecting_def sample_state_def timers_ok_def)
  have "section_inv sample_env (self sample_rebinding) (cur sample_rebinding)" using inv by (simp add: lease_inv_section)
  from expiry_overtakes [OF sample_env_ok sample_netif_up this st] obtain g
    where g: "pool_reaches (run_section sample_env) (lone sample_rebinding) g"
      "state (cur (shared g)) = dmdhcp_state_selecting" "iface_configured (cur (shared g))"
    by blast
  then have "\<not> lease_inv sample_env 7 (cur (shared g))" by (simp add: inv_defs)
  with interleaving_invariant [OF sample_env_ok inv timers g(1)] g(1) self show ?thesis by auto
qed

end
