(* ===== verification/Dhcp_Threads.thy ===== *)
theory Dhcp_Threads
  imports Dhcp_Module Dhcp_Frame "HOL-Library.Sublist"
begin

text \<open>
  Threads that block. Each thread makes the platform calls of one action, in their order; \<open>dmosi_mutex_lock()\<close>
  waits until no thread holds the mutex, and \<open>dmosi_timer_destroy()\<close> until the callback of the timer has
  returned. Under every interleaving of any number of threads no two threads hold one mutex, and the threads never wait
  for each other in a circle: all of them can always run to their end.
\<close>

section \<open>Interleaving\<close>

text \<open>A thread: the timer whose callback it is, the mutexes it holds, the calls it still has to make.\<close>

record thread =
  serves :: "timer_id option"
  holds :: "mutex_id list"
  todo :: history

fun hold :: "mutex_id list \<Rightarrow> event \<Rightarrow> mutex_id list" where
  "hold hs (Mutex_lock (Some m)) = m # hs"
| "hold hs (Mutex_unlock (Some m)) = remove1 m hs"
| "hold hs _ = hs"

fun may_call :: "thread list \<Rightarrow> event \<Rightarrow> bool" where
  "may_call ts (Mutex_lock (Some m)) = list_all (\<lambda>t. m \<notin> set (holds t)) ts"
| "may_call ts (Timer_destroy tm) = list_all (\<lambda>t. serves t = Some tm \<longrightarrow> todo t = []) ts"
| "may_call ts _ = True"

inductive thread_step :: "thread list \<Rightarrow> thread list \<Rightarrow> bool" where
  "i < length ts \<Longrightarrow> todo (ts ! i) = e # es \<Longrightarrow> may_call ts e \<Longrightarrow>
   thread_step ts (ts[i := (ts ! i)\<lparr>holds := hold (holds (ts ! i)) e, todo := es\<rparr>])"

inductive_cases thread_step_elim: "thread_step ts ts'"

definition finished :: "thread list \<Rightarrow> bool" where
  "finished ts \<longleftrightarrow> list_all (\<lambda>t. todo t = []) ts"

section \<open>Disciplined threads\<close>

definition no_join :: "event \<Rightarrow> bool" where
  "no_join e \<longleftrightarrow> (\<forall>tm. e \<noteq> Timer_destroy tm)"

text \<open>The rest of the thread keeps the lock rules and gives every mutex back, and a callback joins no timer.\<close>

definition disciplined :: "thread \<Rightarrow> bool" where
  "disciplined t \<longleftrightarrow> observe lock_step (Some (holds t)) (todo t) = Some []
     \<and> (serves t \<noteq> None \<longrightarrow> list_all no_join (todo t))"

definition exclusive :: "thread list \<Rightarrow> bool" where
  "exclusive ts \<longleftrightarrow> (\<forall>i < length ts. \<forall>j < length ts. i \<noteq> j \<longrightarrow> set (holds (ts ! i)) \<inter> set (holds (ts ! j)) = {})"

lemma lock_step_hold: "lock_step (Some hs) e = Some hs' \<Longrightarrow> hs' = hold hs e"
  by (cases "(Some hs, e)" rule: lock_step.cases) (auto split: if_splits list.splits)

lemma observe_lock_None [simp]: "observe lock_step None es = None"
  by (induction es) simp_all

lemma disciplined_next:
  assumes "disciplined t" and "todo t = e # es"
  shows "lock_step (Some (holds t)) e = Some (hold (holds t) e)"
    and "disciplined (t\<lparr>holds := hold (holds t) e, todo := es\<rparr>)"
proof -
  obtain hs where "lock_step (Some (holds t)) e = Some hs" "observe lock_step (Some hs) es = Some []"
    using assms by (cases "lock_step (Some (holds t)) e") (auto simp: disciplined_def)
  with lock_step_hold [OF this(1)] assms
  show "lock_step (Some (holds t)) e = Some (hold (holds t) e)"
    and "disciplined (t\<lparr>holds := hold (holds t) e, todo := es\<rparr>)"
    by (simp_all add: disciplined_def)
qed

lemma set_hold: "set (hold hs e) \<subseteq> (case e of Mutex_lock (Some m) \<Rightarrow> insert m (set hs) | _ \<Rightarrow> set hs)"
  by (cases "(hs, e)" rule: hold.cases) (auto dest: in_set_remove1 [THEN iffD1, rotated] split: option.splits event.splits
      intro: set_remove1_subset [THEN subsetD])

lemma thread_step_keeps:
  assumes "thread_step ts ts'" and "list_all disciplined ts" and "exclusive ts"
  shows "list_all disciplined ts' \<and> exclusive ts'"
  using assms(1)
proof (rule thread_step_elim)
  fix i e es
  assume ts': "ts' = ts[i := (ts ! i)\<lparr>holds := hold (holds (ts ! i)) e, todo := es\<rparr>]"
    and i: "i < length ts" "todo (ts ! i) = e # es" "may_call ts e"
  have "disciplined (ts ! i)" using assms(2) i(1) by (simp add: list_all_length)
  from disciplined_next(2) [OF this i(2)] assms(2) i(1) have "list_all disciplined ts'"
    by (simp add: ts' list_all_length nth_list_update)
  moreover have other: "set (hold (holds (ts ! i)) e) \<inter> set (holds (ts ! j)) = {}" if "j < length ts" "j \<noteq> i" for j
    using set_hold [of "holds (ts ! i)" e] assms(3) i that
    by (auto simp: exclusive_def list_all_length split: event.splits option.splits)
  then have "exclusive ts'" using assms(3) i(1) by (auto simp: ts' exclusive_def nth_list_update)
  ultimately show ?thesis ..
qed

text \<open>A thread that holds a mutex is not at its end, and waits at most for a greater mutex.\<close>

lemma holder_runs:
  assumes "disciplined t" and "m \<in> set (holds t)"
  shows "\<exists>e es. todo t = e # es \<and> (\<forall>tm. e \<noteq> Timer_destroy tm) \<and> (\<forall>m'. e = Mutex_lock (Some m') \<longrightarrow> m < m')"
proof (cases "todo t")
  case Nil
  with assms show ?thesis by (simp add: disciplined_def)
next
  case (Cons e es)
  from disciplined_next(1) [OF assms(1) Cons] assms(2) Cons show ?thesis
    by (cases e) (auto split: if_splits option.splits)
qed

lemma may_call_free: "(\<And>m. e \<noteq> Mutex_lock (Some m)) \<Longrightarrow> (\<And>tm. e \<noteq> Timer_destroy tm) \<Longrightarrow> may_call ts e"
  by (cases "(ts, e)" rule: may_call.cases) auto

lemma thread_can_step: "t \<in> set ts \<Longrightarrow> todo t = e # es \<Longrightarrow> may_call ts e \<Longrightarrow> \<exists>ts'. thread_step ts ts'"
  by (metis in_set_conv_nth thread_step.intros)

section \<open>Progress\<close>

lemma disciplined_progress:
  assumes d: "list_all disciplined ts" and u: "\<not> finished ts"
  shows "\<exists>ts'. thread_step ts ts'"
proof -
  define W where "W = {m. \<exists>t \<in> set ts. \<exists>es. todo t = Mutex_lock (Some m) # es}"
  have "W \<subseteq> (\<lambda>t. case todo t of Mutex_lock (Some m) # es \<Rightarrow> m | _ \<Rightarrow> Table_mutex) ` set ts"
    by (force simp: W_def image_def)
  then have fin: "finite W" by (rule finite_subset) simp
  show ?thesis
  proof (cases "W = {}")
    case False
    then obtain m where m: "m \<in> W" "\<And>m'. m' \<in> W \<Longrightarrow> \<not> m < m'" using finite_has_maximal [OF fin] by (metis order_less_le)
    then obtain t es where t: "t \<in> set ts" "todo t = Mutex_lock (Some m) # es" by (auto simp: W_def)
    show ?thesis
    proof (cases "may_call ts (Mutex_lock (Some m))")
      case True
      with t show ?thesis by (rule thread_can_step)
    next
      case False
      then obtain h where h: "h \<in> set ts" "m \<in> set (holds h)" by (auto simp: list_all_iff)
      obtain e es' where e: "todo h = e # es'" "\<forall>tm. e \<noteq> Timer_destroy tm" "\<forall>m'. e = Mutex_lock (Some m') \<longrightarrow> m < m'"
        using holder_runs [of h m] h d by (auto simp: list_all_iff)
      with h(1) m(2) have "\<forall>m'. e \<noteq> Mutex_lock (Some m')" by (auto simp: W_def)
      with e(2) have "may_call ts e" by (blast intro: may_call_free)
      with h(1) e(1) show ?thesis by (blast intro: thread_can_step)
    qed
  next
    case True
    then have W: "todo t = e # es \<Longrightarrow> t \<in> set ts \<Longrightarrow> e \<noteq> Mutex_lock (Some m)" for t e es m by (auto simp: W_def)
    obtain t e es where t: "t \<in> set ts" "todo t = e # es" using u by (auto simp: finished_def list_all_iff neq_Nil_conv)
    show ?thesis
    proof (cases "may_call ts e")
      case True
      with t show ?thesis by (rule thread_can_step)
    next
      case False
      with W [OF t(2,1)] obtain tm where "e = Timer_destroy tm" using may_call_free by blast
      with False obtain v e' es' where v: "v \<in> set ts" "serves v = Some tm" "todo v = e' # es'"
        by (auto simp: list_all_iff neq_Nil_conv)
      with d have "no_join e'" by (auto simp: list_all_iff disciplined_def)
      with W [OF v(3,1)] have "may_call ts e'" by (auto simp: no_join_def intro: may_call_free)
      with v(1,3) show ?thesis by (rule thread_can_step)
    qed
  qed
qed

text \<open>Every step makes one call, so the threads come to their end.\<close>

lemma thread_step_shrinks:
  "thread_step ts ts' \<Longrightarrow> sum_list (map (length \<circ> todo) ts) = Suc (sum_list (map (length \<circ> todo) ts'))"
  by (elim thread_step_elim) (use elem_le_sum_list [of _ "map (length \<circ> todo) ts"] in \<open>fastforce simp: map_update sum_list_update\<close>)

lemma disciplined_finish:
  assumes "list_all disciplined ts" and "exclusive ts"
  shows "\<exists>ts'. thread_step\<^sup>*\<^sup>* ts ts' \<and> finished ts'"
  using assms
proof (induction "sum_list (map (length \<circ> todo) ts)" arbitrary: ts rule: less_induct)
  case less
  show ?case
  proof (cases "finished ts")
    case False
    then obtain u where u: "thread_step ts u" using disciplined_progress [OF less.prems(1)] by blast
    from less.hyps [of u] thread_step_shrinks [OF u] thread_step_keeps [OF u less.prems] obtain ts' where
      "thread_step\<^sup>*\<^sup>* u ts'" "finished ts'" by auto
    with u show ?thesis by (meson converse_rtranclp_into_rtranclp)
  qed blast
qed

lemma threads_keep:
  assumes "thread_step\<^sup>*\<^sup>* ts ts'" and "list_all disciplined ts" and "exclusive ts"
  shows "list_all disciplined ts' \<and> exclusive ts'"
  using assms by (induction rule: rtranclp_induct) (auto dest: thread_step_keeps)

section \<open>The threads of the module\<close>

text \<open>The number of timers that were joined.\<close>

fun join_step :: "nat \<Rightarrow> event \<Rightarrow> nat" where
  "join_step n (Timer_destroy _) = Suc n"
| "join_step n _ = n"

interpretation join_monitor: monitor join_step
proof
  fix e m
  assume "quiet e"
  then show "join_step m e = m" by (cases e) simp_all
qed

interpretation join_frame: outsider join_step
proof
  fix e m
  assume "own_call e"
  then show "join_step m e = m" by (cases e) simp_all
next
  fix e m
  assume "net_call e"
  then show "join_step m e = m" by (cases e) simp_all
qed simp

lemma joins_counted: "observe join_step n es = n + length (filter (\<lambda>e. \<not> no_join e) es)"
proof (induction es arbitrary: n)
  case (Cons e es)
  then show ?case by (cases e) (simp_all add: no_join_def)
qed simp

text \<open>The calls an action makes when it starts in a reachable state, as a thread.\<close>

definition calls_of :: "('l, 't) env \<Rightarrow> action \<Rightarrow> history \<Rightarrow> bool" where
  "calls_of E a es \<longleftrightarrow> (\<exists>s s'. reachable E s \<and> step E a s s' \<and> slog s' = slog s @ es)"

fun timer_of :: "action \<Rightarrow> timer_id option" where
  "timer_of (Retransmit_expires p) = Some (Retransmit_timer p)"
| "timer_of (Lease_timer_expires p) = Some (Lease_timer p)"
| "timer_of _ = None"

definition thread_of :: "action \<times> history \<Rightarrow> thread" where
  "thread_of r = \<lparr>serves = timer_of (fst r), holds = [], todo = snd r\<rparr>"

text \<open>Every step of the module only adds to the log, so its calls are the calls of a thread.\<close>

definition grows :: "('l, 'a) lease_monad \<Rightarrow> bool" where
  "grows m \<longleftrightarrow> (\<forall>s. prefix (log s) (log (exec m s)))"

lemma grows_bind: "grows m \<Longrightarrow> (\<And>x. grows (f x)) \<Longrightarrow> grows (State_Monad.bind m f)"
  by (simp add: grows_def run_simps) (meson prefix_order.trans)

lemma grows_basic:
  "grows (State_Monad.return x)" "grows (getl g)" "grows (modl u)" "grows getself" "grows (ask a)"
  "grows lock_lease" "grows unlock_lease" "grows (arm_timer tm p)" "grows (emit e)" "grows (call q ev)" "grows (emits es)"
  by (simp_all add: grows_def run_simps)

lemma grows_branch:
  "grows m \<Longrightarrow> grows k \<Longrightarrow> grows (if b then m else k)"
  "grows m \<Longrightarrow> (\<And>x. grows (f x)) \<Longrightarrow> grows (case opt of None \<Rightarrow> m | Some x \<Rightarrow> f x)"
  "(\<And>x y. grows (g x y)) \<Longrightarrow> grows (case pr of (x, y) \<Rightarrow> g x y)"
  by (auto split: option.splits prod.splits)

lemmas grows_rules = grows_bind grows_branch grows_basic

lemma grows_send: "grows (send_message E ty ciaddr req sid dst via)"
proof (unfold grows_def, rule allI)
  fix s
  obtain es where "exec (send_message E ty ciaddr req sid dst via) s = s\<lparr>log := log s @ es\<rparr>"
    using send_message_effect by blast
  then show "prefix (log s) (log (exec (send_message E ty ciaddr req sid dst via) s))" by simp
qed

lemma grows_clear:
  "grows (dmdhcp_lease_table_clear_dns_servers E)" "grows (dmdhcp_lease_table_clear_ntp_servers E)"
  unfolding dmdhcp_lease_table_clear_dns_servers_def dmdhcp_lease_table_clear_ntp_servers_def by (intro grows_rules)+

lemma grows_destroy_timer: "grows (destroy_timer own t)"
  unfolding destroy_timer_def by (intro grows_rules)

lemma grows_operations:
  "grows (seed_lease E cbs ud options)" "grows (begin_acquire E options)" "grows (create_fields E ifc)"
  "grows (destroy_fields E context)" "grows (release_locked E)" "grows (unapply_locked E)" "grows (dmdhcp_set_callbacks cbs ud)"
  unfolding seed_lease_def begin_acquire_def dmdhcp_output_start_reboot_def dmdhcp_output_start_discovery_def send_discover_def
    send_request_reboot_def create_fields_def
    create_lock_def create_dns_list_def create_ntp_list_def create_timers_def dmdhcp_output_create_retransmit_timer_def
    dmdhcp_lifecycle_create_lease_timer_def destroy_fields_def release_locked_def unapply_locked_def
    dmdhcp_lifecycle_unapply_def dmdhcp_output_send_release_def dmdhcp_set_callbacks_def bad_magic_def
  by (intro grows_rules grows_send grows_clear grows_destroy_timer)+

lemma on_lease_grows: "on_lease p m s = Some (x, s') \<Longrightarrow> grows m \<Longrightarrow> prefix (slog s) (slog s')"
  by (auto simp: on_lease_def grows_def exec_def split: option.splits prod.splits) (metis lctx.select_convs(3) snd_conv)

lemma table_grows:
  "dmdhcp_lease_table_insert E p s = Some (x, s') \<Longrightarrow> prefix (slog s) (slog s')"
  "dmdhcp_lease_table_remove E p s = Some (y, s') \<Longrightarrow> prefix (slog s) (slog s')"
  by (auto simp: dmdhcp_lease_table_insert_def dmdhcp_lease_table_remove_def sys_emit_def Let_def
      split: option.splits if_splits prod.splits)

lemma destroy_grows: "dmdhcp_lease_table_destroy E h s = Some (x, s') \<Longrightarrow> prefix (slog s) (slog s')"
  by (auto simp: dmdhcp_lease_table_destroy_def dmdhcp_lease_table_destroy_with_context_def bind_eq_Some_conv
      dest: on_lease_grows [OF _ grows_operations(4)] split: option.splits)

lemma create_grows:
  assumes "dmdhcp_lease_table_create E ifc s = Some (x, s')"
  shows "prefix (slog s) (slog s')"
proof -
  have "prefix (slog s @ [Malloc_lease (env_malloc_lease E (slog s))]) (slog s')"
    using assms by (auto simp: dmdhcp_lease_table_create_def Let_def sys_emit_def bind_eq_Some_conv split: option.splits if_splits
        dest!: on_lease_grows [OF _ grows_operations(3)] destroy_grows elim: prefix_order.trans)
  then show ?thesis by (rule append_prefixD)
qed

lemmas grows_trans = prefix_order.trans [of "slog s" "slog s1" "slog s2" for s s1 s2]

lemma start_grows:
  assumes "dmdhcp_start E ifc cbs ud options s = Some (x, s')"
  shows "prefix (slog s) (slog s')"
  using assms
  by (auto simp: dmdhcp_start_def bind_eq_Some_conv split: option.splits if_splits
      dest!: create_grows on_lease_grows [OF _ grows_operations(1)] table_grows(1) destroy_grows
        on_lease_grows [OF _ grows_operations(2)] intro: grows_trans)

lemma stop_grows:
  "dmdhcp_stop E h s = Some (x, s') \<Longrightarrow> prefix (slog s) (slog s')"
  "dmdhcp_release E h s = Some (y, s') \<Longrightarrow> prefix (slog s) (slog s')"
  by (auto simp: dmdhcp_stop_def dmdhcp_release_def bind_eq_Some_conv split: option.splits if_splits
      dest!: table_grows(2) on_lease_grows [OF _ grows_operations(5)] on_lease_grows [OF _ grows_operations(6)] destroy_grows
      intro: grows_trans)

lemma keeps_grows:
  assumes inv: "sys_inv E s" and p: "p \<in> set (leases E s)" and run: "on_lease p m s = Some (x, s')"
    and k: "\<And>c. lease_inv E (self c) (cur c) \<Longrightarrow> keeps E None c (exec m c)"
  shows "prefix (slog s) (slog s')"
proof -
  obtain l where l: "heap s p = Some l" "lease_inv E p l" by (rule sys_inv_lease [OF inv p])
  obtain es where "log (exec m \<lparr>self = p, cur = l, log = slog s\<rparr>) = slog s @ es"
    using k [of "\<lparr>self = p, cur = l, log = slog s\<rparr>"] l(2) by (auto simp: keeps_def)
  with run l(1) show ?thesis by (auto simp: on_lease_eq [of _ p l] Let_def)
qed

lemmas handler_grows = keeps_grows [OF _ _ _ trigger.keeps_inv]
lemmas renew_grows = keeps_grows [OF _ _ _ renewing.keeps_inv]

lemma owner_in_table: "owner E s ifc x = Some p \<Longrightarrow> p \<in> set (leases E s)"
  by (auto simp: owner_def find_Some_iff)

lemma datagram_grows:
  assumes E: "env_ok E" and inv: "sys_inv E s" and run: "dmdhcp_handle_datagram E ifc payload s = Some (x, s')"
  shows "prefix (slog s) (slog s')"
proof -
  let ?s = "s\<lparr>slog := slog s @ table_section\<rparr>"
  have inv': "sys_inv E ?s" by (rule sys_inv_log [OF inv]) simp_all
  have "prefix (slog ?s) (slog s')" if "on_lease p (handle E tr) ?s = Some (y, s')" "p \<in> set (leases E s)" for p tr y
    by (rule handler_grows [OF inv' _ that(1) E]) (use that(2) in \<open>simp_all add: leases_def\<close>)
  with run show ?thesis
    by (auto simp: datagram_eq [OF E inv] simp del: handle.simps split: option.splits prod.splits dest!: owner_in_table
        dest: append_prefixD)
qed

lemma step_grows:
  assumes E: "env_ok E" "fresh_malloc E" and r: "reachable E s" and step: "step E a s s'"
  shows "\<exists>es. calls_of E a es \<and> slog s' = slog s @ es"
proof -
  have inv: "sys_inv E s" by (rule reachable_sys_inv [OF E r])
  have en: "enabled E s a" and run: "perform E a s = Some s'" using step by (auto simp: step_iff)
  have timer: "p \<in> set (leases E s)" if "snd (timer_view s t)" "timer_owner t = p" for t p
    using that inv by (auto simp: sys_inv_def core_inv_def)
  have "prefix (slog s) (slog s')"
  proof (cases a)
    case (Start ifc cbs ud options)
    with run show ?thesis by (auto dest: start_grows)
  next
    case (Stop h)
    with run show ?thesis by (auto dest: stop_grows)
  next
    case (Release h)
    with run show ?thesis by (auto dest: stop_grows)
  next
    case (Renew h)
    with run en show ?thesis by (cases h) (auto simp: with_handle_def usable_def dest: renew_grows [OF inv _ _ E(1)])
  next
    case (Set_callbacks h cbs ud)
    with run show ?thesis by (cases h) (auto simp: with_handle_def dest: on_lease_grows [OF _ grows_operations(7)])
  next
    case (Access what h)
    have "grows (access E what)" unfolding grows_def using access_effect [of E what] by (metis lctx.select_convs(3) lctx.update_convs(3) prefixI lctx.surjective)
    with Access run show ?thesis by (cases h) (auto simp: with_handle_def dest: on_lease_grows)
  next
    case (Get_ntp_servers out n)
    with run reader_effect(1) [OF E(1) inv, of out n] show ?thesis by (auto simp del: perform.simps)
  next
    case (Provide_dns add ctx)
    with run reader_effect(2) [OF E(1) inv, of add ctx] show ?thesis by (auto simp del: perform.simps)
  next
    case (Provide_ntp add ctx)
    with run reader_effect(3) [OF E(1) inv, of add ctx] show ?thesis by (auto simp del: perform.simps)
  next
    case (Datagram ifc payload)
    with run show ?thesis by (auto dest: datagram_grows [OF E(1) inv])
  next
    case (Retransmit_expires p)
    with run en timer [of "Retransmit_timer p" p] show ?thesis
      by (auto simp del: handle.simps dest: handler_grows [OF inv _ _ E(1)])
  next
    case (Lease_timer_expires p)
    with run en timer [of "Lease_timer p" p] show ?thesis
      by (auto simp del: handle.simps dest: handler_grows [OF inv _ _ E(1)])
  qed
  then obtain es where "slog s' = slog s @ es" by (auto simp: prefix_def)
  with r step show ?thesis by (auto simp: calls_of_def)
qed

lemma calls_disciplined:
  assumes E: "env_ok E" "fresh_malloc E" and c: "calls_of E a es"
  shows "disciplined (thread_of (a, es))"
proof -
  from c obtain s s' where s: "reachable E s" "step E a s s'" "slog s' = slog s @ es" by (auto simp: calls_of_def)
  have free: "observe lock_step (Some []) (slog t) = Some []" if "reachable E t" for t
    using reachable_sys_inv [OF E that] core_invD(7) by (auto simp: sys_inv_def)
  have "observe lock_step (Some []) es = Some []"
    using free [OF s(1)] free [OF reachable.stepped [OF s(1,2)]] s(3) by simp
  moreover have "list_all no_join es" if "timer_of a \<noteq> None"
  proof -
    have "observe join_step 0 (slog s') = observe join_step 0 (slog s)"
      using that s(2) by (cases a) (auto simp: step_iff simp del: handle.simps dest: on_lease_still [OF _ join_frame.still_handle])
    then show ?thesis using s(3) by (simp add: joins_counted filter_empty_conv list_all_iff)
  qed
  ultimately show ?thesis by (simp add: disciplined_def thread_of_def)
qed

lemma threads_disciplined:
  assumes "env_ok E" "fresh_malloc E" and "\<forall>(a, es) \<in> set rs. calls_of E a es"
  shows "list_all disciplined (map thread_of rs) \<and> exclusive (map thread_of rs)"
  using assms(3) calls_disciplined [OF assms(1,2)] by (auto simp: list_all_iff exclusive_def thread_of_def)

text \<open>
  C11. No deadlock. Take any number of threads, each of which makes the calls of one action (an API call, a datagram, the
  callback of a timer) in their order, where a lock waits for the mutex and the destruction of a timer waits for
  its running callback. After any interleaving of their calls no two threads hold the same mutex, some thread can make its next call
  unless all have finished, and the threads can finish. Every step of the module is such a thread.
\<close>

theorem no_deadlock:
  assumes E: "env_ok E" "fresh_malloc E" and rs: "\<forall>(a, es) \<in> set rs. calls_of E a es"
    and run: "thread_step\<^sup>*\<^sup>* (map thread_of rs) ts"
  shows "exclusive ts \<and> (finished ts \<or> (\<exists>ts'. thread_step ts ts')) \<and> (\<exists>ts'. thread_step\<^sup>*\<^sup>* ts ts' \<and> finished ts')
    \<and> (\<forall>s a s'. reachable E s \<and> step E a s s' \<longrightarrow> (\<exists>es. calls_of E a es \<and> slog s' = slog s @ es))"
proof -
  have "list_all disciplined ts" "exclusive ts" using threads_keep [OF run] threads_disciplined [OF E rs] by blast+
  then show ?thesis using disciplined_progress disciplined_finish step_grows [OF E] by blast
qed

text \<open>The callback of the retransmission timer and a \<open>dmdhcp_stop()\<close>, which joins it, side by side.\<close>

theorem no_deadlock_witness:
  "\<exists>es fs ts. calls_of silent_env (Retransmit_expires 1) es \<and> calls_of silent_env (Stop (Some 1)) fs
     \<and> thread_step\<^sup>*\<^sup>* (map thread_of [(Retransmit_expires 1, es), (Stop (Some 1), fs)]) ts \<and> finished ts"
proof -
  have "enabled silent_env sample_started (Retransmit_expires 1)" "enabled silent_env sample_started (Stop (Some 1))"
    using sample_started_run(2,5) by (simp_all add: usable_def)
  then obtain es fs where c: "calls_of silent_env (Retransmit_expires 1) es" "calls_of silent_env (Stop (Some 1)) fs"
    using run_actions_total [OF silent_env_ok sample_reachable(1)] step_grows [OF silent_env_ok sample_reachable(1)]
    by (metis step.act)
  then have "\<forall>(a, es) \<in> set [(Retransmit_expires 1, es), (Stop (Some 1), fs)]. calls_of silent_env a es" by simp
  from no_deadlock [OF silent_env_ok this rtranclp.rtrancl_refl] c show ?thesis by blast
qed

end
