(* ===== verification/Dhcp_Findings.thy ===== *)
theory Dhcp_Findings
  imports Dhcp_Threads Dhcp_Races
begin

text \<open>
  Behaviour of the code that its documentation does not promise or contradicts, each as a lemma over the
  model: callbacks that end their own lease, results that are ignored, arithmetic that wraps.
\<close>

section \<open>A callback that ends its own lease\<close>

lemma teardown_keeps:
  assumes E: "env_ok E" and inv: "lease_inv E (self s) (cur s)"
  shows "keeps E None s (exec (handle_lost_teardown E) s)"
proof -
  obtain es fs ntp where run: "exec (handle_lost_teardown E) s =
       s\<lparr>cur := (cur s)\<lparr>default_route := (if iface_configured (cur s) then None else default_route (cur s)),
            iface_configured := False, ntp_servers := ntp\<rparr>,
         log := log s @ Mutex_lock (lock (cur s)) # es @ fs @ [Mutex_unlock (lock (cur s))]\<rparr>"
    and es: "list_all net_call es" "heap_only (- int (length (servers_of E (ntp_servers (cur s))))) fs"
      "emptied E (ntp_servers (cur s)) ntp"
    using handle_lost_teardown_effect [OF E, of s] by (auto simp: exec_def)
  have "ntp \<noteq> None" "servers_of E ntp = []" using es(3) inv by (auto simp: emptied_def inv_defs)
  with inv es(1) show ?thesis
    by (intro keepsI [OF run])
      (auto simp: inv_defs servers_v4_def timers_ok_def stored_def holds_valid_lease_def heap_only_balance [OF es(2)]
        calm_balance [OF net_call_calm [OF es(1)]])
qed

text \<open>
  The application may stop its lease in \<open>on_expired_or_lost\<close>, where no lock is held; the second section of
  \<open>dmdhcp_lifecycle_handle_lost()\<close> then works on a freed lease.
\<close>

lemma callback_stop_frees:
  assumes E: "env_ok E" "fresh_malloc E" and r: "reachable E s" and p: "p \<in> set (leases E s)"
  shows "\<exists>x s1 s2. on_lease p (handle_lost_teardown E) s = Some (x, s1) \<and> dmdhcp_stop E (Some p) s1 = Some ((), s2)
    \<and> on_lease p (handle_lost_restart E) s2 = None"
proof -
  have inv: "sys_inv E s" by (rule reachable_sys_inv [OF E r])
  obtain l where l: "heap s p = Some l" "lease_inv E p l" by (rule sys_inv_lease [OF inv p])
  then have "keeps E None \<lparr>self = p, cur = l, log = slog s\<rparr> (exec (handle_lost_teardown E) \<lparr>self = p, cur = l, log = slog s\<rparr>)"
    by (intro teardown_keeps [OF E(1)]) simp
  from keeps_sys_inv [OF inv l(1) this] obtain x s1 where
    s1: "on_lease p (handle_lost_teardown E) s = Some (x, s1)" "sys_inv E s1" "leases E s1 = leases E s" by blast
  with stop_inv [OF E(1), of s1 p] p obtain s2 where "dmdhcp_stop E (Some p) s1 = Some ((), s2)" "heap s2 p = None" by auto
  with s1(1) show ?thesis by (auto simp: on_lease_def)
qed

text \<open>A timer's callback that destroys its own timer waits for itself: its thread never finishes.\<close>

lemma self_join_hangs:
  assumes "thread_step\<^sup>*\<^sup>* ts ts'" and "i < length ts"
    and "serves (ts ! i) = Some tm" and "Timer_destroy tm \<in> set (todo (ts ! i))"
  shows "\<not> finished ts'"
proof -
  have "i < length ts' \<and> serves (ts' ! i) = Some tm \<and> Timer_destroy tm \<in> set (todo (ts' ! i))"
    using assms
  proof (induction rule: rtranclp_induct)
    case (step u v)
    then have u: "i < length u" "serves (u ! i) = Some tm" "Timer_destroy tm \<in> set (todo (u ! i))" by simp_all
    have "\<not> may_call u (Timer_destroy tm)" using u by (auto simp: list_all_length)
    with step.hyps(2) u show ?case by (elim thread_step_elim) (auto simp: nth_list_update)
  qed simp
  then show ?thesis by (auto simp: finished_def list_all_length)
qed

text \<open>The calls of \<open>dmdhcp_stop()\<close> destroy both timers of the lease, also on the thread of one of them.\<close>

lemma made_later:
  "e \<in> set (log (exec (f (fst (run_state m s))) (exec m s))) \<Longrightarrow> e \<in> set (log (exec (State_Monad.bind m f) s))"
  by (simp add: run_simps)

lemma made_first:
  "e \<in> set (log (exec m s)) \<Longrightarrow> (\<And>x. grows (f x)) \<Longrightarrow> e \<in> set (log (exec (State_Monad.bind m f) s))"
  by (auto simp: run_simps grows_def prefix_def) (metis Un_iff set_append)

lemmas grows_destroy = grows_rules grows_clear grows_destroy_timer

lemma destroy_joins:
  assumes "lease_inv E (self s) (cur s)"
  shows "Timer_destroy (Retransmit_timer (self s)) \<in> set (log (exec (destroy_fields E dmdhcp_teardown_context_normal) s))"
    and "Timer_destroy (Lease_timer (self s)) \<in> set (log (exec (destroy_fields E dmdhcp_teardown_context_normal) s))"
  unfolding destroy_fields_def
  by (rule made_later, rule made_later, rule made_later, rule made_first,
      use assms in \<open>simp add: run_simps destroy_timer_effect inv_defs\<close>, intro grows_destroy)
    (rule made_later, rule made_later, rule made_later, rule made_later, rule made_later, rule made_first,
      use assms in \<open>simp add: run_simps destroy_timer_effect inv_defs\<close>, intro grows_destroy)

section \<open>Ignored results\<close>

text \<open>A lease becomes bound, and \<open>on_bound\<close> is called, although its address could not be set.\<close>

lemma bound_without_address:
  assumes "\<not> probe_answered E s" and "lease_inv E (self s) (cur s)" and "state (cur s) = dmdhcp_state_checking_ack"
    and fail: "\<forall>h i a. isl (env_set_ip_address E h i a)"
  shows "state (cur (exec (handle E Retransmit_fired) s)) = dmdhcp_state_bound
    \<and> \<not> iface_configured (cur (exec (handle E Retransmit_fired) s))"
proof -
  have unset: "cur (exec (dmdhcp_lifecycle_apply E) c) = cur c" for c
    using fail by (simp add: dmdhcp_lifecycle_apply_def run_simps)
  have "magic (cur s) = DMDHCP_LEASE_MAGIC" "\<not> iface_configured (cur s)"
    using assms(2,3) by (auto simp: inv_defs holds_valid_lease_def)
  with assms(1,3) show ?thesis
    by (simp add: retransmit_timer_callback_def run_conflict_probe_def dmdhcp_lifecycle_arm_t1_def run_simps unset probe_answered_def
        split: option.splits)
qed

text \<open>When the UDP port cannot be bound, \<open>dmod_init()\<close> fails and leaves the table list and its mutex allocated.\<close>

lemma failed_init_leaks:
  assumes "env_lease_list_create E [] = Some t" and "\<forall>h. env_mutex_create E h Table_mutex" and "\<forall>h. env_udp_bind E h = Inl e"
  shows "dmod_init E empty_sys = (Inl (Eother 1), empty_sys\<lparr>g_leases := Some t, g_leases_mutex := Some Table_mutex,
    slog := [List_create Lease_list True, Mutex_create Table_mutex True, Udp_bind DMDHCP_CLIENT_PORT (Inl e)]\<rparr>)"
  using assms by (simp add: dmod_init_def dmdhcp_lease_table_init_def dmdhcp_input_register_def sys_emit_def Let_def empty_sys_def)

section \<open>Arithmetic\<close>

text \<open>The default of T2 wraps: for a lease of 613566757 seconds it is 0, below T1.\<close>

lemma default_t2_wraps:
  assumes "found_bytes options DMDHCP_OPT_RENEWAL_T1 = None" and "found_bytes options DMDHCP_OPT_REBINDING_T2 = None"
    and "read_lease_time options = 613566757"
  shows "read_t1 options = 306783378 \<and> read_t2 options = 0"
  using assms by (simp add: read_times(2,3) time_value_def)

section \<open>Messages\<close>

text \<open>The host name goes with every message, DECLINE and RELEASE included.\<close>

lemma hostname_always: "\<exists>opt \<in> set (message_options ty req sid (Some name)). opt_code opt = DMDHCP_OPT_HOSTNAME"
  by (simp add: message_options_def)

text \<open>A release sends DHCPRELEASE for an address in any state, also one that was only offered.\<close>

lemma release_sends:
  assumes "family (offered_ip (cur s)) = dmroute_family_v4" and "family (server_id (cur s)) = dmroute_family_v4"
  shows "exec (release_locked E) s = exec (do {
       configured \<leftarrow> getl iface_configured;
       (if configured then dmdhcp_lifecycle_unapply E else State_Monad.return ());
       unlock_lease }) (exec (dmdhcp_output_send_release E) (s\<lparr>log := log s @ [Mutex_lock (lock (cur s))]\<rparr>))"
  using assms by (simp add: release_locked_def run_simps)

end
