(* ===== verification/Spec2Isabelle.thy ===== *)
theory Spec2Isabelle
  imports Dhcp_Messages Dhcp_Renewal Dhcp_Reports Dhcp_Interleaving Dhcp_Findings
begin

text \<open>
  \<^bold>\<open>dmdhcp, a DHCP client library, verified as a shallow embedding.\<close>

  \<^bold>\<open>The program.\<close> dmdhcp keeps one lease per network interface in a table
  (\<open>src/dmdhcp_lease_table.c\<close>). Each lease is a state machine after RFC 2131 that is driven by
  three sources: received datagrams (\<open>src/dmdhcp_input.c\<close>), its retransmission timer
  (\<open>src/dmdhcp_output.c\<close>) and its lease timer (\<open>src/dmdhcp_lifecycle.c\<close>). Messages are built
  and parsed by two codecs, the fixed header (\<open>src/dmdhcp_wire.c\<close>) and the options
  (\<open>src/dmdhcp_options.c\<close>). A lease that is acknowledged, and whose address nobody answers for
  when it is probed by ARP, is applied to the interface; renewal, rebinding and expiry follow the
  times of the lease. The application starts, renews, releases and stops leases and is called back
  (\<open>src/dmdhcp.c\<close>, \<open>include/dmdhcp.h\<close>); DNS and NTP clients ask for the servers of the valid
  leases (\<open>src/dmdhcp_registrations.c\<close>); \<open>tools/dhcpc\<close> is a small command.

  \<^bold>\<open>The theories\<close>, in the order of their imports.
  \<^item> \<open>Dhcp_Prelude\<close>: word types, errno values, buffers as lists, layouts, the run lemmas of the
    state monad.
  \<^item> \<open>Dhcp_Defs\<close>: the constants, enumerations and structures of \<open>include/dmdhcp.h\<close> and
    \<open>src/dmdhcp_internal.h\<close>.
  \<^item> \<open>Dhcp_Wire\<close>, \<open>Dhcp_Options\<close>: the codecs, one definition per C function. A pointer that may be
    NULL is an option; a buffer is a list of bytes; an out pointer that is compared with NULL is a
    flag. They show the round trips in both directions, which inputs are accepted, that a
    search never reads past the option area, and that it agrees with an independent decoder.
    The locale \<open>option_codec\<close> states what clients rely on.
  \<^item> \<open>Dhcp_Platform\<close>: everything outside the repository, as the record \<open>env\<close> (list, timers,
    mutexes, interfaces, routes, UDP, ARP, allocator), an argument of every definition that
    calls it. Each answer may depend on the whole history of calls. A call is an event
    of a log. \<open>env_ok\<close> states what the code relies on (a list is a list, an allocated buffer has
    the size asked for). Also \<open>struct dmdhcp_lease\<close>, and the state monad of code that works on one
    lease.
  \<^item> \<open>Dhcp_Monitor\<close>: observers of the log (held locks, live leases, timers, interface
    configuration, memory), instances of the locale \<open>monitor\<close>.
  \<^item> \<open>Dhcp_Servers\<close>: the DNS and NTP lists; one locale \<open>server_list\<close> for both.
  \<^item> \<open>Dhcp_Output\<close>, \<open>Dhcp_Lifecycle\<close>, \<open>Dhcp_Conflict\<close>, \<open>Dhcp_Input\<close>, \<open>Dhcp_Access\<close>: sending and
    backoff, the interface and the lease timer, the conflict probe and the retransmission
    timer, option values and dispatch, and the accessors. Each has an effect lemma per function (what
    it changes of the lease and which calls it makes) from which the properties follow.
  \<^item> \<open>Dhcp_Invariant\<close>: the invariant of a lease and the contract \<open>lease_handler\<close> that every
    handler fulfils (invariant, locks, timers, memory), interpreted on each of them.
  \<^item> \<open>Dhcp_Protocol\<close>: the state machine over numbers and states, without locks, words, bytes or
    memory; the handlers refine it. From it: unanswered REQUESTs end in a new search. \<open>Dhcp_Messages\<close>:
    the datagrams of the handlers, byte by byte: the messages a waiting lease repeats, and how often; the DHCPDECLINE of an
    address conflict, the pause and the new search after it, and the failure after the fourth.
  \<^item> \<open>Dhcp_Table\<close>, \<open>Dhcp_Visit\<close>, \<open>Dhcp_Api\<close>: the module's state (the heap of leases, the table, the
    log) and every function on it. The result \<open>None\<close> is undefined behaviour: a freed lease
    is used, or the table before it exists.
  \<^item> \<open>Dhcp_System\<close>, \<open>Dhcp_Start\<close>: the module's invariant, kept by lookup, datagrams, removal,
    destruction, creation, start, and established by init and dissolved by deinit.
  \<^item> \<open>Dhcp_Readers\<close>: what the readers of the table report. \<open>Dhcp_Directory\<close>: the table implements a
    map from interfaces to leases (locale \<open>directory\<close>).
  \<^item> \<open>Dhcp_Machine\<close>, \<open>Dhcp_Runs\<close>: the module as a labelled transition system whose
    actions are API calls, datagrams and timers; its reachable states; concrete runs.
  \<^item> \<open>Dhcp_Frame\<close>: rules for code that leaves an observer of the log as it is, one per way of putting code
    together (locale \<open>bystander\<close>, for the network; locale \<open>outsider\<close>, which extends it to observers that no handler of
    a lease concerns, for the objects of the platform, the failed creations and the joined timers).
  \<^item> \<open>Dhcp_Objects\<close>: the mutexes, timers and lists that exist, and the creations that failed; which of them each lease owns,
    and that start, stop, release, a failed start and deinit create and destroy exactly those.
  \<^item> \<open>Dhcp_Module\<close>: the properties of all reachable states and of every entry point.
  \<^item> \<open>Dhcp_Network\<close>, \<open>Dhcp_Configured\<close>: the contract
    \<open>net_handler\<close> of what a handler does to its interface and routes, interpreted on every handler,
    and its lift to the reachable states: the interfaces are configured as the leases say.
  \<^item> \<open>Dhcp_Acquire\<close>: the exchange of four messages, from the bytes on the wire to the configured interface.
    \<open>Dhcp_Renewal\<close>: the life of a bound lease, renewed by an ACK or lost at its last deadline.
    \<open>Dhcp_Reports\<close>: what the accessors report, compared with the configured interface.
  \<^item> \<open>Dhcp_Threads\<close>: threads that make the calls of the actions and block on mutexes and on the joining of
    timers; every interleaving can finish.
  \<^item> \<open>Dhcp_Races\<close>: the two operations that give up every lock in the middle, split there, with other
    actions in the gap. \<open>Dhcp_Callbacks\<close>: the same for the callbacks \<open>on_bound\<close> and \<open>on_error\<close> on the timer thread, from
    which the application may call the module. \<open>Dhcp_Findings\<close>: lemmas on behaviour that the documentation does not promise.
  \<^item> \<open>Dhcp_Sections\<close>, \<open>Dhcp_Guarantees\<close>, \<open>Dhcp_Interleaving\<close>: the handlers of a lease cut wherever they give up its lock, shown to be
    the handlers when they run alone; what each section relies on and guarantees; and any number of threads on one lease
    that interleave by sections, with the invariant that survives (locale \<open>interleaved\<close>) and the one gap that breaks the rest of it.

  \<^bold>\<open>What is shown.\<close> In every reachable state: at most one lease per interface, every lease in its
  invariant, no undefined behaviour in the next action whatever it is, every lease that
  has not failed is waited on by a running timer, no timer of a freed lease runs, locks are
  taken in order and none is held during a callback, no two threads wait for each other for good,
  and no memory, mutex, timer or list is lost; well-formedness, memory and wake-ups also when the threads on a lease interleave; and where the
  interface calls succeed, each interface has the configuration of its valid lease and nothing else. Each entry point
  has its functional behaviour on every branch. Closing the module frees and unconfigures everything.

  \<^bold>\<open>Bounds and fuel.\<close> Words keep their width wherever the code computes with them, so
  the wrap of \<open>t1_sec * 1000u\<close> is a theorem. Only the loops that pop a list until NULL run on fuel, one more
  than the size of the list, which is shown to be enough; the loop of deinit runs \<open>dmlist_size\<close> times
  as in the code. The sections of a handler run alone on fuel three, which is shown to be enough. The other loops are recursions over the option area, with a measure, or over an index list.

  \<^bold>\<open>Not modelled.\<close> The platform modules and the application's callbacks, which are parameters;
  log and console output; the prototypes of the headers. An action of the machine runs to its end before the next one, so the properties of
  the reachable states are about sequences of actions. Threads appear in three ways: \<open>Dhcp_Threads\<close>
  interleaves the calls that the actions make and shows that they do not block each other for good, without the effect of
  one thread on the data of another; \<open>Dhcp_Interleaving\<close> has that effect for all threads that drive one lease, as long as nobody stops it;
  \<open>Dhcp_Races\<close> and \<open>Dhcp_Callbacks\<close> let whole actions, among them stop and release, run in the gaps of one operation,
  and show where that uses a freed lease. A callback that stops its own lease is
  undefined behaviour, or waits for itself (\<open>Dhcp_Findings\<close>). Accesses outside a lock (the comparison of transaction ids in the
  lookup) are taken to be atomic. The code ignores the results of \<open>dmosi_timer_set_period()\<close> and
  \<open>dmosi_timer_start()\<close>, and so does the model: every timer that is started runs. The cast of a number of servers to \<open>int\<close> in
  \<open>dmdhcp_get_ntp_servers()\<close> is left out. A search of the table counts a freed lease anywhere in it as undefined behaviour,
  which is stricter than the code. Nothing else of the repository's C code is left out.
\<close>

end
